(* ===== verification/HS_Prelude.thy ===== *)
theory HS_Prelude
  imports Main "HOL-Library.Word"
begin

unbundle bit_operations_syntax

text \<open>
  Shared ground of the development: the result type of C code that may run into undefined
  behaviour or an assertion, memory blocks with bounds and uninitialised cells, the fixed
  widths of the C integers the program stores, and the bytes of C strings.

  A C function is a HOL function that returns \<open>Inr\<close> of its results and the new state, or
  \<open>Inl\<close> of the first fault. A fault is what the C standard calls undefined behaviour (a
  read outside a block or of a cell never written, a null pointer, a freed object, an overflowing signed computation), the end
  of the process by \<open>exit\<close>, or the exhaustion of the fuel of a modelled loop. Allocation
  is taken to succeed.
\<close>

named_theorems hs_simps \<open>rewrite rules the component proofs share\<close>

section \<open>Results\<close>

datatype fault =
    Out_Of_Bounds
  | Uninitialised
  | Null_Pointer
  | Use_After_Free
  | Overlapping_Copy
  | Signed_Overflow
  | Process_Exit
  | Out_Of_Fuel

type_synonym 'a result = "fault + 'a"

definition bindr :: "'a result \<Rightarrow> ('a \<Rightarrow> 'b result) \<Rightarrow> 'b result" where
  "bindr m f = (case m of Inl e \<Rightarrow> Inl e | Inr x \<Rightarrow> f x)"

lemma bindr_simps [simp]:
  "bindr (Inl e) f = Inl e"
  "bindr (Inr x) f = f x"
  by (simp_all add: bindr_def)

lemma bindr_Inr_iff [hs_simps]: "bindr m f = Inr y \<longleftrightarrow> (\<exists>x. m = Inr x \<and> f x = Inr y)"
  by (cases m) simp_all

lemma bindr_InrE:
  assumes "bindr m f = Inr y"
  obtains x where "m = Inr x" and "f x = Inr y"
  using assms by (auto simp: bindr_Inr_iff)

lemma bindr_assoc: "bindr (bindr m f) g = bindr m (\<lambda>x. bindr (f x) g)"
  by (cases m) simp_all

section \<open>Memory blocks\<close>

text \<open>
  A heap block of \<open>n\<close> objects is a list of \<open>n\<close> cells; a cell is \<open>None\<close> until
  it is written (\<open>malloc\<close> and the tail of a grown \<open>realloc\<close>). A pointer to a
  block is an option: \<open>None\<close> is \<open>NULL\<close>. Offsets are integers, since the code computes
  with pointers that may leave the block.
\<close>

type_synonym 'a block = "'a option list"

definition rd :: "'a block option \<Rightarrow> int \<Rightarrow> 'a result" where
  "rd m i = (case m of None \<Rightarrow> Inl Null_Pointer
     | Some b \<Rightarrow> if 0 \<le> i \<and> i < int (length b)
                then (case b ! nat i of None \<Rightarrow> Inl Uninitialised | Some x \<Rightarrow> Inr x)
                else Inl Out_Of_Bounds)"

text \<open>\<open>store m i xs\<close> writes the cells \<open>xs\<close> from offset \<open>i\<close> on.\<close>

definition store :: "'a block option \<Rightarrow> int \<Rightarrow> 'a block \<Rightarrow> 'a block option result" where
  "store m i xs = (case m of
       None \<Rightarrow> if xs = [] then Inr None else Inl Null_Pointer
     | Some b \<Rightarrow> if 0 \<le> i \<and> i + int (length xs) \<le> int (length b)
                then Inr (Some (take (nat i) b @ xs @ drop (nat i + length xs) b))
                else Inl Out_Of_Bounds)"

text \<open>\<open>cells m i n\<close> is the contents of \<open>n\<close> cells from \<open>i\<close> on, written or not.\<close>

definition cells :: "'a block option \<Rightarrow> int \<Rightarrow> int \<Rightarrow> 'a block result" where
  "cells m i n = (case m of
       None \<Rightarrow> if n = 0 then Inr [] else Inl Null_Pointer
     | Some b \<Rightarrow> if 0 \<le> i \<and> 0 \<le> n \<and> i + n \<le> int (length b)
                then Inr (take (nat n) (drop (nat i) b))
                else Inl Out_Of_Bounds)"

text \<open>\<open>memcpy\<close> inside one block; copying between overlapping areas is undefined in C.\<close>

definition memcpy_within :: "'a block option \<Rightarrow> int \<Rightarrow> int \<Rightarrow> int \<Rightarrow> 'a block option result" where
  "memcpy_within m dst src n =
     bindr (cells m src n) (\<lambda>xs.
       if 0 < n \<and> dst < src + n \<and> src < dst + n then Inl Overlapping_Copy
       else store m dst xs)"

definition malloc_block :: "int \<Rightarrow> 'a block option" where
  "malloc_block n = Some (replicate (nat n) None)"

definition calloc_block :: "'a \<Rightarrow> int \<Rightarrow> 'a block option" where
  "calloc_block z n = Some (replicate (nat n) (Some z))"

definition realloc_block :: "'a block option \<Rightarrow> int \<Rightarrow> 'a block option" where
  "realloc_block m n = (let b = (case m of None \<Rightarrow> [] | Some b \<Rightarrow> b) in
     Some (take (nat n) b @ replicate (nat n - length b) None))"

definition block_size :: "'a block option \<Rightarrow> int" where
  "block_size m = (case m of None \<Rightarrow> 0 | Some b \<Rightarrow> int (length b))"

text \<open>The first \<open>n\<close> cells of a block hold the values \<open>xs\<close>.\<close>

definition holds :: "'a block option \<Rightarrow> 'a list \<Rightarrow> bool" where
  "holds m xs \<longleftrightarrow> (case m of None \<Rightarrow> xs = []
     | Some b \<Rightarrow> length xs \<le> length b \<and> take (length xs) b = map Some xs)"

lemma rd_Some_iff [hs_simps]:
  "rd m i = Inr x \<longleftrightarrow> (\<exists>b. m = Some b \<and> 0 \<le> i \<and> i < int (length b) \<and> b ! nat i = Some x)"
  by (auto simp: rd_def split: option.splits if_splits)

lemma rd_None [simp]: "rd None i = Inl Null_Pointer"
  by (simp add: rd_def)

lemma rd_holds:
  assumes "holds m xs" and "0 \<le> i" and "i < int (length xs)"
  shows "rd m i = Inr (xs ! nat i)"
proof (cases m)
  case None
  with assms show ?thesis by (simp add: holds_def)
next
  case (Some b)
  with assms have len: "length xs \<le> length b" and eq: "take (length xs) b = map Some xs"
    by (auto simp: holds_def)
  have i: "nat i < length xs" using assms by linarith
  have "b ! nat i = take (length xs) b ! nat i"
    using i by simp
  also have "\<dots> = Some (xs ! nat i)"
    using i by (simp add: eq)
  finally show ?thesis
    using Some len i assms(2) by (simp add: rd_def)
qed

lemma holds_prefix: "holds m (xs @ ys) \<Longrightarrow> holds m xs"
  by (cases m) (auto simp: holds_def take_add)

lemma holds_Nil [simp]: "holds m []"
  by (cases m) (simp_all add: holds_def)

lemma block_size_Some [simp]: "block_size (Some b) = int (length b)"
  by (simp add: block_size_def)

lemma block_size_None [simp]: "block_size None = 0"
  by (simp add: block_size_def)

lemma block_size_nonneg [simp]: "0 \<le> block_size m"
  by (cases m) simp_all

lemma rd_in_bounds: "rd m i = Inr x \<Longrightarrow> 0 \<le> i \<and> i < block_size m"
  by (auto simp: rd_Some_iff)

lemma block_size_malloc [simp]: "block_size (malloc_block n) = max 0 n"
  by (simp add: malloc_block_def)

lemma block_size_calloc [simp]: "block_size (calloc_block z n) = max 0 n"
  by (simp add: calloc_block_def)

lemma block_size_realloc [simp]: "block_size (realloc_block m n) = max 0 n"
  by (cases m) (auto simp: realloc_block_def Let_def)

lemma block_size_store: "store m i xs = Inr m' \<Longrightarrow> block_size m' = block_size m"
  by (auto simp: store_def split: option.splits if_splits)

lemma holds_length: "holds m xs \<Longrightarrow> int (length xs) \<le> block_size m"
  by (cases m) (auto simp: holds_def)

lemma holds_realloc:
  assumes "holds m xs" and "int (length xs) \<le> n"
  shows "holds (realloc_block m n) xs"
proof (cases m)
  case None
  with assms show ?thesis by (simp add: holds_def realloc_block_def Let_def)
next
  case (Some b)
  have n: "length xs \<le> nat n" using assms(2) by linarith
  with assms Some show ?thesis
    by (simp add: holds_def realloc_block_def Let_def min_def)
qed

lemma store_ok:
  "0 \<le> i \<Longrightarrow> i + int (length xs) \<le> block_size m \<Longrightarrow> m \<noteq> None \<Longrightarrow> \<exists>m'. store m i xs = Inr m'"
  by (auto simp: store_def)

lemma holds_store_append:
  assumes "holds m xs" and "store m (int (length xs)) (map Some ys) = Inr m'"
  shows "holds m' (xs @ ys)"
proof (cases m)
  case None
  with assms show ?thesis by (auto simp: store_def holds_def split: if_splits)
next
  case (Some b)
  with assms have "length xs + length ys \<le> length b" and "take (length xs) b = map Some xs"
    and "m' = Some (take (length xs) b @ map Some ys @ drop (length xs + length ys) b)"
    by (auto simp: store_def holds_def split: if_splits)
  then show ?thesis
    by (simp add: holds_def)
qed

section \<open>Integer widths\<close>

text \<open>
  The program stores \<open>int8_t\<close>, \<open>int16_t\<close>, \<open>int32_t\<close> and \<open>int64_t\<close>
  values. A field holds the number; every assignment of a computed value wraps it to the
  width of the field (two's complement, as the compilers the program targets do).
\<close>

definition i8 :: "int \<Rightarrow> int" where "i8 x = signed_take_bit 7 x"
definition i16 :: "int \<Rightarrow> int" where "i16 x = signed_take_bit 15 x"
definition i32 :: "int \<Rightarrow> int" where "i32 x = signed_take_bit 31 x"
definition i64 :: "int \<Rightarrow> int" where "i64 x = signed_take_bit 63 x"

lemma i8_id: "- 128 \<le> x \<Longrightarrow> x < 128 \<Longrightarrow> i8 x = x"
  by (simp add: i8_def signed_take_bit_int_eq_self)

lemma i16_id: "- 32768 \<le> x \<Longrightarrow> x < 32768 \<Longrightarrow> i16 x = x"
  by (simp add: i16_def signed_take_bit_int_eq_self)

lemma i32_id: "- 2147483648 \<le> x \<Longrightarrow> x < 2147483648 \<Longrightarrow> i32 x = x"
  by (simp add: i32_def signed_take_bit_int_eq_self)

lemma i64_id: "- 9223372036854775808 \<le> x \<Longrightarrow> x < 9223372036854775808 \<Longrightarrow> i64 x = x"
  by (simp add: i64_def signed_take_bit_int_eq_self)

lemmas width_ids = i8_id i16_id i32_id i64_id

lemma i64_bounds: "- 9223372036854775808 \<le> i64 x" "i64 x < 9223372036854775808"
  using signed_take_bit_int_greater_eq_minus_exp [of 63 x] signed_take_bit_int_less_exp [of 63 x]
  by (simp_all add: i64_def)

section \<open>Bytes and C strings\<close>

text \<open>
  A byte is a HOL character. \<open>c_int\<close> is its value as a C \<open>char\<close>, which is signed on
  the platforms the program targets.
\<close>

definition c_int :: "char \<Rightarrow> int" where
  "c_int c = (let u = of_char c in if u < 128 then u else u - 256)"

definition nul :: char where "nul = CHR 0x00"
definition cr :: char where "cr = CHR 0x0D"
definition lf :: char where "lf = CHR 0x0A"
definition tab :: char where "tab = CHR 0x09"

definition crlf :: string where "crlf = [cr, lf]"

lemma c_int_eq_iff [simp]: "c_int c = c_int d \<longleftrightarrow> c = d"
proof
  assume eq: "c_int c = c_int d"
  have b: "(0::int) \<le> of_char c" "of_char c < (256::int)" "(0::int) \<le> of_char d" "of_char d < (256::int)"
    by (simp_all add: of_char_def)
  have "(of_char c :: int) = of_char d"
    using eq b by (auto simp: c_int_def Let_def split: if_splits)
  then show "c = d"
    by (metis char_of_char)
qed simp

end
