(* ===== verification/Common.thy ===== *)
theory Common
  imports HS_Prelude
begin

text \<open>
  The data of \<^verbatim>\<open>src/src/common.h\<close>, \<^verbatim>\<open>parser.h\<close> and
  \<^verbatim>\<open>read_socket.h\<close>: the read buffer, the tokens, the parser state, the token
  array, the request (one per connection) and the server, with their flag constants.

  Function pointers are numbers (\<open>fnptr\<close>, \<open>None\<close> for \<open>NULL\<close>); user data is
  an opaque number. Flag words are 8 bit words.
\<close>

section \<open>Flags and session states\<close>

datatype session_state = HTTP_SESSION_INIT | HTTP_SESSION_READ | HTTP_SESSION_WRITE | HTTP_SESSION_NOP

definition HTTP_REQUEST_TIMEOUT :: int where "HTTP_REQUEST_TIMEOUT = 20"

definition HTTP_AUTOMATIC :: "8 word" where "HTTP_AUTOMATIC = 0x8"
definition HTTP_CHUNKED_RESPONSE :: "8 word" where "HTTP_CHUNKED_RESPONSE = 0x20"
definition HTTP_KEEP_ALIVE :: "8 word" where "HTTP_KEEP_ALIVE = 1"
definition HTTP_CLOSE :: "8 word" where "HTTP_CLOSE = 0"
definition HTTP_FLG_STREAMED :: "8 word" where "HTTP_FLG_STREAMED = 0x1"

definition HSH_TOK_FLAG_NO_BODY :: "8 word" where "HSH_TOK_FLAG_NO_BODY = 0x1"
definition HSH_TOK_FLAG_STREAMED_BODY :: "8 word" where "HSH_TOK_FLAG_STREAMED_BODY = 0x2"
definition HSH_TOK_FLAG_BODY_FINAL :: "8 word" where "HSH_TOK_FLAG_BODY_FINAL = 0x1"
definition HSH_TOK_FLAG_SMALL_BODY :: "8 word" where "HSH_TOK_FLAG_SMALL_BODY = 0x2"

definition HTTP_FLAG_SET :: "8 word \<Rightarrow> 8 word \<Rightarrow> 8 word" where
  "HTTP_FLAG_SET var flag = var OR flag"

definition HTTP_FLAG_CLEAR :: "8 word \<Rightarrow> 8 word \<Rightarrow> 8 word" where
  "HTTP_FLAG_CLEAR var flag = var AND NOT flag"

definition HTTP_FLAG_CHECK :: "8 word \<Rightarrow> 8 word \<Rightarrow> bool" where
  "HTTP_FLAG_CHECK var flag \<longleftrightarrow> var AND flag \<noteq> 0"

lemmas flag_consts =
  HTTP_AUTOMATIC_def HTTP_CHUNKED_RESPONSE_def HTTP_KEEP_ALIVE_def HTTP_CLOSE_def
  HTTP_FLG_STREAMED_def HSH_TOK_FLAG_NO_BODY_def HSH_TOK_FLAG_STREAMED_BODY_def
  HSH_TOK_FLAG_BODY_FINAL_def HSH_TOK_FLAG_SMALL_BODY_def

lemmas flag_ops = HTTP_FLAG_SET_def HTTP_FLAG_CLEAR_def HTTP_FLAG_CHECK_def

section \<open>Tokens and buffers\<close>

datatype hsh_token_e =
    HSH_TOK_METHOD
  | HSH_TOK_TARGET
  | HSH_TOK_VERSION
  | HSH_TOK_HEADER_KEY
  | HSH_TOK_HEADER_VALUE
  | HSH_TOK_HEADERS_DONE
  | HSH_TOK_BODY
  | HSH_TOK_NONE
  | HSH_TOK_ERR

text \<open>The enumeration is ordered as C numbers its constants.\<close>

fun token_code :: "hsh_token_e \<Rightarrow> nat" where
  "token_code HSH_TOK_METHOD = 0"
| "token_code HSH_TOK_TARGET = 1"
| "token_code HSH_TOK_VERSION = 2"
| "token_code HSH_TOK_HEADER_KEY = 3"
| "token_code HSH_TOK_HEADER_VALUE = 4"
| "token_code HSH_TOK_HEADERS_DONE = 5"
| "token_code HSH_TOK_BODY = 6"
| "token_code HSH_TOK_NONE = 7"
| "token_code HSH_TOK_ERR = 8"

lemma token_code_inj: "token_code s = token_code t \<Longrightarrow> s = t"
  by (cases s; cases t) simp_all

instantiation hsh_token_e :: linorder
begin

definition less_eq_hsh_token_e :: "hsh_token_e \<Rightarrow> hsh_token_e \<Rightarrow> bool" where
  "less_eq_hsh_token_e s t \<longleftrightarrow> token_code s \<le> token_code t"

definition less_hsh_token_e :: "hsh_token_e \<Rightarrow> hsh_token_e \<Rightarrow> bool" where
  "less_hsh_token_e s t \<longleftrightarrow> token_code s < token_code t"

instance
  by standard (auto simp: less_eq_hsh_token_e_def less_hsh_token_e_def intro: token_code_inj)

end

record hsh_token_s =
  tk_type :: hsh_token_e
  tk_flags :: "8 word"
  tk_len :: int
  tk_index :: int

text \<open>The all-zero token that \<open>(struct hsh_token_s){}\<close> denotes.\<close>

definition token_zero :: hsh_token_s where
  "token_zero = \<lparr>tk_type = HSH_TOK_METHOD, tk_flags = 0, tk_len = 0, tk_index = 0\<rparr>"

record hsh_buffer_s =
  bf_buf :: "char block option"
  bf_capacity :: int
  bf_length :: int
  bf_index :: int
  bf_after_headers_index :: int
  bf_sequence_id :: int

definition buffer_zero :: hsh_buffer_s where
  "buffer_zero = \<lparr>bf_buf = None, bf_capacity = 0, bf_length = 0, bf_index = 0,
     bf_after_headers_index = 0, bf_sequence_id = 0\<rparr>"

record hsh_parser_s =
  ps_content_length :: int
  ps_content_remaining :: int
  ps_token :: hsh_token_s
  ps_limit_count :: int
  ps_limit_max :: int
  ps_state :: nat
  ps_flags :: "8 word"
  ps_sequence_id :: int

definition parser_zero :: hsh_parser_s where
  "parser_zero = \<lparr>ps_content_length = 0, ps_content_remaining = 0, ps_token = token_zero,
     ps_limit_count = 0, ps_limit_max = 0, ps_state = 0, ps_flags = 0, ps_sequence_id = 0\<rparr>"

record hs_token_array_s =
  ta_buf :: "hsh_token_s block option"
  ta_capacity :: int
  ta_size :: int

section \<open>Requests and the server\<close>

type_synonym fnptr = nat
type_synonym ptr = nat

text \<open>
  The event handlers that a request or the server stores and the event loop calls: four in the
  epoll build, two in the kqueue build.
\<close>

datatype io_cb =
    On_Server_Connection
  | On_Server_Timer
  | On_Client_Connection
  | On_Request_Timer
  | On_Kqueue_Server
  | On_Kqueue_Client

record http_request_s =
  rq_handler :: io_cb
  rq_timer_handler :: "io_cb option"
  rq_chunk_cb :: "fnptr option"
  rq_data :: nat
  rq_buffer :: hsh_buffer_s
  rq_parser :: hsh_parser_s
  rq_tokens :: hs_token_array_s
  rq_state :: session_state
  rq_socket :: int
  rq_timerfd :: int
  rq_timeout :: int
  rq_bytes_written :: int
  rq_flags :: "8 word"

text \<open>
  \<open>struct sockaddr_in\<close>: the address as a 32-bit number, and the port as its two bytes in the order
  that goes over the network.
\<close>

datatype address_family = AF_UNSPEC | AF_INET

record sockaddr_in =
  sin_family :: address_family
  sin_addr :: "32 word"
  sin_port :: "8 word \<times> 8 word"

record http_server_s =
  sv_handler :: io_cb
  sv_timer_handler :: "io_cb option"
  sv_memused :: int
  sv_socket :: int
  sv_port :: int
  sv_loop :: int
  sv_timerfd :: int
  sv_request_handler :: fnptr
  sv_data :: nat
  sv_date :: string
  sv_addr :: sockaddr_in
  sv_len :: int

text \<open>
  \<open>_hs_buffer_free\<close> of \<^verbatim>\<open>buffer_util.h\<close>: frees the block, gives its capacity
  back to the server's account and clears the pointer. The other fields keep their values.
\<close>

definition hs_buffer_free :: "hsh_buffer_s \<Rightarrow> int \<Rightarrow> hsh_buffer_s \<times> int" where
  "hs_buffer_free bf memused =
     (if bf_buf bf \<noteq> None
      then (bf\<lparr>bf_buf := None\<rparr>, i64 (memused - bf_capacity bf))
      else (bf, memused))"

lemma hs_buffer_free_null: "bf_buf (fst (hs_buffer_free bf m)) = None"
  by (simp add: hs_buffer_free_def)

lemma hs_buffer_free_idem:
  "hs_buffer_free (fst (hs_buffer_free bf m)) m' = (fst (hs_buffer_free bf m), m')"
  by (simp add: hs_buffer_free_def)

end
