(* ===== verification/Parser_Tables.thy ===== *)
theory Parser_Tables
  imports Common
begin

text \<open>
  The scanner that Ragel compiles from \<^verbatim>\<open>src/src/parser.rl\<close>, as the repository
  ships it in the single-header build \<^verbatim>\<open>src/httpserver.h\<close>: the tables
  \<open>_hsh_http_*\<close> literally, and the search through them that picks, for a state and the
  byte under the cursor, the next state and the list of actions. The lemmas decode the tables
  into one row per state and show that the two binary searches of the generated code are
  exact lookups in that row; further theories only use the rows.
\<close>

section \<open>Actions\<close>

text \<open>The actions of the grammar, in the order of the generated \<open>switch\<close>.\<close>

datatype act =
    A_method
  | A_target
  | A_version
  | A_header_key
  | A_header_value
  | A_body
  | A_emit_token
  | A_content_length_digit
  | A_transfer_encoding
  | A_reset_count
  | A_inc_count
  | A_done_headers
  | A_chunk_start
  | A_chunk_size
  | A_chunk_read
  | A_end_stream
  | A_small_body_read
  | A_large_body_read
  | A_error

definition act_table :: "act list" where
  "act_table = [A_method, A_target, A_version, A_header_key, A_header_value, A_body,
     A_emit_token, A_content_length_digit, A_transfer_encoding, A_reset_count, A_inc_count,
     A_done_headers, A_chunk_start, A_chunk_size, A_chunk_read,
     A_end_stream, A_small_body_read, A_large_body_read, A_error]"

section \<open>Tables\<close>

definition hsh_http_actions :: "nat list" where
  "hsh_http_actions = [
    0, 1, 2, 1, 6, 1, 10, 1, 13, 1, 14, 1, 15, 1, 16, 1, 17, 1, 18, 2, 0, 10, 2, 1, 10,
    2, 4, 10, 2, 5, 14, 2, 5, 16, 2, 5, 17, 2, 7, 10, 2, 8, 10, 2, 10, 11, 2, 12, 13, 2,
    13, 14, 3, 3, 9, 10, 3, 4, 10, 6, 3, 7, 4, 10, 3, 9, 3, 10, 3, 13, 5, 14, 3, 13, 14,
    12, 3, 14, 12, 13, 4, 5, 14, 12, 13, 4, 13, 5, 14, 12, 4, 14, 12, 13, 15]"

definition hsh_http_key_offsets :: "nat list" where
  "hsh_http_key_offsets = [
    0, 0, 4, 9, 10, 11, 12, 13, 14, 15, 16, 17, 18, 20, 21, 22, 39, 53, 55, 58, 60, 61,
    79, 94, 110, 126, 142, 158, 174, 190, 205, 221, 237, 253, 269, 285, 301, 315, 317,
    322, 324, 328, 344, 360, 376, 392, 408, 424, 440, 455, 471, 487, 503, 519, 535, 551,
    567, 583, 597, 599, 603, 606, 609, 612, 615, 618, 621, 622, 623, 624, 631, 632, 632,
    633, 634, 635, 642, 643, 643, 644, 652, 661, 669, 677, 686, 688, 697, 698, 699, 699,
    699, 713, 713, 713, 721, 729, 729, 729]"

definition hsh_http_trans_keys :: "int list" where
  "hsh_http_trans_keys = [
    65, 90, 97, 122, 32, 65, 90, 97, 122, 32, 32, 72, 84, 84, 80, 47, 49, 46, 48, 49,
    13, 10, 9, 32, 34, 44, 47, 67, 84, 99, 116, 123, 125, 40, 41, 58, 64, 91, 93, 9, 32,
    34, 44, 47, 58, 123, 125, 40, 41, 59, 64, 91, 93, 9, 32, 9, 13, 32, 10, 13, 10, 9,
    13, 32, 34, 44, 47, 67, 84, 99, 116, 123, 125, 40, 41, 58, 64, 91, 93, 9, 10, 32,
    34, 44, 47, 58, 123, 125, 40, 41, 59, 64, 91, 93, 9, 32, 34, 44, 47, 58, 79, 111,
    123, 125, 40, 41, 59, 64, 91, 93, 9, 32, 34, 44, 47, 58, 78, 110, 123, 125, 40, 41,
    59, 64, 91, 93, 9, 32, 34, 44, 47, 58, 84, 116, 123, 125, 40, 41, 59, 64, 91, 93, 9,
    32, 34, 44, 47, 58, 69, 101, 123, 125, 40, 41, 59, 64, 91, 93, 9, 32, 34, 44, 47,
    58, 78, 110, 123, 125, 40, 41, 59, 64, 91, 93, 9, 32, 34, 44, 47, 58, 84, 116, 123,
    125, 40, 41, 59, 64, 91, 93, 9, 32, 34, 44, 45, 47, 58, 123, 125, 40, 41, 59, 64,
    91, 93, 9, 32, 34, 44, 47, 58, 76, 108, 123, 125, 40, 41, 59, 64, 91, 93, 9, 32, 34,
    44, 47, 58, 69, 101, 123, 125, 40, 41, 59, 64, 91, 93, 9, 32, 34, 44, 47, 58, 78,
    110, 123, 125, 40, 41, 59, 64, 91, 93, 9, 32, 34, 44, 47, 58, 71, 103, 123, 125, 40,
    41, 59, 64, 91, 93, 9, 32, 34, 44, 47, 58, 84, 116, 123, 125, 40, 41, 59, 64, 91,
    93, 9, 32, 34, 44, 47, 58, 72, 104, 123, 125, 40, 41, 59, 64, 91, 93, 9, 32, 34, 44,
    47, 58, 123, 125, 40, 41, 59, 64, 91, 93, 9, 32, 9, 13, 32, 48, 57, 10, 13, 10, 13,
    48, 57, 9, 32, 34, 44, 47, 58, 82, 114, 123, 125, 40, 41, 59, 64, 91, 93, 9, 32, 34,
    44, 47, 58, 65, 97, 123, 125, 40, 41, 59, 64, 91, 93, 9, 32, 34, 44, 47, 58, 78,
    110, 123, 125, 40, 41, 59, 64, 91, 93, 9, 32, 34, 44, 47, 58, 83, 115, 123, 125, 40,
    41, 59, 64, 91, 93, 9, 32, 34, 44, 47, 58, 70, 102, 123, 125, 40, 41, 59, 64, 91,
    93, 9, 32, 34, 44, 47, 58, 69, 101, 123, 125, 40, 41, 59, 64, 91, 93, 9, 32, 34, 44,
    47, 58, 82, 114, 123, 125, 40, 41, 59, 64, 91, 93, 9, 32, 34, 44, 45, 47, 58, 123,
    125, 40, 41, 59, 64, 91, 93, 9, 32, 34, 44, 47, 58, 69, 101, 123, 125, 40, 41, 59,
    64, 91, 93, 9, 32, 34, 44, 47, 58, 78, 110, 123, 125, 40, 41, 59, 64, 91, 93, 9, 32,
    34, 44, 47, 58, 67, 99, 123, 125, 40, 41, 59, 64, 91, 93, 9, 32, 34, 44, 47, 58, 79,
    111, 123, 125, 40, 41, 59, 64, 91, 93, 9, 32, 34, 44, 47, 58, 68, 100, 123, 125, 40,
    41, 59, 64, 91, 93, 9, 32, 34, 44, 47, 58, 73, 105, 123, 125, 40, 41, 59, 64, 91,
    93, 9, 32, 34, 44, 47, 58, 78, 110, 123, 125, 40, 41, 59, 64, 91, 93, 9, 32, 34, 44,
    47, 58, 71, 103, 123, 125, 40, 41, 59, 64, 91, 93, 9, 32, 34, 44, 47, 58, 123, 125,
    40, 41, 59, 64, 91, 93, 9, 32, 9, 13, 32, 99, 10, 13, 104, 10, 13, 117, 10, 13, 110,
    10, 13, 107, 10, 13, 101, 10, 13, 100, 13, 10, 48, 13, 48, 57, 65, 70, 97, 102, 10,
    13, 10, 48, 13, 48, 57, 65, 70, 97, 102, 10, 48, 13, 48, 49, 57, 65, 70, 97, 102,
    10, 13, 48, 49, 57, 65, 70, 97, 102, 13, 48, 49, 57, 65, 70, 97, 102, 13, 48, 49,
    57, 65, 70, 97, 102, 10, 13, 48, 49, 57, 65, 70, 97, 102, 13, 48, 10, 13, 48, 49,
    57, 65, 70, 97, 102, 13, 10, 9, 32, 34, 44, 47, 58, 123, 125, 40, 41, 59, 64, 91,
    93, 13, 48, 49, 57, 65, 70, 97, 102, 13, 48, 49, 57, 65, 70, 97, 102, 0]"

definition hsh_http_single_lengths :: "nat list" where
  "hsh_http_single_lengths = [
    0, 0, 1, 1, 1, 1, 1, 1, 1, 1, 1, 1, 0, 1, 1, 11, 8, 2, 3, 2, 1, 12, 9, 10, 10, 10,
    10, 10, 10, 9, 10, 10, 10, 10, 10, 10, 8, 2, 3, 2, 2, 10, 10, 10, 10, 10, 10, 10, 9,
    10, 10, 10, 10, 10, 10, 10, 10, 8, 2, 4, 3, 3, 3, 3, 3, 3, 1, 1, 1, 1, 1, 0, 1, 1,
    1, 1, 1, 0, 1, 2, 3, 2, 2, 3, 2, 3, 1, 1, 0, 0, 8, 0, 0, 2, 2, 0, 0, 0]"

definition hsh_http_range_lengths :: "nat list" where
  "hsh_http_range_lengths = [
    0, 2, 2, 0, 0, 0, 0, 0, 0, 0, 0, 0, 1, 0, 0, 3, 3, 0, 0, 0, 0, 3, 3, 3, 3, 3, 3, 3,
    3, 3, 3, 3, 3, 3, 3, 3, 3, 0, 1, 0, 1, 3, 3, 3, 3, 3, 3, 3, 3, 3, 3, 3, 3, 3, 3, 3,
    3, 3, 0, 0, 0, 0, 0, 0, 0, 0, 0, 0, 0, 3, 0, 0, 0, 0, 0, 3, 0, 0, 0, 3, 3, 3, 3, 3,
    0, 3, 0, 0, 0, 0, 3, 0, 0, 3, 3, 0, 0, 0]"

definition hsh_http_index_offsets :: "nat list" where
  "hsh_http_index_offsets = [
    0, 0, 3, 7, 9, 11, 13, 15, 17, 19, 21, 23, 25, 27, 29, 31, 46, 58, 61, 65, 68, 70,
    86, 99, 113, 127, 141, 155, 169, 183, 196, 210, 224, 238, 252, 266, 280, 292, 295,
    300, 303, 307, 321, 335, 349, 363, 377, 391, 405, 418, 432, 446, 460, 474, 488, 502,
    516, 530, 542, 545, 550, 554, 558, 562, 566, 570, 574, 576, 578, 580, 585, 587, 588,
    590, 592, 594, 599, 601, 602, 604, 610, 617, 623, 629, 636, 639, 646, 648, 650, 651,
    652, 664, 665, 666, 672, 678, 679, 680]"

definition hsh_http_indicies :: "nat list" where
  "hsh_http_indicies = [
    1, 1, 0, 2, 3, 3, 0, 0, 4, 6, 5, 7, 0, 8, 0, 9, 0, 10, 0, 11, 0, 12, 0, 13, 0, 14,
    0, 15, 0, 16, 0, 0, 0, 0, 0, 0, 18, 19, 18, 19, 0, 0, 0, 0, 0, 17, 0, 0, 0, 0, 0,
    21, 0, 0, 0, 0, 0, 20, 22, 22, 0, 24, 25, 24, 23, 0, 27, 26, 28, 0, 0, 30, 0, 0, 0,
    0, 31, 32, 31, 32, 0, 0, 0, 0, 0, 29, 0, 33, 0, 0, 0, 0, 21, 0, 0, 0, 0, 0, 20, 0,
    0, 0, 0, 0, 21, 34, 34, 0, 0, 0, 0, 0, 20, 0, 0, 0, 0, 0, 21, 35, 35, 0, 0, 0, 0, 0,
    20, 0, 0, 0, 0, 0, 21, 36, 36, 0, 0, 0, 0, 0, 20, 0, 0, 0, 0, 0, 21, 37, 37, 0, 0,
    0, 0, 0, 20, 0, 0, 0, 0, 0, 21, 38, 38, 0, 0, 0, 0, 0, 20, 0, 0, 0, 0, 0, 21, 39,
    39, 0, 0, 0, 0, 0, 20, 0, 0, 0, 0, 40, 0, 21, 0, 0, 0, 0, 0, 20, 0, 0, 0, 0, 0, 21,
    41, 41, 0, 0, 0, 0, 0, 20, 0, 0, 0, 0, 0, 21, 42, 42, 0, 0, 0, 0, 0, 20, 0, 0, 0, 0,
    0, 21, 43, 43, 0, 0, 0, 0, 0, 20, 0, 0, 0, 0, 0, 21, 44, 44, 0, 0, 0, 0, 0, 20, 0,
    0, 0, 0, 0, 21, 45, 45, 0, 0, 0, 0, 0, 20, 0, 0, 0, 0, 0, 21, 46, 46, 0, 0, 0, 0, 0,
    20, 0, 0, 0, 0, 0, 47, 0, 0, 0, 0, 0, 20, 48, 48, 0, 49, 25, 49, 50, 23, 28, 27, 26,
    0, 27, 51, 26, 0, 0, 0, 0, 0, 21, 52, 52, 0, 0, 0, 0, 0, 20, 0, 0, 0, 0, 0, 21, 53,
    53, 0, 0, 0, 0, 0, 20, 0, 0, 0, 0, 0, 21, 54, 54, 0, 0, 0, 0, 0, 20, 0, 0, 0, 0, 0,
    21, 55, 55, 0, 0, 0, 0, 0, 20, 0, 0, 0, 0, 0, 21, 56, 56, 0, 0, 0, 0, 0, 20, 0, 0,
    0, 0, 0, 21, 57, 57, 0, 0, 0, 0, 0, 20, 0, 0, 0, 0, 0, 21, 58, 58, 0, 0, 0, 0, 0,
    20, 0, 0, 0, 0, 59, 0, 21, 0, 0, 0, 0, 0, 20, 0, 0, 0, 0, 0, 21, 60, 60, 0, 0, 0, 0,
    0, 20, 0, 0, 0, 0, 0, 21, 61, 61, 0, 0, 0, 0, 0, 20, 0, 0, 0, 0, 0, 21, 62, 62, 0,
    0, 0, 0, 0, 20, 0, 0, 0, 0, 0, 21, 63, 63, 0, 0, 0, 0, 0, 20, 0, 0, 0, 0, 0, 21, 64,
    64, 0, 0, 0, 0, 0, 20, 0, 0, 0, 0, 0, 21, 65, 65, 0, 0, 0, 0, 0, 20, 0, 0, 0, 0, 0,
    21, 66, 66, 0, 0, 0, 0, 0, 20, 0, 0, 0, 0, 0, 21, 67, 67, 0, 0, 0, 0, 0, 20, 0, 0,
    0, 0, 0, 68, 0, 0, 0, 0, 0, 20, 69, 69, 0, 70, 25, 70, 71, 23, 0, 27, 72, 26, 0, 27,
    73, 26, 0, 27, 74, 26, 0, 27, 75, 26, 0, 27, 76, 26, 0, 27, 77, 26, 78, 0, 79, 0,
    81, 80, 82, 83, 83, 83, 0, 84, 0, 85, 86, 0, 87, 0, 89, 88, 90, 91, 91, 91, 0, 92,
    0, 93, 95, 94, 96, 97, 98, 98, 98, 94, 99, 96, 97, 98, 98, 98, 94, 101, 102, 103,
    103, 103, 100, 104, 97, 98, 98, 98, 94, 105, 96, 97, 98, 98, 98, 94, 106, 95, 94,
    107, 96, 97, 98, 98, 98, 94, 108, 0, 109, 0, 110, 111, 0, 0, 0, 0, 0, 21, 0, 0, 0,
    0, 0, 20, 112, 0, 101, 102, 103, 103, 103, 100, 96, 97, 98, 98, 98, 94, 0, 113, 114,
    0]"

definition hsh_http_trans_targs :: "nat list" where
  "hsh_http_trans_targs = [
    0, 2, 3, 2, 4, 4, 5, 6, 7, 8, 9, 10, 11, 12, 13, 14, 15, 16, 23, 41, 16, 17, 18, 19,
    18, 39, 19, 20, 21, 16, 22, 23, 41, 90, 24, 25, 26, 27, 28, 29, 30, 31, 32, 33, 34,
    35, 36, 37, 38, 38, 40, 40, 42, 43, 44, 45, 46, 47, 48, 49, 50, 51, 52, 53, 54, 55,
    56, 57, 58, 59, 59, 60, 61, 62, 63, 64, 65, 19, 67, 68, 69, 72, 70, 69, 71, 91, 73,
    92, 75, 86, 76, 75, 77, 78, 79, 84, 80, 82, 79, 81, 79, 80, 82, 79, 83, 93, 85, 94,
    87, 95, 96, 97, 91, 96, 97]"

definition hsh_http_trans_actions :: "nat list" where
  "hsh_http_trans_actions = [
    17, 19, 3, 5, 22, 5, 3, 1, 0, 0, 0, 0, 0, 0, 0, 3, 0, 64, 64, 64, 5, 3, 0, 25, 25,
    56, 5, 3, 5, 52, 52, 52, 52, 43, 5, 5, 5, 5, 5, 5, 5, 5, 5, 5, 5, 5, 5, 3, 0, 25,
    60, 37, 5, 5, 5, 5, 5, 5, 5, 5, 5, 5, 5, 5, 5, 5, 5, 5, 3, 0, 25, 25, 5, 5, 5, 5, 5,
    40, 0, 0, 46, 0, 0, 7, 0, 28, 0, 11, 46, 0, 0, 7, 0, 28, 76, 9, 76, 49, 72, 76, 80,
    80, 68, 85, 76, 90, 76, 90, 0, 11, 31, 34, 9, 13, 15]"

definition hsh_http_eof_actions :: "nat list" where
  "hsh_http_eof_actions = [
    0, 17, 17, 17, 17, 17, 17, 17, 17, 17, 17, 17, 17, 17, 17, 17, 17, 17, 17, 17, 17,
    17, 17, 17, 17, 17, 17, 17, 17, 17, 17, 17, 17, 17, 17, 17, 17, 17, 17, 17, 17, 17,
    17, 17, 17, 17, 17, 17, 17, 17, 17, 17, 17, 17, 17, 17, 17, 17, 17, 17, 17, 17, 17,
    17, 17, 17, 17, 17, 17, 17, 17, 17, 17, 17, 17, 17, 17, 17, 17, 17, 17, 17, 17, 17,
    17, 17, 17, 17, 0, 0, 0, 0, 0, 0, 0, 0, 0, 0]"

definition hsh_http_start :: nat where "hsh_http_start = 1"
definition hsh_http_error :: nat where "hsh_http_error = 0"
definition hsh_http_en_chunk_end :: nat where "hsh_http_en_chunk_end = 66"
definition hsh_http_en_chunked_body :: nat where "hsh_http_en_chunked_body = 74"
definition hsh_http_en_small_body :: nat where "hsh_http_en_small_body = 88"
definition hsh_http_en_large_body :: nat where "hsh_http_en_large_body = 89"

lemmas hsh_http_entry_defs =
  hsh_http_start_def hsh_http_error_def hsh_http_en_chunk_end_def hsh_http_en_chunked_body_def
  hsh_http_en_small_body_def hsh_http_en_large_body_def

section \<open>The search of the generated code\<close>

text \<open>
  \<open>single_search ks lower upper x\<close> is the first \<open>while\<close> loop: a binary search for
  \<open>x\<close> among the keys \<open>ks[lower..upper]\<close>, with the matching position as its result.
  \<open>range_search\<close> is the second one: the keys are pairs of bounds, and the midpoint is
  rounded down to an even offset.
\<close>

function single_search :: "int list \<Rightarrow> int \<Rightarrow> int \<Rightarrow> int \<Rightarrow> int option" where
  "single_search ks lower upper x =
     (if upper < lower then None
      else let mid = lower + (upper - lower) div 2; k = ks ! nat mid
           in if x < k then single_search ks lower (mid - 1) x
              else if k < x then single_search ks (mid + 1) upper x
              else Some mid)"
  by pat_completeness auto
termination
  by (relation "measure (\<lambda>(ks, lower, upper, x). nat (upper - lower + 1))") auto

lemma half_even_bounds:
  assumes "(lower::int) \<le> upper"
  shows "0 \<le> (upper - lower) div 2 - (upper - lower) div 2 mod 2"
    and "(upper - lower) div 2 - (upper - lower) div 2 mod 2 \<le> upper - lower"
    and "even ((upper - lower) div 2 - (upper - lower) div 2 mod 2)"
  using assms by presburger+

function range_search :: "int list \<Rightarrow> int \<Rightarrow> int \<Rightarrow> int \<Rightarrow> int option" where
  "range_search ks lower upper x =
     (if upper < lower then None
      else let mid = lower + ((upper - lower) div 2 - (upper - lower) div 2 mod 2)
           in if x < ks ! nat mid then range_search ks lower (mid - 2) x
              else if ks ! nat (mid + 1) < x then range_search ks (mid + 2) upper x
              else Some mid)"
  by pat_completeness auto
termination
proof (relation "measure (\<lambda>(ks, lower, upper, x). nat (upper - lower + 1))", goal_cases)
  case (2 ks lower upper x mid)
  have "mid - 2 \<le> upper - 2" and "lower \<le> upper"
    using half_even_bounds [of lower upper] 2 by linarith+
  then show ?case by simp
next
  case (3 ks lower upper x mid)
  have "lower \<le> mid" and "lower \<le> upper"
    using half_even_bounds [of lower upper] 3 by linarith+
  then show ?case by simp
qed simp

declare single_search.simps [simp del] range_search.simps [simp del]

text \<open>
  \<open>trans_slot cs x\<close> is the value of \<open>_trans\<close> at the label \<open>_match\<close>.
\<close>

definition trans_slot :: "nat \<Rightarrow> int \<Rightarrow> nat" where
  "trans_slot cs x =
     (let keys = drop (hsh_http_key_offsets ! cs) hsh_http_trans_keys;
          trans = hsh_http_index_offsets ! cs;
          klen = hsh_http_single_lengths ! cs;
          rlen = hsh_http_range_lengths ! cs;
          rkeys = drop klen keys
      in case (if 0 < klen then single_search keys 0 (int klen - 1) x else None) of
           Some mid \<Rightarrow> trans + nat mid
         | None \<Rightarrow>
             (case (if 0 < rlen then range_search rkeys 0 (2 * int rlen - 2) x else None) of
                Some mid \<Rightarrow> trans + klen + nat (mid div 2)
              | None \<Rightarrow> trans + klen + rlen))"

text \<open>The action list at an offset of \<open>_hsh_http_actions\<close>: a length, then the numbers.\<close>

definition acts_at :: "nat \<Rightarrow> act list" where
  "acts_at off =
     (if off = 0 then []
      else map (\<lambda>i. act_table ! i)
             (take (hsh_http_actions ! off) (drop (Suc off) hsh_http_actions)))"

text \<open>One transition: the next state and the actions to run, in order.\<close>

definition hsh_trans :: "nat \<Rightarrow> char \<Rightarrow> nat \<times> act list" where
  "hsh_trans cs c =
     (let trans = hsh_http_indicies ! trans_slot cs (c_int c)
      in (hsh_http_trans_targs ! trans, acts_at (hsh_http_trans_actions ! trans)))"

text \<open>The actions run at the end of the input when the cursor equals \<open>eof\<close>.\<close>

definition hsh_eof_acts :: "nat \<Rightarrow> act list" where
  "hsh_eof_acts cs = acts_at (hsh_http_eof_actions ! cs)"

section \<open>The binary searches are exact\<close>

lemma single_search_Some:
  "single_search ks lower upper x = Some m \<Longrightarrow> lower \<le> m \<and> m \<le> upper \<and> ks ! nat m = x"
proof (induction ks lower upper x rule: single_search.induct)
  case (1 ks lower upper x)
  then show ?case
    by (subst (asm) (3) single_search.simps) (force simp: Let_def split: if_splits)
qed

lemma single_search_None:
  assumes "single_search ks lower upper x = None" and "0 \<le> lower"
    and "\<And>i j. lower \<le> i \<Longrightarrow> i < j \<Longrightarrow> j \<le> upper \<Longrightarrow> ks ! nat i < ks ! nat j"
    and "lower \<le> i" and "i \<le> upper"
  shows "ks ! nat i \<noteq> x"
  using assms
proof (induction ks lower upper x rule: single_search.induct)
  case (1 ks lower upper x)
  define mid where "mid = lower + (upper - lower) div 2"
  have mid: "lower \<le> mid" "mid \<le> upper" using "1.prems"(4,5) by (auto simp: mid_def)
  have ne: "ks ! nat mid \<noteq> x" and nlt: "\<not> upper < lower"
    using "1.prems"(1,4,5) by (auto simp: single_search.simps [of ks] mid_def Let_def split: if_splits)
  show ?case
  proof (cases "x < ks ! nat mid")
    case True
    then have "single_search ks lower (mid - 1) x = None"
      using "1.prems"(1) nlt by (simp add: single_search.simps [of ks lower upper] mid_def Let_def)
    then show ?thesis
    proof (cases "i < mid")
      case True
      then show ?thesis
        using "1.IH"(1) [OF nlt mid_def refl] \<open>x < ks ! nat mid\<close> \<open>single_search ks lower (mid - 1) x = None\<close> "1.prems" mid
        by auto
    next
      case False
      then have "ks ! nat mid \<le> ks ! nat i"
        using "1.prems"(3) [of mid i] "1.prems"(5) mid by (cases "mid = i") auto
      with \<open>x < ks ! nat mid\<close> show ?thesis by simp
    qed
  next
    case False
    with ne have gt: "ks ! nat mid < x" by simp
    then have s: "single_search ks (mid + 1) upper x = None"
      using "1.prems"(1) nlt False by (simp add: single_search.simps [of ks lower upper] mid_def Let_def)
    show ?thesis
    proof (cases "mid < i")
      case True
      then show ?thesis
        using "1.IH"(2) [OF nlt mid_def refl False gt] s "1.prems" mid by auto
    next
      case False
      then have "ks ! nat i \<le> ks ! nat mid"
        using "1.prems"(3) [of i mid] "1.prems"(4) mid by (cases "mid = i") auto
      with gt show ?thesis by simp
    qed
  qed
qed


lemma range_search_Some:
  assumes "range_search ks lower upper x = Some m" and "even lower"
  shows "lower \<le> m \<and> m \<le> upper \<and> even m \<and> ks ! nat m \<le> x \<and> x \<le> ks ! nat (m + 1)"
  using assms
proof (induction ks lower upper x rule: range_search.induct)
  case (1 ks lower upper x)
  define mid where "mid = lower + ((upper - lower) div 2 - (upper - lower) div 2 mod 2)"
  have nlt: "\<not> upper < lower"
    using "1.prems"(1) by (auto simp: range_search.simps [of ks lower upper] split: if_splits)
  then have mid: "lower \<le> mid" "mid \<le> upper" "even mid"
    using half_even_bounds [of lower upper] \<open>even lower\<close> by (auto simp: mid_def)
  have unf: "(if x < ks ! nat mid then range_search ks lower (mid - 2) x
       else if ks ! nat (mid + 1) < x then range_search ks (mid + 2) upper x else Some mid) = Some m"
    using "1.prems"(1) by (simp only: range_search.simps [of ks lower upper x] nlt if_False Let_def mid_def)
  consider "x < ks ! nat mid" | "\<not> x < ks ! nat mid" "ks ! nat (mid + 1) < x"
    | "\<not> x < ks ! nat mid" "\<not> ks ! nat (mid + 1) < x" by blast
  then show ?case
  proof cases
    case 1
    with "1.IH"(1) [OF nlt mid_def 1] unf \<open>even lower\<close> mid show ?thesis by auto
  next
    case 2
    with "1.IH"(2) [OF nlt mid_def 2] unf mid show ?thesis by auto
  next
    case 3
    with unf mid show ?thesis by auto
  qed
qed

lemma range_search_None:
  assumes "range_search ks lower upper x = None" and "0 \<le> lower" and "even lower"
    and "\<And>i. lower \<le> i \<Longrightarrow> i \<le> upper \<Longrightarrow> even i \<Longrightarrow> ks ! nat i \<le> ks ! nat (i + 1)"
    and "\<And>i j. lower \<le> i \<Longrightarrow> i < j \<Longrightarrow> j \<le> upper \<Longrightarrow> even i \<Longrightarrow> even j
           \<Longrightarrow> ks ! nat (i + 1) < ks ! nat j"
    and "lower \<le> i" and "i \<le> upper" and "even i"
  shows "\<not> (ks ! nat i \<le> x \<and> x \<le> ks ! nat (i + 1))"
  using assms
proof (induction ks lower upper x rule: range_search.induct)
  case (1 ks lower upper x)
  define mid where "mid = lower + ((upper - lower) div 2 - (upper - lower) div 2 mod 2)"
  have nlt: "\<not> upper < lower" using "1.prems"(6,7) by simp
  then have mid: "lower \<le> mid" "mid \<le> upper" "even mid"
    using half_even_bounds [of lower upper] \<open>even lower\<close> by (auto simp: mid_def)
  have unf: "(if x < ks ! nat mid then range_search ks lower (mid - 2) x
       else if ks ! nat (mid + 1) < x then range_search ks (mid + 2) upper x else Some mid) = None"
    using "1.prems"(1) by (simp only: range_search.simps [of ks lower upper x] nlt if_False Let_def mid_def)
  have mid_le: "ks ! nat mid \<le> ks ! nat (mid + 1)" using "1.prems"(4) mid by blast
  consider (lt) "x < ks ! nat mid" | (gt) "\<not> x < ks ! nat mid" "ks ! nat (mid + 1) < x"
    using unf by (auto split: if_splits)
  then show ?case
  proof cases
    case lt
    show ?thesis
    proof (cases "i < mid")
      case True
      then have "i \<le> mid - 2" using mid(3) \<open>even i\<close> by presburger
      then show ?thesis
        using "1.IH"(1) [OF nlt mid_def lt] unf lt "1.prems" mid by auto
    next
      case False
      then have "ks ! nat mid \<le> ks ! nat i"
        using "1.prems"(5) [of mid i] mid_le mid \<open>even i\<close> \<open>i \<le> upper\<close> by (cases "mid = i") auto
      with lt show ?thesis by simp
    qed
  next
    case gt
    show ?thesis
    proof (cases "mid < i")
      case True
      then have "mid + 2 \<le> i" using mid(3) \<open>even i\<close> by presburger
      then show ?thesis
        using "1.IH"(2) [OF nlt mid_def gt] unf gt "1.prems" mid by auto
    next
      case False
      then have "ks ! nat (i + 1) \<le> ks ! nat (mid + 1)"
        using "1.prems"(5) [of i mid] mid_le mid \<open>even i\<close> \<open>lower \<le> i\<close> by (cases "mid = i") auto
      with gt show ?thesis by simp
    qed
  qed
qed


section \<open>Rows\<close>

text \<open>
  The tables decoded: one row per state, with its single keys, its key ranges and the
  numbers of its transitions (for each key, each range, and the default). \<open>hsh_edge\<close> is
  the target and the actions of a transition number.
\<close>

type_synonym target = "nat \<times> act list"
type_synonym row = "int list \<times> (int \<times> int) list \<times> nat list"

definition hsh_edge :: "nat \<Rightarrow> target" where
  "hsh_edge t = (hsh_http_trans_targs ! t, acts_at (hsh_http_trans_actions ! t))"

fun row_pick :: "int list \<Rightarrow> (int \<times> int) list \<Rightarrow> nat list \<Rightarrow> int \<Rightarrow> nat" where
  "row_pick (k # ks) rs (t # ts) x = (if x = k then t else row_pick ks rs ts x)"
| "row_pick [] ((lo, hi) # rs) (t # ts) x = (if lo \<le> x \<and> x \<le> hi then t else row_pick [] rs ts x)"
| "row_pick [] [] (t # ts) x = t"
| "row_pick _ _ [] x = 0"

definition lookup_row :: "row \<Rightarrow> int \<Rightarrow> target" where
  "lookup_row r x = (case r of (ks, rs, ts) \<Rightarrow> hsh_edge (row_pick ks rs ts x))"

definition hsh_rows :: "(int list \<times> (int \<times> int) list \<times> nat list) list" where
  "hsh_rows = [
    ([], [], []),
    ([], [(65, 90), (97, 122)], [1, 1, 0]),
    ([32], [(65, 90), (97, 122)], [2, 3, 3, 0]),
    ([32], [], [0, 4]),
    ([32], [], [6, 5]),
    ([72], [], [7, 0]),
    ([84], [], [8, 0]),
    ([84], [], [9, 0]),
    ([80], [], [10, 0]),
    ([47], [], [11, 0]),
    ([49], [], [12, 0]),
    ([46], [], [13, 0]),
    ([], [(48, 49)], [14, 0]),
    ([13], [], [15, 0]),
    ([10], [], [16, 0]),
    ([9, 32, 34, 44, 47, 67, 84, 99, 116, 123, 125], [(40, 41), (58, 64), (91, 93)], [0, 0, 0,
      0, 0, 18, 19, 18, 19, 0, 0, 0, 0, 0, 17]),
    ([9, 32, 34, 44, 47, 58, 123, 125], [(40, 41), (59, 64), (91, 93)], [0, 0, 0, 0, 0, 21, 0,
      0, 0, 0, 0, 20]),
    ([9, 32], [], [22, 22, 0]),
    ([9, 13, 32], [], [24, 25, 24, 23]),
    ([10, 13], [], [0, 27, 26]),
    ([10], [], [28, 0]),
    ([9, 13, 32, 34, 44, 47, 67, 84, 99, 116, 123, 125], [(40, 41), (58, 64), (91, 93)], [0, 30,
      0, 0, 0, 0, 31, 32, 31, 32, 0, 0, 0, 0, 0, 29]),
    ([9, 10, 32, 34, 44, 47, 58, 123, 125], [(40, 41), (59, 64), (91, 93)], [0, 33, 0, 0, 0, 0,
      21, 0, 0, 0, 0, 0, 20]),
    ([9, 32, 34, 44, 47, 58, 79, 111, 123, 125], [(40, 41), (59, 64), (91, 93)], [0, 0, 0, 0, 0,
      21, 34, 34, 0, 0, 0, 0, 0, 20]),
    ([9, 32, 34, 44, 47, 58, 78, 110, 123, 125], [(40, 41), (59, 64), (91, 93)], [0, 0, 0, 0, 0,
      21, 35, 35, 0, 0, 0, 0, 0, 20]),
    ([9, 32, 34, 44, 47, 58, 84, 116, 123, 125], [(40, 41), (59, 64), (91, 93)], [0, 0, 0, 0, 0,
      21, 36, 36, 0, 0, 0, 0, 0, 20]),
    ([9, 32, 34, 44, 47, 58, 69, 101, 123, 125], [(40, 41), (59, 64), (91, 93)], [0, 0, 0, 0, 0,
      21, 37, 37, 0, 0, 0, 0, 0, 20]),
    ([9, 32, 34, 44, 47, 58, 78, 110, 123, 125], [(40, 41), (59, 64), (91, 93)], [0, 0, 0, 0, 0,
      21, 38, 38, 0, 0, 0, 0, 0, 20]),
    ([9, 32, 34, 44, 47, 58, 84, 116, 123, 125], [(40, 41), (59, 64), (91, 93)], [0, 0, 0, 0, 0,
      21, 39, 39, 0, 0, 0, 0, 0, 20]),
    ([9, 32, 34, 44, 45, 47, 58, 123, 125], [(40, 41), (59, 64), (91, 93)], [0, 0, 0, 0, 40, 0,
      21, 0, 0, 0, 0, 0, 20]),
    ([9, 32, 34, 44, 47, 58, 76, 108, 123, 125], [(40, 41), (59, 64), (91, 93)], [0, 0, 0, 0, 0,
      21, 41, 41, 0, 0, 0, 0, 0, 20]),
    ([9, 32, 34, 44, 47, 58, 69, 101, 123, 125], [(40, 41), (59, 64), (91, 93)], [0, 0, 0, 0, 0,
      21, 42, 42, 0, 0, 0, 0, 0, 20]),
    ([9, 32, 34, 44, 47, 58, 78, 110, 123, 125], [(40, 41), (59, 64), (91, 93)], [0, 0, 0, 0, 0,
      21, 43, 43, 0, 0, 0, 0, 0, 20]),
    ([9, 32, 34, 44, 47, 58, 71, 103, 123, 125], [(40, 41), (59, 64), (91, 93)], [0, 0, 0, 0, 0,
      21, 44, 44, 0, 0, 0, 0, 0, 20]),
    ([9, 32, 34, 44, 47, 58, 84, 116, 123, 125], [(40, 41), (59, 64), (91, 93)], [0, 0, 0, 0, 0,
      21, 45, 45, 0, 0, 0, 0, 0, 20]),
    ([9, 32, 34, 44, 47, 58, 72, 104, 123, 125], [(40, 41), (59, 64), (91, 93)], [0, 0, 0, 0, 0,
      21, 46, 46, 0, 0, 0, 0, 0, 20]),
    ([9, 32, 34, 44, 47, 58, 123, 125], [(40, 41), (59, 64), (91, 93)], [0, 0, 0, 0, 0, 47, 0,
      0, 0, 0, 0, 20]),
    ([9, 32], [], [48, 48, 0]),
    ([9, 13, 32], [(48, 57)], [49, 25, 49, 50, 23]),
    ([10, 13], [], [28, 27, 26]),
    ([10, 13], [(48, 57)], [0, 27, 51, 26]),
    ([9, 32, 34, 44, 47, 58, 82, 114, 123, 125], [(40, 41), (59, 64), (91, 93)], [0, 0, 0, 0, 0,
      21, 52, 52, 0, 0, 0, 0, 0, 20]),
    ([9, 32, 34, 44, 47, 58, 65, 97, 123, 125], [(40, 41), (59, 64), (91, 93)], [0, 0, 0, 0, 0,
      21, 53, 53, 0, 0, 0, 0, 0, 20]),
    ([9, 32, 34, 44, 47, 58, 78, 110, 123, 125], [(40, 41), (59, 64), (91, 93)], [0, 0, 0, 0, 0,
      21, 54, 54, 0, 0, 0, 0, 0, 20]),
    ([9, 32, 34, 44, 47, 58, 83, 115, 123, 125], [(40, 41), (59, 64), (91, 93)], [0, 0, 0, 0, 0,
      21, 55, 55, 0, 0, 0, 0, 0, 20]),
    ([9, 32, 34, 44, 47, 58, 70, 102, 123, 125], [(40, 41), (59, 64), (91, 93)], [0, 0, 0, 0, 0,
      21, 56, 56, 0, 0, 0, 0, 0, 20]),
    ([9, 32, 34, 44, 47, 58, 69, 101, 123, 125], [(40, 41), (59, 64), (91, 93)], [0, 0, 0, 0, 0,
      21, 57, 57, 0, 0, 0, 0, 0, 20]),
    ([9, 32, 34, 44, 47, 58, 82, 114, 123, 125], [(40, 41), (59, 64), (91, 93)], [0, 0, 0, 0, 0,
      21, 58, 58, 0, 0, 0, 0, 0, 20]),
    ([9, 32, 34, 44, 45, 47, 58, 123, 125], [(40, 41), (59, 64), (91, 93)], [0, 0, 0, 0, 59, 0,
      21, 0, 0, 0, 0, 0, 20]),
    ([9, 32, 34, 44, 47, 58, 69, 101, 123, 125], [(40, 41), (59, 64), (91, 93)], [0, 0, 0, 0, 0,
      21, 60, 60, 0, 0, 0, 0, 0, 20]),
    ([9, 32, 34, 44, 47, 58, 78, 110, 123, 125], [(40, 41), (59, 64), (91, 93)], [0, 0, 0, 0, 0,
      21, 61, 61, 0, 0, 0, 0, 0, 20]),
    ([9, 32, 34, 44, 47, 58, 67, 99, 123, 125], [(40, 41), (59, 64), (91, 93)], [0, 0, 0, 0, 0,
      21, 62, 62, 0, 0, 0, 0, 0, 20]),
    ([9, 32, 34, 44, 47, 58, 79, 111, 123, 125], [(40, 41), (59, 64), (91, 93)], [0, 0, 0, 0, 0,
      21, 63, 63, 0, 0, 0, 0, 0, 20]),
    ([9, 32, 34, 44, 47, 58, 68, 100, 123, 125], [(40, 41), (59, 64), (91, 93)], [0, 0, 0, 0, 0,
      21, 64, 64, 0, 0, 0, 0, 0, 20]),
    ([9, 32, 34, 44, 47, 58, 73, 105, 123, 125], [(40, 41), (59, 64), (91, 93)], [0, 0, 0, 0, 0,
      21, 65, 65, 0, 0, 0, 0, 0, 20]),
    ([9, 32, 34, 44, 47, 58, 78, 110, 123, 125], [(40, 41), (59, 64), (91, 93)], [0, 0, 0, 0, 0,
      21, 66, 66, 0, 0, 0, 0, 0, 20]),
    ([9, 32, 34, 44, 47, 58, 71, 103, 123, 125], [(40, 41), (59, 64), (91, 93)], [0, 0, 0, 0, 0,
      21, 67, 67, 0, 0, 0, 0, 0, 20]),
    ([9, 32, 34, 44, 47, 58, 123, 125], [(40, 41), (59, 64), (91, 93)], [0, 0, 0, 0, 0, 68, 0,
      0, 0, 0, 0, 20]),
    ([9, 32], [], [69, 69, 0]),
    ([9, 13, 32, 99], [], [70, 25, 70, 71, 23]),
    ([10, 13, 104], [], [0, 27, 72, 26]),
    ([10, 13, 117], [], [0, 27, 73, 26]),
    ([10, 13, 110], [], [0, 27, 74, 26]),
    ([10, 13, 107], [], [0, 27, 75, 26]),
    ([10, 13, 101], [], [0, 27, 76, 26]),
    ([10, 13, 100], [], [0, 27, 77, 26]),
    ([13], [], [78, 0]),
    ([10], [], [79, 0]),
    ([48], [], [81, 80]),
    ([13], [(48, 57), (65, 70), (97, 102)], [82, 83, 83, 83, 0]),
    ([10], [], [84, 0]),
    ([], [], [85]),
    ([13], [], [86, 0]),
    ([10], [], [87, 0]),
    ([48], [], [89, 88]),
    ([13], [(48, 57), (65, 70), (97, 102)], [90, 91, 91, 91, 0]),
    ([10], [], [92, 0]),
    ([], [], [93]),
    ([48], [], [95, 94]),
    ([13, 48], [(49, 57), (65, 70), (97, 102)], [96, 97, 98, 98, 98, 94]),
    ([10, 13, 48], [(49, 57), (65, 70), (97, 102)], [99, 96, 97, 98, 98, 98, 94]),
    ([13, 48], [(49, 57), (65, 70), (97, 102)], [101, 102, 103, 103, 103, 100]),
    ([13, 48], [(49, 57), (65, 70), (97, 102)], [104, 97, 98, 98, 98, 94]),
    ([10, 13, 48], [(49, 57), (65, 70), (97, 102)], [105, 96, 97, 98, 98, 98, 94]),
    ([13, 48], [], [106, 95, 94]),
    ([10, 13, 48], [(49, 57), (65, 70), (97, 102)], [107, 96, 97, 98, 98, 98, 94]),
    ([13], [], [108, 0]),
    ([10], [], [109, 0]),
    ([], [], [110]),
    ([], [], [111]),
    ([9, 32, 34, 44, 47, 58, 123, 125], [(40, 41), (59, 64), (91, 93)], [0, 0, 0, 0, 0, 21, 0,
      0, 0, 0, 0, 20]),
    ([], [], [112]),
    ([], [], [0]),
    ([13, 48], [(49, 57), (65, 70), (97, 102)], [101, 102, 103, 103, 103, 100]),
    ([13, 48], [(49, 57), (65, 70), (97, 102)], [96, 97, 98, 98, 98, 94]),
    ([], [], [0]),
    ([], [], [113]),
    ([], [], [114])]"

text \<open>The tables are the rows laid out one after the other.\<close>

definition flat_ranges :: "(int \<times> int) list \<Rightarrow> int list" where
  "flat_ranges rs = concat (map (\<lambda>(lo, hi). [lo, hi]) rs)"

definition row_keys :: "row \<Rightarrow> int list" where
  "row_keys r = (case r of (ks, rs, ts) \<Rightarrow> ks @ flat_ranges rs)"

definition row_slots :: "row \<Rightarrow> nat list" where
  "row_slots r = (case r of (ks, rs, ts) \<Rightarrow> ts)"

fun prefix_sums :: "nat \<Rightarrow> nat list \<Rightarrow> nat list" where
  "prefix_sums n [] = []"
| "prefix_sums n (x # xs) = n # prefix_sums (n + x) xs"

definition row_wf :: "row \<Rightarrow> bool" where
  "row_wf r = (case r of (ks, rs, ts) \<Rightarrow>
     sorted_wrt (<) ks \<and> list_all (\<lambda>(lo, hi). lo \<le> hi) rs
     \<and> sorted_wrt (\<lambda>(lo, hi) (lo', hi'). hi < lo') rs
     \<and> length ts = length ks + length rs + 1)"

lemma length_hsh_rows [simp]: "length hsh_rows = 98"
  by (simp add: hsh_rows_def)

lemma trans_keys_rows: "hsh_http_trans_keys = concat (map row_keys hsh_rows) @ [0]"
  by (simp add: hsh_rows_def hsh_http_trans_keys_def row_keys_def flat_ranges_def)

lemma indicies_rows: "hsh_http_indicies = concat (map row_slots hsh_rows) @ [0]"
  by (simp add: hsh_rows_def hsh_http_indicies_def row_slots_def)

lemma key_offsets_rows:
  "hsh_http_key_offsets = prefix_sums 0 (map (length \<circ> row_keys) hsh_rows)"
  by (simp add: hsh_rows_def hsh_http_key_offsets_def row_keys_def flat_ranges_def)

lemma index_offsets_rows:
  "hsh_http_index_offsets = prefix_sums 0 (map (length \<circ> row_slots) hsh_rows)"
  by (simp add: hsh_rows_def hsh_http_index_offsets_def row_slots_def)

lemma single_lengths_rows: "hsh_http_single_lengths = map (length \<circ> fst) hsh_rows"
  by (simp add: hsh_rows_def hsh_http_single_lengths_def)

lemma range_lengths_rows: "hsh_http_range_lengths = map (length \<circ> fst \<circ> snd) hsh_rows"
  by (simp add: hsh_rows_def hsh_http_range_lengths_def)

lemma hsh_rows_wf: "list_all row_wf (tl hsh_rows)"
  by (simp add: hsh_rows_def row_wf_def)

lemma acts_at_simps [simp]:
  "acts_at 0 = []"
  "acts_at (Suc 0) = [A_version]"
  "acts_at 3 = [A_emit_token]"
  "acts_at 5 = [A_inc_count]"
  "acts_at 7 = [A_chunk_size]"
  "acts_at 9 = [A_chunk_read]"
  "acts_at 11 = [A_end_stream]"
  "acts_at 13 = [A_small_body_read]"
  "acts_at 15 = [A_large_body_read]"
  "acts_at 17 = [A_error]"
  "acts_at 19 = [A_method, A_inc_count]"
  "acts_at 22 = [A_target, A_inc_count]"
  "acts_at 25 = [A_header_value, A_inc_count]"
  "acts_at 28 = [A_body, A_chunk_read]"
  "acts_at 31 = [A_body, A_small_body_read]"
  "acts_at 34 = [A_body, A_large_body_read]"
  "acts_at 37 = [A_content_length_digit, A_inc_count]"
  "acts_at 40 = [A_transfer_encoding, A_inc_count]"
  "acts_at 43 = [A_inc_count, A_done_headers]"
  "acts_at 46 = [A_chunk_start, A_chunk_size]"
  "acts_at 49 = [A_chunk_size, A_chunk_read]"
  "acts_at 52 = [A_header_key, A_reset_count, A_inc_count]"
  "acts_at 56 = [A_header_value, A_inc_count, A_emit_token]"
  "acts_at 60 = [A_content_length_digit, A_header_value, A_inc_count]"
  "acts_at 64 = [A_reset_count, A_header_key, A_inc_count]"
  "acts_at 68 = [A_chunk_size, A_body, A_chunk_read]"
  "acts_at 72 = [A_chunk_size, A_chunk_read, A_chunk_start]"
  "acts_at 76 = [A_chunk_read, A_chunk_start, A_chunk_size]"
  "acts_at 80 = [A_body, A_chunk_read, A_chunk_start, A_chunk_size]"
  "acts_at 85 = [A_chunk_size, A_body, A_chunk_read, A_chunk_start]"
  "acts_at 90 = [A_chunk_read, A_chunk_start, A_chunk_size, A_end_stream]"
  by (simp_all add: acts_at_def hsh_http_actions_def act_table_def)

lemma hsh_edge_simps [simp]:
  "hsh_edge 0 = (0, [A_error])"
  "hsh_edge (Suc 0) = (2, [A_method, A_inc_count])"
  "hsh_edge 2 = (3, [A_emit_token])"
  "hsh_edge 3 = (2, [A_inc_count])"
  "hsh_edge 4 = (4, [A_target, A_inc_count])"
  "hsh_edge 5 = (4, [A_inc_count])"
  "hsh_edge 6 = (5, [A_emit_token])"
  "hsh_edge 7 = (6, [A_version])"
  "hsh_edge 8 = (7, [])"
  "hsh_edge 9 = (8, [])"
  "hsh_edge 10 = (9, [])"
  "hsh_edge 11 = (10, [])"
  "hsh_edge 12 = (11, [])"
  "hsh_edge 13 = (12, [])"
  "hsh_edge 14 = (13, [])"
  "hsh_edge 15 = (14, [A_emit_token])"
  "hsh_edge 16 = (15, [])"
  "hsh_edge 17 = (16, [A_reset_count, A_header_key, A_inc_count])"
  "hsh_edge 18 = (23, [A_reset_count, A_header_key, A_inc_count])"
  "hsh_edge 19 = (41, [A_reset_count, A_header_key, A_inc_count])"
  "hsh_edge 20 = (16, [A_inc_count])"
  "hsh_edge 21 = (17, [A_emit_token])"
  "hsh_edge 22 = (18, [])"
  "hsh_edge 23 = (19, [A_header_value, A_inc_count])"
  "hsh_edge 24 = (18, [A_header_value, A_inc_count])"
  "hsh_edge 25 = (39, [A_header_value, A_inc_count, A_emit_token])"
  "hsh_edge 26 = (19, [A_inc_count])"
  "hsh_edge 27 = (20, [A_emit_token])"
  "hsh_edge 28 = (21, [A_inc_count])"
  "hsh_edge 29 = (16, [A_header_key, A_reset_count, A_inc_count])"
  "hsh_edge 30 = (22, [A_header_key, A_reset_count, A_inc_count])"
  "hsh_edge 31 = (23, [A_header_key, A_reset_count, A_inc_count])"
  "hsh_edge 32 = (41, [A_header_key, A_reset_count, A_inc_count])"
  "hsh_edge 33 = (90, [A_inc_count, A_done_headers])"
  "hsh_edge 34 = (24, [A_inc_count])"
  "hsh_edge 35 = (25, [A_inc_count])"
  "hsh_edge 36 = (26, [A_inc_count])"
  "hsh_edge 37 = (27, [A_inc_count])"
  "hsh_edge 38 = (28, [A_inc_count])"
  "hsh_edge 39 = (29, [A_inc_count])"
  "hsh_edge 40 = (30, [A_inc_count])"
  "hsh_edge 41 = (31, [A_inc_count])"
  "hsh_edge 42 = (32, [A_inc_count])"
  "hsh_edge 43 = (33, [A_inc_count])"
  "hsh_edge 44 = (34, [A_inc_count])"
  "hsh_edge 45 = (35, [A_inc_count])"
  "hsh_edge 46 = (36, [A_inc_count])"
  "hsh_edge 47 = (37, [A_emit_token])"
  "hsh_edge 48 = (38, [])"
  "hsh_edge 49 = (38, [A_header_value, A_inc_count])"
  "hsh_edge 50 = (40, [A_content_length_digit, A_header_value, A_inc_count])"
  "hsh_edge 51 = (40, [A_content_length_digit, A_inc_count])"
  "hsh_edge 52 = (42, [A_inc_count])"
  "hsh_edge 53 = (43, [A_inc_count])"
  "hsh_edge 54 = (44, [A_inc_count])"
  "hsh_edge 55 = (45, [A_inc_count])"
  "hsh_edge 56 = (46, [A_inc_count])"
  "hsh_edge 57 = (47, [A_inc_count])"
  "hsh_edge 58 = (48, [A_inc_count])"
  "hsh_edge 59 = (49, [A_inc_count])"
  "hsh_edge 60 = (50, [A_inc_count])"
  "hsh_edge 61 = (51, [A_inc_count])"
  "hsh_edge 62 = (52, [A_inc_count])"
  "hsh_edge 63 = (53, [A_inc_count])"
  "hsh_edge 64 = (54, [A_inc_count])"
  "hsh_edge 65 = (55, [A_inc_count])"
  "hsh_edge 66 = (56, [A_inc_count])"
  "hsh_edge 67 = (57, [A_inc_count])"
  "hsh_edge 68 = (58, [A_emit_token])"
  "hsh_edge 69 = (59, [])"
  "hsh_edge 70 = (59, [A_header_value, A_inc_count])"
  "hsh_edge 71 = (60, [A_header_value, A_inc_count])"
  "hsh_edge 72 = (61, [A_inc_count])"
  "hsh_edge 73 = (62, [A_inc_count])"
  "hsh_edge 74 = (63, [A_inc_count])"
  "hsh_edge 75 = (64, [A_inc_count])"
  "hsh_edge 76 = (65, [A_inc_count])"
  "hsh_edge 77 = (19, [A_transfer_encoding, A_inc_count])"
  "hsh_edge 78 = (67, [])"
  "hsh_edge 79 = (68, [])"
  "hsh_edge 80 = (69, [A_chunk_start, A_chunk_size])"
  "hsh_edge 81 = (72, [])"
  "hsh_edge 82 = (70, [])"
  "hsh_edge 83 = (69, [A_chunk_size])"
  "hsh_edge 84 = (71, [])"
  "hsh_edge 85 = (91, [A_body, A_chunk_read])"
  "hsh_edge 86 = (73, [])"
  "hsh_edge 87 = (92, [A_end_stream])"
  "hsh_edge 88 = (75, [A_chunk_start, A_chunk_size])"
  "hsh_edge 89 = (86, [])"
  "hsh_edge 90 = (76, [])"
  "hsh_edge 91 = (75, [A_chunk_size])"
  "hsh_edge 92 = (77, [])"
  "hsh_edge 93 = (78, [A_body, A_chunk_read])"
  "hsh_edge 94 = (79, [A_chunk_read, A_chunk_start, A_chunk_size])"
  "hsh_edge 95 = (84, [A_chunk_read])"
  "hsh_edge 96 = (80, [A_chunk_read, A_chunk_start, A_chunk_size])"
  "hsh_edge 97 = (82, [A_chunk_size, A_chunk_read])"
  "hsh_edge 98 = (79, [A_chunk_size, A_chunk_read, A_chunk_start])"
  "hsh_edge 99 = (81, [A_chunk_read, A_chunk_start, A_chunk_size])"
  "hsh_edge 100 = (79, [A_body, A_chunk_read, A_chunk_start, A_chunk_size])"
  "hsh_edge 101 = (80, [A_body, A_chunk_read, A_chunk_start, A_chunk_size])"
  "hsh_edge 102 = (82, [A_chunk_size, A_body, A_chunk_read])"
  "hsh_edge 103 = (79, [A_chunk_size, A_body, A_chunk_read, A_chunk_start])"
  "hsh_edge 104 = (83, [A_chunk_read, A_chunk_start, A_chunk_size])"
  "hsh_edge 105 = (93, [A_chunk_read, A_chunk_start, A_chunk_size, A_end_stream])"
  "hsh_edge 106 = (85, [A_chunk_read, A_chunk_start, A_chunk_size])"
  "hsh_edge 107 = (94, [A_chunk_read, A_chunk_start, A_chunk_size, A_end_stream])"
  "hsh_edge 108 = (87, [])"
  "hsh_edge 109 = (95, [A_end_stream])"
  "hsh_edge 110 = (96, [A_body, A_small_body_read])"
  "hsh_edge 111 = (97, [A_body, A_large_body_read])"
  "hsh_edge 112 = (91, [A_chunk_read])"
  "hsh_edge 113 = (96, [A_small_body_read])"
  "hsh_edge 114 = (97, [A_large_body_read])"
  by (simp_all add: hsh_edge_def hsh_http_trans_targs_def hsh_http_trans_actions_def)

section \<open>The tables and the rows give the same transitions\<close>

lemma prefix_sums_nth:
  "k < length xs \<Longrightarrow> prefix_sums n xs ! k = n + sum_list (take k xs)"
  by (induction xs arbitrary: n k) (auto simp: nth_Cons take_Cons split: nat.splits)

lemma drop_concat:
  assumes "k < length xss"
  shows "drop (sum_list (take k (map length xss))) (concat xss @ ys)
    = xss ! k @ concat (drop (Suc k) xss) @ ys"
  using assms
proof (induction xss arbitrary: k)
  case Nil
  then show ?case by simp
next
  case (Cons a xss)
  then show ?case by (cases k) simp_all
qed

lemma flat_ranges_Cons: "flat_ranges ((lo, hi) # rs) = lo # hi # flat_ranges rs"
  by (simp add: flat_ranges_def)

lemma flat_ranges_Nil [simp]: "flat_ranges [] = []"
  by (simp add: flat_ranges_def)

lemma length_flat_ranges [simp]: "length (flat_ranges rs) = 2 * length rs"
  by (induction rs) (auto simp: flat_ranges_Cons)

lemma flat_ranges_nth:
  "i < length rs \<Longrightarrow> flat_ranges rs ! (2 * i) = fst (rs ! i)
     \<and> flat_ranges rs ! Suc (2 * i) = snd (rs ! i)"
proof (induction rs arbitrary: i)
  case Nil
  then show ?case by simp
next
  case (Cons r rs)
  then show ?case
    by (cases r; cases i) (auto simp: flat_ranges_Cons)
qed

lemma row_pick_single:
  "sorted_wrt (<) ks \<Longrightarrow> i < length ks \<Longrightarrow> ks ! i = x \<Longrightarrow> length ks \<le> length ts
     \<Longrightarrow> row_pick ks rs ts x = ts ! i"
proof (induction ks arbitrary: ts i)
  case Nil
  then show ?case by simp
next
  case (Cons k ks)
  then obtain t ts' where ts: "ts = t # ts'" by (cases ts) auto
  with Cons show ?case by (cases i) auto
qed

lemma row_pick_skip:
  "x \<notin> set ks \<Longrightarrow> length ks \<le> length ts
     \<Longrightarrow> row_pick ks rs ts x = row_pick [] rs (drop (length ks) ts) x"
proof (induction ks arbitrary: ts)
  case Nil
  then show ?case by simp
next
  case (Cons k ks)
  then obtain t ts' where ts: "ts = t # ts'" by (cases ts) auto
  with Cons show ?case by simp
qed

lemma row_pick_range:
  "sorted_wrt (\<lambda>(lo, hi) (lo', hi'). hi < lo') rs \<Longrightarrow> list_all (\<lambda>(lo, hi). lo \<le> hi) rs
     \<Longrightarrow> i < length rs \<Longrightarrow> fst (rs ! i) \<le> x \<Longrightarrow> x \<le> snd (rs ! i) \<Longrightarrow> length rs \<le> length ts
     \<Longrightarrow> row_pick [] rs ts x = ts ! i"
proof (induction rs arbitrary: ts i)
  case Nil
  then show ?case by simp
next
  case (Cons r rs)
  obtain lo hi where r: "r = (lo, hi)" by (cases r)
  from Cons.prems obtain t ts' where ts: "ts = t # ts'" by (cases ts) auto
  show ?case
  proof (cases i)
    case 0
    with Cons r ts show ?thesis by simp
  next
    case (Suc j)
    with Cons.prems have "rs ! j \<in> set rs" by simp
    moreover have "\<forall>p \<in> set rs. hi < fst p" using Cons.prems(1) r by (simp add: case_prod_beta)
    ultimately have "hi < fst (rs ! j)" by blast
    with Cons.prems Suc have "hi < x" by simp
    with Cons r ts Suc show ?thesis by simp
  qed
qed

lemma row_pick_default:
  "\<forall>i < length rs. \<not> (fst (rs ! i) \<le> x \<and> x \<le> snd (rs ! i)) \<Longrightarrow> length rs < length ts
     \<Longrightarrow> row_pick [] rs ts x = ts ! length rs"
proof (induction rs arbitrary: ts)
  case Nil
  then show ?case by (cases ts) simp_all
next
  case (Cons r rs)
  obtain lo hi where r: "r = (lo, hi)" by (cases r)
  from Cons.prems obtain t ts' where ts: "ts = t # ts'" by (cases ts) auto
  have "\<not> (lo \<le> x \<and> x \<le> hi)" using Cons.prems(1) r by force
  moreover have "\<forall>i < length rs. \<not> (fst (rs ! i) \<le> x \<and> x \<le> snd (rs ! i))"
    using Cons.prems(1) by force
  ultimately show ?case using Cons r ts by auto
qed

text \<open>The searches over the keys of a row, taken by themselves.\<close>

lemma single_search_absent:
  assumes "sorted_wrt (<) ks" and "0 < length ks \<longrightarrow> single_search (ks @ ys) 0 (int (length ks) - 1) x = None"
  shows "x \<notin> set ks"
proof
  assume "x \<in> set ks"
  then obtain i where i: "i < length ks" "ks ! i = x" by (auto simp: in_set_conv_nth)
  then have s: "single_search (ks @ ys) 0 (int (length ks) - 1) x = None" using assms(2) by auto
  have "(ks @ ys) ! nat (int i) \<noteq> x"
  proof (rule single_search_None [OF s])
    fix i j :: int
    assume "0 \<le> i" "i < j" "j \<le> int (length ks) - 1"
    then have "nat i < nat j" "nat j < length ks" "nat i < length ks" by linarith+
    with assms(1) show "(ks @ ys) ! nat i < (ks @ ys) ! nat j"
      by (simp add: nth_append sorted_wrt_iff_nth_less)
  qed (use i in auto)
  with i show False by (simp add: nth_append)
qed

lemma range_keys:
  assumes "i < length rs"
  shows "(flat_ranges rs @ zs) ! (2 * i) = fst (rs ! i)" "(flat_ranges rs @ zs) ! Suc (2 * i) = snd (rs ! i)"
  using flat_ranges_nth [OF assms] assms by (simp_all add: nth_append)

text \<open>The position of a lower bound: an even index below the two last ones.\<close>

lemma range_index:
  fixes m :: int
  assumes "0 \<le> m" and "m \<le> 2 * int n - 2" and "even m"
  obtains i where "i < n" and "nat m = 2 * i" and "nat (m + 1) = Suc (2 * i)" and "i = nat (m div 2)"
  using assms by (intro that [of "nat (m div 2)"]) auto

lemma range_search_found:
  assumes "range_search (flat_ranges rs @ zs) 0 (2 * int (length rs) - 2) x = Some m"
  shows "nat (m div 2) < length rs \<and> fst (rs ! nat (m div 2)) \<le> x \<and> x \<le> snd (rs ! nat (m div 2))"
proof -
  have m: "0 \<le> m" "m \<le> 2 * int (length rs) - 2" "even m"
    "(flat_ranges rs @ zs) ! nat m \<le> x" "x \<le> (flat_ranges rs @ zs) ! nat (m + 1)"
    using range_search_Some [OF assms] by auto
  obtain i where i: "i < length rs" "nat m = 2 * i" "nat (m + 1) = Suc (2 * i)" "i = nat (m div 2)" by (rule range_index [OF m(1-3)])
  from m(4,5) range_keys [OF i(1), of zs] have "fst (rs ! i) \<le> x \<and> x \<le> snd (rs ! i)" by (simp add: i(2,3))
  with i(1) show ?thesis unfolding i(4) by blast
qed

lemma range_search_absent:
  assumes rng: "list_all (\<lambda>(lo, hi). lo \<le> hi) rs" and dis: "sorted_wrt (\<lambda>(lo, hi) (lo', hi'). hi < lo') rs"
    and none: "0 < length rs \<longrightarrow> range_search (flat_ranges rs @ zs) 0 (2 * int (length rs) - 2) x = None"
  shows "\<forall>i < length rs. \<not> (fst (rs ! i) \<le> x \<and> x \<le> snd (rs ! i))"
proof (intro allI impI)
  fix i assume i: "i < length rs"
  let ?keys = "flat_ranges rs @ zs"
  have s: "range_search ?keys 0 (2 * int (length rs) - 2) x = None" using none i by auto
  have "\<not> (?keys ! nat (2 * int i) \<le> x \<and> x \<le> ?keys ! nat (2 * int i + 1))"
  proof (rule range_search_None [OF s])
    fix j :: int
    assume "0 \<le> j" "j \<le> 2 * int (length rs) - 2" "even j"
    then obtain q where q: "q < length rs" "nat j = 2 * q" "nat (j + 1) = Suc (2 * q)" by (rule range_index)
    have "fst (rs ! q) \<le> snd (rs ! q)" using rng q(1) by (auto simp: list_all_length split: prod.splits)
    then show "?keys ! nat j \<le> ?keys ! nat (j + 1)" using range_keys [OF q(1), of zs] by (simp add: q(2,3))
  next
    fix j l :: int
    assume jl: "0 \<le> j" "j < l" "l \<le> 2 * int (length rs) - 2" "even j" "even l"
    then have b: "j \<le> 2 * int (length rs) - 2" "0 \<le> l" by auto
    obtain q where q: "q < length rs" "nat (j + 1) = Suc (2 * q)" "q = nat (j div 2)" by (rule range_index [OF jl(1) b(1) jl(4)])
    obtain p where p: "p < length rs" "nat l = 2 * p" "p = nat (l div 2)" by (rule range_index [OF b(2) jl(3,5)])
    have "q < p" using jl by (auto simp: q(3) p(3))
    then have "snd (rs ! q) < fst (rs ! p)" using sorted_wrt_nth_less [OF dis _ p(1)] by (simp add: case_prod_beta)
    then show "?keys ! nat (j + 1) < ?keys ! nat l" using range_keys [OF q(1), of zs] range_keys [OF p(1), of zs] by (simp add: q(2) p(2))
  qed (use i in auto)
  moreover have "nat (2 * int i) = 2 * i" "nat (2 * int i + 1) = Suc (2 * i)" by linarith+
  ultimately show "\<not> (fst (rs ! i) \<le> x \<and> x \<le> snd (rs ! i))" using range_keys [OF i, of zs] by simp
qed

text \<open>The two searches over the keys of a row pick the transition \<open>row_pick\<close> picks.\<close>

lemma search_row_pick:
  assumes wf: "row_wf (ks, rs, ts)"
    and slots: "\<And>i. i < length ts \<Longrightarrow> tbl ! (off + i) = ts ! i"
  shows "tbl ! (case (if 0 < length ks
                      then single_search (ks @ flat_ranges rs @ zs) 0 (int (length ks) - 1) x
                      else None) of
           Some mid \<Rightarrow> off + nat mid
         | None \<Rightarrow>
             (case (if 0 < length rs
                    then range_search (flat_ranges rs @ zs) 0 (2 * int (length rs) - 2) x
                    else None) of
                Some mid \<Rightarrow> off + length ks + nat (mid div 2)
              | None \<Rightarrow> off + length ks + length rs)) = row_pick ks rs ts x"
    (is "tbl ! (case ?s of Some mid \<Rightarrow> _ mid | None \<Rightarrow> (case ?r of Some mid \<Rightarrow> _ | None \<Rightarrow> _)) = _")
proof -
  have srt: "sorted_wrt (<) ks" and rng: "list_all (\<lambda>(lo, hi). lo \<le> hi) rs"
    and dis: "sorted_wrt (\<lambda>(lo, hi) (lo', hi'). hi < lo') rs"
    and len: "length ts = length ks + length rs + 1"
    using wf by (auto simp: row_wf_def)
  show ?thesis
  proof (cases ?s)
    case (Some m)
    then have s: "single_search (ks @ flat_ranges rs @ zs) 0 (int (length ks) - 1) x = Some m" by (auto split: if_splits)
    have m: "0 \<le> m" "m \<le> int (length ks) - 1" "(ks @ flat_ranges rs @ zs) ! nat m = x" using single_search_Some [OF s] by auto
    then have lt: "nat m < length ks" by linarith
    with m have "row_pick ks rs ts x = ts ! nat m"
      by (intro row_pick_single srt) (auto simp: nth_append len)
    moreover have "tbl ! (off + nat m) = ts ! nat m" using lt by (intro slots) (simp add: len)
    ultimately show ?thesis using Some by simp
  next
    case None
    then have "x \<notin> set ks" by (intro single_search_absent [OF srt]) (auto split: if_splits)
    then have skip: "row_pick ks rs ts x = row_pick [] rs (drop (length ks) ts) x"
      by (intro row_pick_skip) (simp_all add: len)
    show ?thesis
    proof (cases ?r)
      case (Some m)
      define i where "i = nat (m div 2)"
      from Some have "range_search (flat_ranges rs @ zs) 0 (2 * int (length rs) - 2) x = Some m" by (auto split: if_splits)
      from range_search_found [OF this] have i: "i < length rs" "fst (rs ! i) \<le> x" "x \<le> snd (rs ! i)" by (simp_all add: i_def)
      then have "row_pick [] rs (drop (length ks) ts) x = drop (length ks) ts ! i"
        by (intro row_pick_range dis rng) (simp_all add: len)
      moreover have "tbl ! (off + (length ks + i)) = ts ! (length ks + i)" using i(1) by (intro slots) (simp add: len)
      ultimately show ?thesis using None Some skip i(1) by (simp add: len i_def [symmetric] add.assoc)
    next
      case none: None
      then have "\<forall>i < length rs. \<not> (fst (rs ! i) \<le> x \<and> x \<le> snd (rs ! i))"
        by (intro range_search_absent [OF rng dis]) (auto split: if_splits)
      then have "row_pick [] rs (drop (length ks) ts) x = drop (length ks) ts ! length rs"
        by (intro row_pick_default) (simp_all add: len)
      moreover have "tbl ! (off + (length ks + length rs)) = ts ! (length ks + length rs)" by (intro slots) (simp add: len)
      ultimately show ?thesis using None none skip by (simp add: len add.assoc)
    qed
  qed
qed

lemma hsh_trans_row:
  assumes "0 < cs" and "cs < 98"
  shows "hsh_trans cs c = lookup_row (hsh_rows ! cs) (c_int c)"
proof -
  obtain ks rs ts where r: "hsh_rows ! cs = (ks, rs, ts)" by (cases "hsh_rows ! cs")
  let ?K = "map row_keys hsh_rows" and ?S = "map row_slots hsh_rows"
  have "hsh_rows ! cs \<in> set (tl hsh_rows)"
    using assms nth_mem [of "cs - 1" "tl hsh_rows"] by (simp add: nth_tl)
  then have wf: "row_wf (ks, rs, ts)" using hsh_rows_wf r by (simp add: list_all_iff)
  have "drop (hsh_http_key_offsets ! cs) hsh_http_trans_keys
      = row_keys (ks, rs, ts) @ concat (drop (Suc cs) ?K) @ [0]"
    using drop_concat [of cs ?K "[0]"] assms
    by (simp add: key_offsets_rows trans_keys_rows prefix_sums_nth r)
  then obtain zs where keys: "drop (hsh_http_key_offsets ! cs) hsh_http_trans_keys
      = ks @ flat_ranges rs @ zs"
    by (simp add: row_keys_def)
  have "drop (hsh_http_index_offsets ! cs) hsh_http_indicies
      = ts @ concat (drop (Suc cs) ?S) @ [0]"
    using drop_concat [of cs ?S "[0]"] assms
    by (simp add: index_offsets_rows indicies_rows prefix_sums_nth r row_slots_def)
  moreover have "hsh_http_index_offsets ! cs \<le> length hsh_http_indicies"
  proof (rule ccontr)
    assume "\<not> hsh_http_index_offsets ! cs \<le> length hsh_http_indicies"
    then have "drop (hsh_http_index_offsets ! cs) hsh_http_indicies = []" by simp
    with calculation show False by simp
  qed
  ultimately have slots: "hsh_http_indicies ! (hsh_http_index_offsets ! cs + i) = ts ! i"
    if "i < length ts" for i
    using that nth_drop [of "hsh_http_index_offsets ! cs" hsh_http_indicies i]
    by (simp add: nth_append)
  have lens: "hsh_http_single_lengths ! cs = length ks" "hsh_http_range_lengths ! cs = length rs"
    using assms by (simp_all add: single_lengths_rows range_lengths_rows r)
  have drp: "drop (length ks) (ks @ flat_ranges rs @ zs) = flat_ranges rs @ zs" by simp
  have "hsh_http_indicies ! trans_slot cs (c_int c) = row_pick ks rs ts (c_int c)"
    unfolding trans_slot_def Let_def keys lens drp
    by (rule search_row_pick [OF wf slots])
  then show ?thesis
    by (simp add: hsh_trans_def lookup_row_def r hsh_edge_def Let_def)
qed

text \<open>The transition function state by state, the form in which concrete runs are computed.\<close>

lemma hsh_trans_eval:
  "hsh_trans (Suc 0) c = lookup_row ([], [(65, 90), (97, 122)], [1, 1, 0]) (c_int c)"
  "hsh_trans 2 c = lookup_row ([32], [(65, 90), (97, 122)], [2, 3, 3, 0]) (c_int c)"
  "hsh_trans 3 c = lookup_row ([32], [], [0, 4]) (c_int c)"
  "hsh_trans 4 c = lookup_row ([32], [], [6, 5]) (c_int c)"
  "hsh_trans 5 c = lookup_row ([72], [], [7, 0]) (c_int c)"
  "hsh_trans 6 c = lookup_row ([84], [], [8, 0]) (c_int c)"
  "hsh_trans 7 c = lookup_row ([84], [], [9, 0]) (c_int c)"
  "hsh_trans 8 c = lookup_row ([80], [], [10, 0]) (c_int c)"
  "hsh_trans 9 c = lookup_row ([47], [], [11, 0]) (c_int c)"
  "hsh_trans 10 c = lookup_row ([49], [], [12, 0]) (c_int c)"
  "hsh_trans 11 c = lookup_row ([46], [], [13, 0]) (c_int c)"
  "hsh_trans 12 c = lookup_row ([], [(48, 49)], [14, 0]) (c_int c)"
  "hsh_trans 13 c = lookup_row ([13], [], [15, 0]) (c_int c)"
  "hsh_trans 14 c = lookup_row ([10], [], [16, 0]) (c_int c)"
  "hsh_trans 15 c = lookup_row ([9, 32, 34, 44, 47, 67, 84, 99, 116, 123, 125], [(40, 41), (58,
    64), (91, 93)], [0, 0, 0, 0, 0, 18, 19, 18, 19, 0, 0, 0, 0, 0, 17]) (c_int c)"
  "hsh_trans 16 c = lookup_row ([9, 32, 34, 44, 47, 58, 123, 125], [(40, 41), (59, 64), (91,
    93)], [0, 0, 0, 0, 0, 21, 0, 0, 0, 0, 0, 20]) (c_int c)"
  "hsh_trans 17 c = lookup_row ([9, 32], [], [22, 22, 0]) (c_int c)"
  "hsh_trans 18 c = lookup_row ([9, 13, 32], [], [24, 25, 24, 23]) (c_int c)"
  "hsh_trans 19 c = lookup_row ([10, 13], [], [0, 27, 26]) (c_int c)"
  "hsh_trans 20 c = lookup_row ([10], [], [28, 0]) (c_int c)"
  "hsh_trans 21 c = lookup_row ([9, 13, 32, 34, 44, 47, 67, 84, 99, 116, 123, 125], [(40, 41),
    (58, 64), (91, 93)], [0, 30, 0, 0, 0, 0, 31, 32, 31, 32, 0, 0, 0, 0, 0, 29]) (c_int c)"
  "hsh_trans 22 c = lookup_row ([9, 10, 32, 34, 44, 47, 58, 123, 125], [(40, 41), (59, 64), (91,
    93)], [0, 33, 0, 0, 0, 0, 21, 0, 0, 0, 0, 0, 20]) (c_int c)"
  "hsh_trans 23 c = lookup_row ([9, 32, 34, 44, 47, 58, 79, 111, 123, 125], [(40, 41), (59, 64),
    (91, 93)], [0, 0, 0, 0, 0, 21, 34, 34, 0, 0, 0, 0, 0, 20]) (c_int c)"
  "hsh_trans 24 c = lookup_row ([9, 32, 34, 44, 47, 58, 78, 110, 123, 125], [(40, 41), (59, 64),
    (91, 93)], [0, 0, 0, 0, 0, 21, 35, 35, 0, 0, 0, 0, 0, 20]) (c_int c)"
  "hsh_trans 25 c = lookup_row ([9, 32, 34, 44, 47, 58, 84, 116, 123, 125], [(40, 41), (59, 64),
    (91, 93)], [0, 0, 0, 0, 0, 21, 36, 36, 0, 0, 0, 0, 0, 20]) (c_int c)"
  "hsh_trans 26 c = lookup_row ([9, 32, 34, 44, 47, 58, 69, 101, 123, 125], [(40, 41), (59, 64),
    (91, 93)], [0, 0, 0, 0, 0, 21, 37, 37, 0, 0, 0, 0, 0, 20]) (c_int c)"
  "hsh_trans 27 c = lookup_row ([9, 32, 34, 44, 47, 58, 78, 110, 123, 125], [(40, 41), (59, 64),
    (91, 93)], [0, 0, 0, 0, 0, 21, 38, 38, 0, 0, 0, 0, 0, 20]) (c_int c)"
  "hsh_trans 28 c = lookup_row ([9, 32, 34, 44, 47, 58, 84, 116, 123, 125], [(40, 41), (59, 64),
    (91, 93)], [0, 0, 0, 0, 0, 21, 39, 39, 0, 0, 0, 0, 0, 20]) (c_int c)"
  "hsh_trans 29 c = lookup_row ([9, 32, 34, 44, 45, 47, 58, 123, 125], [(40, 41), (59, 64), (91,
    93)], [0, 0, 0, 0, 40, 0, 21, 0, 0, 0, 0, 0, 20]) (c_int c)"
  "hsh_trans 30 c = lookup_row ([9, 32, 34, 44, 47, 58, 76, 108, 123, 125], [(40, 41), (59, 64),
    (91, 93)], [0, 0, 0, 0, 0, 21, 41, 41, 0, 0, 0, 0, 0, 20]) (c_int c)"
  "hsh_trans 31 c = lookup_row ([9, 32, 34, 44, 47, 58, 69, 101, 123, 125], [(40, 41), (59, 64),
    (91, 93)], [0, 0, 0, 0, 0, 21, 42, 42, 0, 0, 0, 0, 0, 20]) (c_int c)"
  "hsh_trans 32 c = lookup_row ([9, 32, 34, 44, 47, 58, 78, 110, 123, 125], [(40, 41), (59, 64),
    (91, 93)], [0, 0, 0, 0, 0, 21, 43, 43, 0, 0, 0, 0, 0, 20]) (c_int c)"
  "hsh_trans 33 c = lookup_row ([9, 32, 34, 44, 47, 58, 71, 103, 123, 125], [(40, 41), (59, 64),
    (91, 93)], [0, 0, 0, 0, 0, 21, 44, 44, 0, 0, 0, 0, 0, 20]) (c_int c)"
  "hsh_trans 34 c = lookup_row ([9, 32, 34, 44, 47, 58, 84, 116, 123, 125], [(40, 41), (59, 64),
    (91, 93)], [0, 0, 0, 0, 0, 21, 45, 45, 0, 0, 0, 0, 0, 20]) (c_int c)"
  "hsh_trans 35 c = lookup_row ([9, 32, 34, 44, 47, 58, 72, 104, 123, 125], [(40, 41), (59, 64),
    (91, 93)], [0, 0, 0, 0, 0, 21, 46, 46, 0, 0, 0, 0, 0, 20]) (c_int c)"
  "hsh_trans 36 c = lookup_row ([9, 32, 34, 44, 47, 58, 123, 125], [(40, 41), (59, 64), (91,
    93)], [0, 0, 0, 0, 0, 47, 0, 0, 0, 0, 0, 20]) (c_int c)"
  "hsh_trans 37 c = lookup_row ([9, 32], [], [48, 48, 0]) (c_int c)"
  "hsh_trans 38 c = lookup_row ([9, 13, 32], [(48, 57)], [49, 25, 49, 50, 23]) (c_int c)"
  "hsh_trans 39 c = lookup_row ([10, 13], [], [28, 27, 26]) (c_int c)"
  "hsh_trans 40 c = lookup_row ([10, 13], [(48, 57)], [0, 27, 51, 26]) (c_int c)"
  "hsh_trans 41 c = lookup_row ([9, 32, 34, 44, 47, 58, 82, 114, 123, 125], [(40, 41), (59, 64),
    (91, 93)], [0, 0, 0, 0, 0, 21, 52, 52, 0, 0, 0, 0, 0, 20]) (c_int c)"
  "hsh_trans 42 c = lookup_row ([9, 32, 34, 44, 47, 58, 65, 97, 123, 125], [(40, 41), (59, 64),
    (91, 93)], [0, 0, 0, 0, 0, 21, 53, 53, 0, 0, 0, 0, 0, 20]) (c_int c)"
  "hsh_trans 43 c = lookup_row ([9, 32, 34, 44, 47, 58, 78, 110, 123, 125], [(40, 41), (59, 64),
    (91, 93)], [0, 0, 0, 0, 0, 21, 54, 54, 0, 0, 0, 0, 0, 20]) (c_int c)"
  "hsh_trans 44 c = lookup_row ([9, 32, 34, 44, 47, 58, 83, 115, 123, 125], [(40, 41), (59, 64),
    (91, 93)], [0, 0, 0, 0, 0, 21, 55, 55, 0, 0, 0, 0, 0, 20]) (c_int c)"
  "hsh_trans 45 c = lookup_row ([9, 32, 34, 44, 47, 58, 70, 102, 123, 125], [(40, 41), (59, 64),
    (91, 93)], [0, 0, 0, 0, 0, 21, 56, 56, 0, 0, 0, 0, 0, 20]) (c_int c)"
  "hsh_trans 46 c = lookup_row ([9, 32, 34, 44, 47, 58, 69, 101, 123, 125], [(40, 41), (59, 64),
    (91, 93)], [0, 0, 0, 0, 0, 21, 57, 57, 0, 0, 0, 0, 0, 20]) (c_int c)"
  "hsh_trans 47 c = lookup_row ([9, 32, 34, 44, 47, 58, 82, 114, 123, 125], [(40, 41), (59, 64),
    (91, 93)], [0, 0, 0, 0, 0, 21, 58, 58, 0, 0, 0, 0, 0, 20]) (c_int c)"
  "hsh_trans 48 c = lookup_row ([9, 32, 34, 44, 45, 47, 58, 123, 125], [(40, 41), (59, 64), (91,
    93)], [0, 0, 0, 0, 59, 0, 21, 0, 0, 0, 0, 0, 20]) (c_int c)"
  "hsh_trans 49 c = lookup_row ([9, 32, 34, 44, 47, 58, 69, 101, 123, 125], [(40, 41), (59, 64),
    (91, 93)], [0, 0, 0, 0, 0, 21, 60, 60, 0, 0, 0, 0, 0, 20]) (c_int c)"
  "hsh_trans 50 c = lookup_row ([9, 32, 34, 44, 47, 58, 78, 110, 123, 125], [(40, 41), (59, 64),
    (91, 93)], [0, 0, 0, 0, 0, 21, 61, 61, 0, 0, 0, 0, 0, 20]) (c_int c)"
  "hsh_trans 51 c = lookup_row ([9, 32, 34, 44, 47, 58, 67, 99, 123, 125], [(40, 41), (59, 64),
    (91, 93)], [0, 0, 0, 0, 0, 21, 62, 62, 0, 0, 0, 0, 0, 20]) (c_int c)"
  "hsh_trans 52 c = lookup_row ([9, 32, 34, 44, 47, 58, 79, 111, 123, 125], [(40, 41), (59, 64),
    (91, 93)], [0, 0, 0, 0, 0, 21, 63, 63, 0, 0, 0, 0, 0, 20]) (c_int c)"
  "hsh_trans 53 c = lookup_row ([9, 32, 34, 44, 47, 58, 68, 100, 123, 125], [(40, 41), (59, 64),
    (91, 93)], [0, 0, 0, 0, 0, 21, 64, 64, 0, 0, 0, 0, 0, 20]) (c_int c)"
  "hsh_trans 54 c = lookup_row ([9, 32, 34, 44, 47, 58, 73, 105, 123, 125], [(40, 41), (59, 64),
    (91, 93)], [0, 0, 0, 0, 0, 21, 65, 65, 0, 0, 0, 0, 0, 20]) (c_int c)"
  "hsh_trans 55 c = lookup_row ([9, 32, 34, 44, 47, 58, 78, 110, 123, 125], [(40, 41), (59, 64),
    (91, 93)], [0, 0, 0, 0, 0, 21, 66, 66, 0, 0, 0, 0, 0, 20]) (c_int c)"
  "hsh_trans 56 c = lookup_row ([9, 32, 34, 44, 47, 58, 71, 103, 123, 125], [(40, 41), (59, 64),
    (91, 93)], [0, 0, 0, 0, 0, 21, 67, 67, 0, 0, 0, 0, 0, 20]) (c_int c)"
  "hsh_trans 57 c = lookup_row ([9, 32, 34, 44, 47, 58, 123, 125], [(40, 41), (59, 64), (91,
    93)], [0, 0, 0, 0, 0, 68, 0, 0, 0, 0, 0, 20]) (c_int c)"
  "hsh_trans 58 c = lookup_row ([9, 32], [], [69, 69, 0]) (c_int c)"
  "hsh_trans 59 c = lookup_row ([9, 13, 32, 99], [], [70, 25, 70, 71, 23]) (c_int c)"
  "hsh_trans 60 c = lookup_row ([10, 13, 104], [], [0, 27, 72, 26]) (c_int c)"
  "hsh_trans 61 c = lookup_row ([10, 13, 117], [], [0, 27, 73, 26]) (c_int c)"
  "hsh_trans 62 c = lookup_row ([10, 13, 110], [], [0, 27, 74, 26]) (c_int c)"
  "hsh_trans 63 c = lookup_row ([10, 13, 107], [], [0, 27, 75, 26]) (c_int c)"
  "hsh_trans 64 c = lookup_row ([10, 13, 101], [], [0, 27, 76, 26]) (c_int c)"
  "hsh_trans 65 c = lookup_row ([10, 13, 100], [], [0, 27, 77, 26]) (c_int c)"
  "hsh_trans 66 c = lookup_row ([13], [], [78, 0]) (c_int c)"
  "hsh_trans 67 c = lookup_row ([10], [], [79, 0]) (c_int c)"
  "hsh_trans 68 c = lookup_row ([48], [], [81, 80]) (c_int c)"
  "hsh_trans 69 c = lookup_row ([13], [(48, 57), (65, 70), (97, 102)], [82, 83, 83, 83, 0])
    (c_int c)"
  "hsh_trans 70 c = lookup_row ([10], [], [84, 0]) (c_int c)"
  "hsh_trans 71 c = lookup_row ([], [], [85]) (c_int c)"
  "hsh_trans 72 c = lookup_row ([13], [], [86, 0]) (c_int c)"
  "hsh_trans 73 c = lookup_row ([10], [], [87, 0]) (c_int c)"
  "hsh_trans 74 c = lookup_row ([48], [], [89, 88]) (c_int c)"
  "hsh_trans 75 c = lookup_row ([13], [(48, 57), (65, 70), (97, 102)], [90, 91, 91, 91, 0])
    (c_int c)"
  "hsh_trans 76 c = lookup_row ([10], [], [92, 0]) (c_int c)"
  "hsh_trans 77 c = lookup_row ([], [], [93]) (c_int c)"
  "hsh_trans 78 c = lookup_row ([48], [], [95, 94]) (c_int c)"
  "hsh_trans 79 c = lookup_row ([13, 48], [(49, 57), (65, 70), (97, 102)], [96, 97, 98, 98, 98,
    94]) (c_int c)"
  "hsh_trans 80 c = lookup_row ([10, 13, 48], [(49, 57), (65, 70), (97, 102)], [99, 96, 97, 98,
    98, 98, 94]) (c_int c)"
  "hsh_trans 81 c = lookup_row ([13, 48], [(49, 57), (65, 70), (97, 102)], [101, 102, 103, 103,
    103, 100]) (c_int c)"
  "hsh_trans 82 c = lookup_row ([13, 48], [(49, 57), (65, 70), (97, 102)], [104, 97, 98, 98, 98,
    94]) (c_int c)"
  "hsh_trans 83 c = lookup_row ([10, 13, 48], [(49, 57), (65, 70), (97, 102)], [105, 96, 97, 98,
    98, 98, 94]) (c_int c)"
  "hsh_trans 84 c = lookup_row ([13, 48], [], [106, 95, 94]) (c_int c)"
  "hsh_trans 85 c = lookup_row ([10, 13, 48], [(49, 57), (65, 70), (97, 102)], [107, 96, 97, 98,
    98, 98, 94]) (c_int c)"
  "hsh_trans 86 c = lookup_row ([13], [], [108, 0]) (c_int c)"
  "hsh_trans 87 c = lookup_row ([10], [], [109, 0]) (c_int c)"
  "hsh_trans 88 c = lookup_row ([], [], [110]) (c_int c)"
  "hsh_trans 89 c = lookup_row ([], [], [111]) (c_int c)"
  "hsh_trans 90 c = lookup_row ([9, 32, 34, 44, 47, 58, 123, 125], [(40, 41), (59, 64), (91,
    93)], [0, 0, 0, 0, 0, 21, 0, 0, 0, 0, 0, 20]) (c_int c)"
  "hsh_trans 91 c = lookup_row ([], [], [112]) (c_int c)"
  "hsh_trans 92 c = lookup_row ([], [], [0]) (c_int c)"
  "hsh_trans 93 c = lookup_row ([13, 48], [(49, 57), (65, 70), (97, 102)], [101, 102, 103, 103,
    103, 100]) (c_int c)"
  "hsh_trans 94 c = lookup_row ([13, 48], [(49, 57), (65, 70), (97, 102)], [96, 97, 98, 98, 98,
    94]) (c_int c)"
  "hsh_trans 95 c = lookup_row ([], [], [0]) (c_int c)"
  "hsh_trans 96 c = lookup_row ([], [], [113]) (c_int c)"
  "hsh_trans 97 c = lookup_row ([], [], [114]) (c_int c)"
  by (simp_all add: hsh_trans_row hsh_rows_def)


end
