(* ===== verification/Parser.thy ===== *)
theory Parser
  imports Parser_Tables
begin

text \<open>
  The request parser of \<^verbatim>\<open>src/src/parser.rl\<close>, with its compiled form in
  \<^verbatim>\<open>src/httpserver.h\<close>: the embedded actions, the scanning loop over the bytes
  that have arrived, and \<open>hsh_parser_exec\<close>, which runs until the next token is ready or
  the bytes are used up.

  Pointers into the read buffer are offsets from its start, as integers: the actions move the
  cursor to places that need not be inside the block. A byte is read through \<open>rd\<close>, so a
  read outside the block, or of a byte never written, is a fault.

  The one call of \<open>realloc\<close> in the actions may move the block. The cursor is a pointer
  into the old block and is not moved along, so its offset from the new block changes by the
  displacement \<open>mv\<close> (old address minus new address; 0 when the block grows in place). The
  displacement is the allocator's choice and is a parameter.
\<close>

definition HSH_P_FLAG_CHUNKED :: "8 word" where "HSH_P_FLAG_CHUNKED = 0x1"
definition HSH_P_FLAG_TOKEN_READY :: "8 word" where "HSH_P_FLAG_TOKEN_READY = 0x2"
definition HSH_P_FLAG_DONE :: "8 word" where "HSH_P_FLAG_DONE = 0x4"

lemmas parser_flags = HSH_P_FLAG_CHUNKED_def HSH_P_FLAG_TOKEN_READY_def HSH_P_FLAG_DONE_def

section \<open>Execution state\<close>

text \<open>The locals of the scanning loop: the automaton state and the cursor, with the structs.\<close>

record xst =
  x_cs :: nat
  x_p :: int
  x_ps :: hsh_parser_s
  x_bf :: hsh_buffer_s

text \<open>An action falls through to the next one, or leaves the loop (\<open>fbreak\<close>: \<open>p++\<close> and out).\<close>

datatype ctl = Cont xst | Stop xst

definition fbreak :: "xst \<Rightarrow> ctl" where
  "fbreak x = Stop (x\<lparr>x_p := x_p x + 1\<rparr>)"

definition fhold :: "xst \<Rightarrow> xst" where
  "fhold x = x\<lparr>x_p := x_p x - 1\<rparr>"

definition set_ready :: "hsh_parser_s \<Rightarrow> hsh_parser_s" where
  "set_ready ps = ps\<lparr>ps_flags := HTTP_FLAG_SET (ps_flags ps) HSH_P_FLAG_TOKEN_READY\<rparr>"

definition set_done :: "hsh_parser_s \<Rightarrow> hsh_parser_s" where
  "set_done ps = ps\<lparr>ps_flags := HTTP_FLAG_SET (ps_flags ps) HSH_P_FLAG_DONE\<rparr>"

definition token_flag_set :: "hsh_parser_s \<Rightarrow> 8 word \<Rightarrow> hsh_parser_s" where
  "token_flag_set ps flag =
     ps\<lparr>ps_token := (ps_token ps)\<lparr>tk_flags := HTTP_FLAG_SET (tk_flags (ps_token ps)) flag\<rparr>\<rparr>"

section \<open>Actions\<close>

definition HSH_ENTER_TOKEN :: "hsh_token_e \<Rightarrow> int \<Rightarrow> xst \<Rightarrow> xst" where
  "HSH_ENTER_TOKEN tok_type max_len x =
     (let ps = x_ps x
      in x\<lparr>x_ps := ps\<lparr>
           ps_token := (ps_token ps)\<lparr>tk_type := tok_type, tk_index := i32 (x_p x), tk_flags := 0\<rparr>,
           ps_limit_count := 0, ps_limit_max := max_len\<rparr>\<rparr>)"

definition act_body :: "xst \<Rightarrow> xst" where
  "act_body x =
     (let ps = x_ps x
      in x\<lparr>x_ps := ps\<lparr>ps_token := (ps_token ps)\<lparr>tk_type := HSH_TOK_BODY, tk_flags := 0,
                                               tk_index := i32 (x_p x)\<rparr>\<rparr>\<rparr>)"

definition act_emit_token :: "xst \<Rightarrow> ctl" where
  "act_emit_token x =
     (let ps = x_ps x;
          ps = ps\<lparr>ps_token := (ps_token ps)\<lparr>tk_len := i32 (x_p x - tk_index (ps_token ps))\<rparr>\<rparr>
      in fbreak (x\<lparr>x_ps := set_ready ps\<rparr>))"

definition act_content_length_digit :: "char \<Rightarrow> xst \<Rightarrow> xst" where
  "act_content_length_digit c x =
     (let ps = x_ps x; cl = i64 (ps_content_length ps * 10)
      in x\<lparr>x_ps := ps\<lparr>ps_content_length := i64 (cl + (c_int c - 48))\<rparr>\<rparr>)"

definition act_transfer_encoding :: "xst \<Rightarrow> xst" where
  "act_transfer_encoding x =
     (let ps = x_ps x in x\<lparr>x_ps := ps\<lparr>ps_flags := HTTP_FLAG_SET (ps_flags ps) HSH_P_FLAG_CHUNKED\<rparr>\<rparr>)"

definition act_reset_count :: "xst \<Rightarrow> xst" where
  "act_reset_count x = x\<lparr>x_ps := (x_ps x)\<lparr>ps_limit_count := 0, ps_limit_max := 256\<rparr>\<rparr>"

definition act_inc_count :: "xst \<Rightarrow> ctl" where
  "act_inc_count x =
     (let ps = x_ps x;
          x' = x\<lparr>x_ps := ps\<lparr>ps_limit_count := i16 (ps_limit_count ps + 1)\<rparr>\<rparr>
      in if ps_limit_max ps < i16 (ps_limit_count ps + 1) then fbreak x' else Cont x')"

definition act_done_headers :: "int \<Rightarrow> int \<Rightarrow> xst \<Rightarrow> ctl" where
  "act_done_headers mv max_buf_capacity x =
     (let after = i32 (x_p x + 1);
          bf = (x_bf x)\<lparr>bf_after_headers_index := after\<rparr>;
          ps = x_ps x;
          ps = ps\<lparr>ps_content_remaining := ps_content_length ps,
                  ps_token := token_zero\<lparr>tk_type := HSH_TOK_HEADERS_DONE\<rparr>\<rparr>;
          ps = set_ready ps;
          cl = ps_content_length ps
      in if HTTP_FLAG_CHECK (ps_flags ps) HSH_P_FLAG_CHUNKED then
           fbreak (x\<lparr>x_ps := token_flag_set ps HSH_TOK_FLAG_STREAMED_BODY, x_bf := bf,
                     x_cs := hsh_http_en_chunked_body\<rparr>)
         else if cl = 0 then
           fbreak (x\<lparr>x_ps := token_flag_set ps HSH_TOK_FLAG_NO_BODY, x_bf := bf\<rparr>)
         else if cl > i32 (max_buf_capacity - after) then
           fbreak (x\<lparr>x_ps := token_flag_set ps HSH_TOK_FLAG_STREAMED_BODY, x_bf := bf,
                     x_cs := hsh_http_en_large_body\<rparr>)
         else if i64 (cl + after) > bf_capacity bf then
           fbreak (x\<lparr>x_ps := ps,
                     x_bf := bf\<lparr>bf_buf := realloc_block (bf_buf bf) (i64 (cl + after)),
                                bf_capacity := i32 (i64 (cl + after))\<rparr>,
                     x_p := x_p x + mv,
                     x_cs := hsh_http_en_small_body\<rparr>)
         else
           fbreak (x\<lparr>x_ps := ps, x_bf := bf, x_cs := hsh_http_en_small_body\<rparr>))"

definition act_chunk_start :: "xst \<Rightarrow> xst" where
  "act_chunk_start x = x\<lparr>x_ps := (x_ps x)\<lparr>ps_content_length := 0\<rparr>\<rparr>"

definition chunk_digit :: "char \<Rightarrow> int option" where
  "chunk_digit c =
     (let v = c_int c
      in if c_int (CHR ''A'') \<le> v \<and> v \<le> c_int (CHR ''F'') then Some (v - 55)
         else if c_int (CHR ''a'') \<le> v \<and> v \<le> c_int (CHR ''f'') then Some (v - 87)
         else if c_int (CHR ''0'') \<le> v \<and> v \<le> c_int (CHR ''9'') then Some (v - c_int (CHR ''0''))
         else None)"

definition act_chunk_size :: "char \<Rightarrow> xst \<Rightarrow> xst" where
  "act_chunk_size c x =
     (let ps = x_ps x
      in case chunk_digit c of
           None \<Rightarrow> x
         | Some d \<Rightarrow> x\<lparr>x_ps := ps\<lparr>ps_content_length := i64 (i64 (ps_content_length ps * 16) + d)\<rparr>\<rparr>)"

definition act_chunk_read :: "int \<Rightarrow> int \<Rightarrow> xst \<Rightarrow> ctl result" where
  "act_chunk_read max_buf_capacity pe x =
     (let ps = x_ps x; bf = x_bf x; cl = ps_content_length ps; after = bf_after_headers_index bf;
          last_body_byte = tk_index (ps_token ps) + cl - 1
      in if pe \<ge> last_body_byte then
           Inr (fbreak (x\<lparr>x_p := last_body_byte,
                          x_ps := set_ready (ps\<lparr>ps_token := (ps_token ps)\<lparr>tk_len := i32 cl\<rparr>\<rparr>),
                          x_cs := hsh_http_en_chunk_end\<rparr>))
         else if i64 (x_p x + cl) > max_buf_capacity then
           bindr (memcpy_within (bf_buf bf) after (x_p x) (pe - x_p x)) (\<lambda>m.
             Inr (fbreak (fhold (x\<lparr>
               x_bf := bf\<lparr>bf_buf := m, bf_length := i32 (after + pe - x_p x)\<rparr>,
               x_p := after,
               x_ps := ps\<lparr>ps_token := (ps_token ps)\<lparr>tk_index := after\<rparr>,
                          ps_sequence_id := bf_sequence_id bf\<rparr>\<rparr>))))
         else Inr (Cont x))"

definition act_end_stream :: "xst \<Rightarrow> ctl" where
  "act_end_stream x =
     (let ps = x_ps x;
          ps = ps\<lparr>ps_token := \<lparr>tk_type = HSH_TOK_BODY, tk_flags = HSH_TOK_FLAG_BODY_FINAL,
                              tk_len = 0, tk_index = 0\<rparr>\<rparr>
      in fbreak (x\<lparr>x_ps := set_done (set_ready ps)\<rparr>))"

definition act_small_body_read :: "int \<Rightarrow> xst \<Rightarrow> ctl" where
  "act_small_body_read pe x =
     (let ps = x_ps x; bf = x_bf x; after = bf_after_headers_index bf; cl = ps_content_length ps;
          ps = ps\<lparr>ps_token := (ps_token ps)\<lparr>tk_index := after, tk_len := i32 cl\<rparr>\<rparr>;
          ps = token_flag_set ps HSH_TOK_FLAG_SMALL_BODY;
          last_body_byte = after + cl - 1;
          ps = (if pe \<ge> last_body_byte then set_done (set_ready ps) else ps)
      in fbreak (fhold (x\<lparr>x_ps := ps, x_p := pe\<rparr>)))"

definition act_large_body_read :: "int \<Rightarrow> xst \<Rightarrow> ctl" where
  "act_large_body_read pe x =
     (let ps = x_ps x; bf = x_bf x; after = bf_after_headers_index bf;
          remaining = ps_content_remaining ps;
          last_body_byte = after + remaining - 1
      in if pe \<ge> last_body_byte then
           let ps = ps\<lparr>ps_token := (ps_token ps)\<lparr>tk_index := after,
                         tk_flags := HSH_TOK_FLAG_BODY_FINAL, tk_len := i32 remaining\<rparr>,
                       ps_content_remaining := 0\<rparr>
           in fbreak (fhold (x\<lparr>x_ps := set_done (set_ready ps)\<rparr>))
         else
           let len = i32 (pe - x_p x);
               ps = ps\<lparr>ps_token := (ps_token ps)\<lparr>tk_index := after, tk_len := len\<rparr>,
                       ps_content_remaining := i64 (remaining - len),
                       ps_sequence_id := bf_sequence_id bf\<rparr>
           in fbreak (fhold (x\<lparr>x_ps := set_ready ps, x_p := after,
                              x_bf := bf\<lparr>bf_length := after\<rparr>\<rparr>)))"

text \<open>
  \<open>do_action mv max pe c a x\<close> is one case of the generated \<open>switch\<close>; \<open>c\<close> is the
  byte under the cursor.
\<close>

fun do_action :: "int \<Rightarrow> int \<Rightarrow> int \<Rightarrow> char \<Rightarrow> act \<Rightarrow> xst \<Rightarrow> ctl result" where
  "do_action mv mx pe c A_method x = Inr (Cont (HSH_ENTER_TOKEN HSH_TOK_METHOD 32 x))"
| "do_action mv mx pe c A_target x = Inr (Cont (HSH_ENTER_TOKEN HSH_TOK_TARGET 1024 x))"
| "do_action mv mx pe c A_version x = Inr (Cont (HSH_ENTER_TOKEN HSH_TOK_VERSION 16 x))"
| "do_action mv mx pe c A_header_key x = Inr (Cont (HSH_ENTER_TOKEN HSH_TOK_HEADER_KEY 256 x))"
| "do_action mv mx pe c A_header_value x = Inr (Cont (HSH_ENTER_TOKEN HSH_TOK_HEADER_VALUE 4096 x))"
| "do_action mv mx pe c A_body x = Inr (Cont (act_body x))"
| "do_action mv mx pe c A_emit_token x = Inr (act_emit_token x)"
| "do_action mv mx pe c A_content_length_digit x = Inr (Cont (act_content_length_digit c x))"
| "do_action mv mx pe c A_transfer_encoding x = Inr (Cont (act_transfer_encoding x))"
| "do_action mv mx pe c A_reset_count x = Inr (Cont (act_reset_count x))"
| "do_action mv mx pe c A_inc_count x = Inr (act_inc_count x)"
| "do_action mv mx pe c A_done_headers x = Inr (act_done_headers mv mx x)"
| "do_action mv mx pe c A_chunk_start x = Inr (Cont (act_chunk_start x))"
| "do_action mv mx pe c A_chunk_size x = Inr (Cont (act_chunk_size c x))"
| "do_action mv mx pe c A_chunk_read x = act_chunk_read mx pe x"
| "do_action mv mx pe c A_end_stream x = Inr (act_end_stream x)"
| "do_action mv mx pe c A_small_body_read x = Inr (act_small_body_read pe x)"
| "do_action mv mx pe c A_large_body_read x = Inr (act_large_body_read pe x)"
| "do_action mv mx pe c A_error x = Inr (fbreak x)"

fun run_actions :: "int \<Rightarrow> int \<Rightarrow> int \<Rightarrow> char \<Rightarrow> act list \<Rightarrow> xst \<Rightarrow> ctl result" where
  "run_actions mv mx pe c [] x = Inr (Cont x)"
| "run_actions mv mx pe c (a # as) x =
     (case do_action mv mx pe c a x of
        Inl e \<Rightarrow> Inl e
      | Inr (Stop x') \<Rightarrow> Inr (Stop x')
      | Inr (Cont x') \<Rightarrow> run_actions mv mx pe c as x')"

text \<open>An action that falls through leaves the cursor, the buffer and the state alone.\<close>

lemma do_action_Cont:
  "do_action mv mx pe c a x = Inr (Cont x') \<Longrightarrow>
     x_p x' = x_p x \<and> x_bf x' = x_bf x \<and> x_cs x' = x_cs x"
  by (cases a)
     (auto simp: HSH_ENTER_TOKEN_def act_body_def act_emit_token_def act_content_length_digit_def
       act_transfer_encoding_def act_reset_count_def act_inc_count_def act_done_headers_def
       act_chunk_start_def act_chunk_size_def act_chunk_read_def act_end_stream_def
       act_small_body_read_def act_large_body_read_def fbreak_def Let_def hs_simps
       split: if_splits option.splits)

lemma run_actions_Cont:
  "run_actions mv mx pe c as x = Inr (Cont x') \<Longrightarrow>
     x_p x' = x_p x \<and> x_bf x' = x_bf x \<and> x_cs x' = x_cs x"
proof (induction as arbitrary: x)
  case Nil
  then show ?case by simp
next
  case (Cons a as)
  then obtain y where "do_action mv mx pe c a x = Inr (Cont y)"
    and "run_actions mv mx pe c as y = Inr (Cont x')"
    by (auto split: sum.splits ctl.splits)
  with Cons.IH do_action_Cont show ?case by metis
qed

section \<open>The scanning loop\<close>

text \<open>
  One pass of the loop at the label \<open>_resume\<close>: read the byte under the cursor, take the
  transition, run its actions; then leave the loop in the error state or when the cursor
  reaches \<open>pe\<close>. The cursor advances by one in each pass and reads inside the block, so the
  loop ends.
\<close>

function scan :: "int \<Rightarrow> int \<Rightarrow> int \<Rightarrow> xst \<Rightarrow> xst result" where
  "scan mv mx pe x =
     (case rd (bf_buf (x_bf x)) (x_p x) of
        Inl e \<Rightarrow> Inl e
      | Inr c \<Rightarrow>
          (case run_actions mv mx pe c (snd (hsh_trans (x_cs x) c))
                  (x\<lparr>x_cs := fst (hsh_trans (x_cs x) c)\<rparr>) of
             Inl e \<Rightarrow> Inl e
           | Inr (Stop x') \<Rightarrow> Inr x'
           | Inr (Cont x') \<Rightarrow>
               if x_cs x' = hsh_http_error then Inr x'
               else if x_p x' + 1 = pe then Inr (x'\<lparr>x_p := x_p x' + 1\<rparr>)
               else scan mv mx pe (x'\<lparr>x_p := x_p x' + 1\<rparr>)))"
  by pat_completeness auto
termination
proof (relation "measure (\<lambda>(mv, mx, pe, x). nat (block_size (bf_buf (x_bf x)) - x_p x))", goal_cases)
  case (2 mv mx pe x c ctl x')
  then show ?case
    using run_actions_Cont [of mv mx pe c _ _ x'] rd_in_bounds [of "bf_buf (x_bf x)" "x_p x" c]
    by fastforce
qed simp

declare scan.simps [simp del]

text \<open>
  The whole scanner from entry to the label \<open>_out\<close>. \<open>eof\<close> is \<open>NULL\<close>, which the
  cursor equals only when there is no buffer.
\<close>

definition test_eof :: "xst \<Rightarrow> xst" where
  "test_eof x =
     (if bf_buf (x_bf x) = None \<and> x_p x = 0 \<and> hsh_eof_acts (x_cs x) \<noteq> []
      then x\<lparr>x_p := x_p x + 1\<rparr> else x)"

definition scan_exec :: "int \<Rightarrow> int \<Rightarrow> int \<Rightarrow> xst \<Rightarrow> xst result" where
  "scan_exec mv mx pe x =
     (if x_p x = pe then Inr (test_eof x)
      else if x_cs x = hsh_http_error then Inr x
      else scan mv mx pe x)"

section \<open>The parser's interface\<close>

definition hsh_parser_init :: hsh_parser_s where
  "hsh_parser_init = parser_zero\<lparr>ps_state := hsh_http_start\<rparr>"

definition token_none :: hsh_token_s where
  "token_none = token_zero\<lparr>tk_type := HSH_TOK_NONE\<rparr>"

definition hsh_parser_exec ::
    "int \<Rightarrow> hsh_parser_s \<Rightarrow> hsh_buffer_s \<Rightarrow> int \<Rightarrow> (hsh_token_s \<times> hsh_parser_s \<times> hsh_buffer_s) result"
  where
  "hsh_parser_exec mv ps bf max_buf_capacity =
     (if HTTP_FLAG_CHECK (ps_flags ps) HSH_P_FLAG_DONE \<or> ps_sequence_id ps = bf_sequence_id bf
      then Inr (token_none, ps, bf)
      else bindr (scan_exec mv max_buf_capacity (bf_length bf)
                    \<lparr>x_cs = ps_state ps, x_p = bf_index bf, x_ps = ps, x_bf = bf\<rparr>) (\<lambda>x.
        let ps = (x_ps x)\<lparr>ps_state := x_cs x\<rparr>;
            bf = (x_bf x)\<lparr>bf_index := i32 (x_p x)\<rparr>
        in if HTTP_FLAG_CHECK (ps_flags ps) HSH_P_FLAG_TOKEN_READY
           then let ps = ps\<lparr>ps_flags := HTTP_FLAG_CLEAR (ps_flags ps) HSH_P_FLAG_TOKEN_READY\<rparr>
                in Inr (ps_token ps, ps, bf)
           else Inr (token_none, ps\<lparr>ps_sequence_id := bf_sequence_id bf\<rparr>, bf)))"

end
