(* ===== verification/Parser_Grammar.thy ===== *)
theory Parser_Grammar
  imports Parser
begin

text \<open>
  The grammar of \<^verbatim>\<open>src/src/parser.rl\<close> as a readable automaton: one constructor per
  position in the rules (\<open>request_line\<close>, \<open>header\<close>, \<open>headers\<close>, \<open>chunk\<close>,
  \<open>chunk_end\<close>, \<open>chunked_body\<close>, \<open>small_body\<close>, \<open>large_body\<close>), and a step
  function that names the next position and the actions the grammar embeds there. The theorem
  of this theory is that the compiled tables are this automaton, state by state and byte by
  byte, under the numbering \<open>gcode\<close>.

  The rule \<open>header\<close> is a union: a key is matched against \<open>Content-Length\<close> and
  \<open>Transfer-Encoding\<close> and against the general \<open>token\<close> at the same time, and the
  positions \<open>G_CL n\<close> and \<open>G_TE n\<close> stand for \<open>n\<close> matched letters of such a name.
  In \<open>chunk* zero_chunk\<close> the data of a chunk (\<open>any+\<close>) overlaps with the size line of
  the next one, and the positions \<open>G_Ck_*\<close> after the first data byte follow both readings
  at once.
\<close>

section \<open>Character classes\<close>

definition is_alpha :: "char \<Rightarrow> bool" where
  "is_alpha c \<longleftrightarrow> (65 \<le> c_int c \<and> c_int c \<le> 90) \<or> (97 \<le> c_int c \<and> c_int c \<le> 122)"

definition is_digit :: "char \<Rightarrow> bool" where
  "is_digit c \<longleftrightarrow> 48 \<le> c_int c \<and> c_int c \<le> 57"

definition is_xdigit :: "char \<Rightarrow> bool" where
  "is_xdigit c \<longleftrightarrow> is_digit c \<or> (65 \<le> c_int c \<and> c_int c \<le> 70) \<or> (97 \<le> c_int c \<and> c_int c \<le> 102)"

text \<open>The characters that the rule \<open>token\<close> excludes.\<close>

definition token_excluded :: "char \<Rightarrow> bool" where
  "token_excluded c \<longleftrightarrow>
     c \<in> set ''()<>@,;:'' \<or> c = CHR 0x5C \<or> c = CHR 0x22 \<or> c \<in> set ''/[]?={}'' \<or> c = CHR '' '' \<or> c = tab"

definition is_ows :: "char \<Rightarrow> bool" where
  "is_ows c \<longleftrightarrow> c = CHR '' '' \<or> c = tab"

definition to_lower :: "char \<Rightarrow> char" where
  "to_lower c = (if 65 \<le> c_int c \<and> c_int c \<le> 90 then char_of (c_int c + 32) else c)"

definition content_length_name :: string where "content_length_name = ''content-length''"
definition transfer_encoding_name :: string where "transfer_encoding_name = ''transfer-encoding''"
definition chunked_name :: string where "chunked_name = ''chunked''"
definition version_name :: string where "version_name = ''HTTP/1.''"

section \<open>Positions and steps\<close>

datatype (plugins only: ) gpos =
    G_Error
  | G_Start | G_Method
  | G_Target_Start | G_Target
  | G_Version nat | G_Version_Digit | G_Version_Cr | G_Version_Lf
  | G_Headers | G_Key | G_Colon | G_Ows | G_Value | G_Value_Lf | G_Next | G_Blank
  | G_CL nat | G_CL_Colon | G_CL_Ows | G_Empty_Lf | G_CL_Digits
  | G_TE nat | G_TE_Colon | G_TE_Ows | G_Chunked nat
  | G_End_Cr | G_End_Lf | G_End_Size_Start | G_End_Size | G_End_Size_Lf | G_End_Body
  | G_End_Zero_Cr | G_End_Zero_Lf
  | G_Ck_Size_Start | G_Ck_Size | G_Ck_Size_Lf | G_Ck_Body
  | G_Ck_Data | G_Ck_Data_Size | G_Ck_Data_Cr | G_Ck_Data_Lf | G_Ck_Data_Zeros
  | G_Ck_Data_Zeros_Cr | G_Ck_Zero | G_Ck_Zero_Cr | G_Ck_Only_Zero | G_Ck_Only_Zero_Cr
  | G_Small | G_Large | G_Done | G_End_Data | G_End_Final
  | G_Ck_Final_Zeros | G_Ck_Final_Zero | G_Ck_Only_Final
  | G_Small_Rest | G_Large_Rest

primrec gcode :: "gpos \<Rightarrow> nat" where
  "gcode G_Error = 0" | "gcode G_Start = 1" | "gcode G_Method = 2"
| "gcode G_Target_Start = 3" | "gcode G_Target = 4"
| "gcode (G_Version n) = 5 + n" | "gcode G_Version_Digit = 12" | "gcode G_Version_Cr = 13"
| "gcode G_Version_Lf = 14"
| "gcode G_Headers = 15" | "gcode G_Key = 16" | "gcode G_Colon = 17" | "gcode G_Ows = 18"
| "gcode G_Value = 19" | "gcode G_Value_Lf = 20" | "gcode G_Next = 21" | "gcode G_Blank = 22"
| "gcode (G_CL n) = 22 + n" | "gcode G_CL_Colon = 37" | "gcode G_CL_Ows = 38"
| "gcode G_Empty_Lf = 39" | "gcode G_CL_Digits = 40"
| "gcode (G_TE n) = 40 + n" | "gcode G_TE_Colon = 58" | "gcode G_TE_Ows = 59"
| "gcode (G_Chunked n) = 59 + n"
| "gcode G_End_Cr = 66" | "gcode G_End_Lf = 67" | "gcode G_End_Size_Start = 68"
| "gcode G_End_Size = 69" | "gcode G_End_Size_Lf = 70" | "gcode G_End_Body = 71"
| "gcode G_End_Zero_Cr = 72" | "gcode G_End_Zero_Lf = 73"
| "gcode G_Ck_Size_Start = 74" | "gcode G_Ck_Size = 75" | "gcode G_Ck_Size_Lf = 76"
| "gcode G_Ck_Body = 77" | "gcode G_Ck_Data = 78" | "gcode G_Ck_Data_Size = 79"
| "gcode G_Ck_Data_Cr = 80" | "gcode G_Ck_Data_Lf = 81" | "gcode G_Ck_Data_Zeros = 82"
| "gcode G_Ck_Data_Zeros_Cr = 83" | "gcode G_Ck_Zero = 84" | "gcode G_Ck_Zero_Cr = 85"
| "gcode G_Ck_Only_Zero = 86" | "gcode G_Ck_Only_Zero_Cr = 87"
| "gcode G_Small = 88" | "gcode G_Large = 89" | "gcode G_Done = 90" | "gcode G_End_Data = 91"
| "gcode G_End_Final = 92" | "gcode G_Ck_Final_Zeros = 93" | "gcode G_Ck_Final_Zero = 94"
| "gcode G_Ck_Only_Final = 95" | "gcode G_Small_Rest = 96" | "gcode G_Large_Rest = 97"

text \<open>The indexed positions that exist: a proper prefix of the name has been matched.\<close>

definition gpos_ok :: "gpos \<Rightarrow> bool" where
  "gpos_ok g \<longleftrightarrow>
     (case g of
        G_Error \<Rightarrow> False
      | G_Version n \<Rightarrow> n < 7
      | G_CL n \<Rightarrow> 1 \<le> n \<and> n \<le> 14
      | G_TE n \<Rightarrow> 1 \<le> n \<and> n \<le> 17
      | G_Chunked n \<Rightarrow> 1 \<le> n \<and> n \<le> 6
      | _ \<Rightarrow> True)"

text \<open>
  A byte inside a header key: the colon ends it, an excluded character is an error, and the
  next letter \<open>l\<close> of a known name leads on to \<open>g\<close>.
\<close>

definition key_step :: "(char \<Rightarrow> bool) \<Rightarrow> gpos \<Rightarrow> gpos \<Rightarrow> char \<Rightarrow> gpos \<times> act list" where
  "key_step l g after_colon c =
     (if c = CHR '':'' then (after_colon, [A_emit_token])
      else if token_excluded c then (G_Error, [A_error])
      else if l c then (g, [A_inc_count])
      else (G_Key, [A_inc_count]))"

text \<open>A byte that must be \<open>l\<close>.\<close>

definition expect :: "bool \<Rightarrow> gpos \<Rightarrow> act list \<Rightarrow> gpos \<times> act list" where
  "expect b g as = (if b then (g, as) else (G_Error, [A_error]))"

text \<open>The first byte of a key, which also tries both known names.\<close>

definition key_start :: "act list \<Rightarrow> char \<Rightarrow> gpos \<times> act list" where
  "key_start enter c =
     (if token_excluded c then (G_Error, [A_error])
      else if to_lower c = CHR ''c'' then (G_CL 1, enter)
      else if to_lower c = CHR ''t'' then (G_TE 1, enter)
      else (G_Key, enter))"

text \<open>A byte of chunk data that may also belong to the next size line.\<close>

definition ck_data_step :: "act list \<Rightarrow> char \<Rightarrow> gpos \<times> act list" where
  "ck_data_step pre c =
     (if c = cr then (G_Ck_Data_Cr, pre @ [A_chunk_read, A_chunk_start, A_chunk_size])
      else if c = CHR ''0'' then (G_Ck_Data_Zeros, [A_chunk_size] @ pre @ [A_chunk_read])
      else if is_xdigit c
           then (G_Ck_Data_Size, [A_chunk_size] @ pre @ [A_chunk_read, A_chunk_start])
      else (G_Ck_Data_Size, pre @ [A_chunk_read, A_chunk_start, A_chunk_size]))"

primrec gstep :: "gpos \<Rightarrow> char \<Rightarrow> gpos \<times> act list" where
  "gstep G_Start c = expect (is_alpha c) G_Method [A_method, A_inc_count]"
| "gstep G_Method c =
     (if c = CHR '' '' then (G_Target_Start, [A_emit_token])
      else expect (is_alpha c) G_Method [A_inc_count])"
| "gstep G_Target_Start c = expect (c \<noteq> CHR '' '') G_Target [A_target, A_inc_count]"
| "gstep G_Target c =
     (if c = CHR '' '' then (G_Version 0, [A_emit_token]) else (G_Target, [A_inc_count]))"
| "gstep (G_Version n) c =
     expect (c = version_name ! n) (if n < 6 then G_Version (n + 1) else G_Version_Digit)
       (if n = 0 then [A_version] else [])"
| "gstep G_Version_Digit c = expect (c = CHR ''0'' \<or> c = CHR ''1'') G_Version_Cr []"
| "gstep G_Version_Cr c = expect (c = cr) G_Version_Lf [A_emit_token]"
| "gstep G_Version_Lf c = expect (c = lf) G_Headers []"
| "gstep G_Headers c = key_start [A_reset_count, A_header_key, A_inc_count] c"
| "gstep G_Key c = key_step (\<lambda>_. False) G_Key G_Colon c"
| "gstep (G_CL n) c =
     (if n < 14
      then key_step (\<lambda>c. to_lower c = content_length_name ! n) (G_CL (n + 1)) G_Colon c
      else key_step (\<lambda>_. False) G_Key G_CL_Colon c)"
| "gstep (G_TE n) c =
     (if n < 17
      then key_step (\<lambda>c. to_lower c = transfer_encoding_name ! n) (G_TE (n + 1)) G_Colon c
      else key_step (\<lambda>_. False) G_Key G_TE_Colon c)"
| "gstep G_Colon c = expect (is_ows c) G_Ows []"
| "gstep G_CL_Colon c = expect (is_ows c) G_CL_Ows []"
| "gstep G_TE_Colon c = expect (is_ows c) G_TE_Ows []"
| "gstep G_Ows c =
     (if c = cr then (G_Empty_Lf, [A_header_value, A_inc_count, A_emit_token])
      else if is_ows c then (G_Ows, [A_header_value, A_inc_count])
      else (G_Value, [A_header_value, A_inc_count]))"
| "gstep G_CL_Ows c =
     (if c = cr then (G_Empty_Lf, [A_header_value, A_inc_count, A_emit_token])
      else if is_ows c then (G_CL_Ows, [A_header_value, A_inc_count])
      else if is_digit c then (G_CL_Digits, [A_content_length_digit, A_header_value, A_inc_count])
      else (G_Value, [A_header_value, A_inc_count]))"
| "gstep G_TE_Ows c =
     (if c = cr then (G_Empty_Lf, [A_header_value, A_inc_count, A_emit_token])
      else if is_ows c then (G_TE_Ows, [A_header_value, A_inc_count])
      else if c = CHR ''c'' then (G_Chunked 1, [A_header_value, A_inc_count])
      else (G_Value, [A_header_value, A_inc_count]))"
| "gstep G_Value c =
     (if c = cr then (G_Value_Lf, [A_emit_token])
      else expect (c \<noteq> lf) G_Value [A_inc_count])"
| "gstep G_CL_Digits c =
     (if c = cr then (G_Value_Lf, [A_emit_token])
      else if is_digit c then (G_CL_Digits, [A_content_length_digit, A_inc_count])
      else expect (c \<noteq> lf) G_Value [A_inc_count])"
| "gstep (G_Chunked n) c =
     (if c = cr then (G_Value_Lf, [A_emit_token])
      else if c = chunked_name ! n
           then (if n < 6 then (G_Chunked (n + 1), [A_inc_count])
                 else (G_Value, [A_transfer_encoding, A_inc_count]))
      else expect (c \<noteq> lf) G_Value [A_inc_count])"
| "gstep G_Empty_Lf c =
     (if c = lf then (G_Next, [A_inc_count])
      else if c = cr then (G_Value_Lf, [A_emit_token])
      else (G_Value, [A_inc_count]))"
| "gstep G_Value_Lf c = expect (c = lf) G_Next [A_inc_count]"
| "gstep G_Next c =
     (if c = cr then (G_Blank, [A_header_key, A_reset_count, A_inc_count])
      else key_start [A_header_key, A_reset_count, A_inc_count] c)"
| "gstep G_Blank c =
     (if c = lf then (G_Done, [A_inc_count, A_done_headers])
      else key_step (\<lambda>_. False) G_Key G_Colon c)"
| "gstep G_Done c = key_step (\<lambda>_. False) G_Key G_Colon c"
| "gstep G_End_Cr c = expect (c = cr) G_End_Lf []"
| "gstep G_End_Lf c = expect (c = lf) G_End_Size_Start []"
| "gstep G_End_Size_Start c =
     (if c = CHR ''0'' then (G_End_Zero_Cr, []) else (G_End_Size, [A_chunk_start, A_chunk_size]))"
| "gstep G_End_Size c =
     (if c = cr then (G_End_Size_Lf, []) else expect (is_xdigit c) G_End_Size [A_chunk_size])"
| "gstep G_End_Size_Lf c = expect (c = lf) G_End_Body []"
| "gstep G_End_Body c = (G_End_Data, [A_body, A_chunk_read])"
| "gstep G_End_Data c = (G_End_Data, [A_chunk_read])"
| "gstep G_End_Zero_Cr c = expect (c = cr) G_End_Zero_Lf []"
| "gstep G_End_Zero_Lf c = expect (c = lf) G_End_Final [A_end_stream]"
| "gstep G_End_Final c = (G_Error, [A_error])"
| "gstep G_Ck_Size_Start c =
     (if c = CHR ''0'' then (G_Ck_Only_Zero, []) else (G_Ck_Size, [A_chunk_start, A_chunk_size]))"
| "gstep G_Ck_Size c =
     (if c = cr then (G_Ck_Size_Lf, []) else expect (is_xdigit c) G_Ck_Size [A_chunk_size])"
| "gstep G_Ck_Size_Lf c = expect (c = lf) G_Ck_Body []"
| "gstep G_Ck_Only_Zero c = expect (c = cr) G_Ck_Only_Zero_Cr []"
| "gstep G_Ck_Only_Zero_Cr c = expect (c = lf) G_Ck_Only_Final [A_end_stream]"
| "gstep G_Ck_Only_Final c = (G_Error, [A_error])"
| "gstep G_Ck_Body c = (G_Ck_Data, [A_body, A_chunk_read])"
| "gstep G_Ck_Data c =
     (if c = CHR ''0'' then (G_Ck_Zero, [A_chunk_read])
      else (G_Ck_Data_Size, [A_chunk_read, A_chunk_start, A_chunk_size]))"
| "gstep G_Ck_Data_Size c = ck_data_step [] c"
| "gstep G_Ck_Data_Cr c =
     (if c = lf then (G_Ck_Data_Lf, [A_chunk_read, A_chunk_start, A_chunk_size])
      else ck_data_step [] c)"
| "gstep G_Ck_Data_Lf c = ck_data_step [A_body] c"
| "gstep G_Ck_Data_Zeros c =
     (if c = cr then (G_Ck_Data_Zeros_Cr, [A_chunk_read, A_chunk_start, A_chunk_size])
      else ck_data_step [] c)"
| "gstep G_Ck_Data_Zeros_Cr c =
     (if c = lf then (G_Ck_Final_Zeros, [A_chunk_read, A_chunk_start, A_chunk_size, A_end_stream])
      else ck_data_step [] c)"
| "gstep G_Ck_Zero c =
     (if c = cr then (G_Ck_Zero_Cr, [A_chunk_read, A_chunk_start, A_chunk_size])
      else if c = CHR ''0'' then (G_Ck_Zero, [A_chunk_read])
      else (G_Ck_Data_Size, [A_chunk_read, A_chunk_start, A_chunk_size]))"
| "gstep G_Ck_Zero_Cr c =
     (if c = lf then (G_Ck_Final_Zero, [A_chunk_read, A_chunk_start, A_chunk_size, A_end_stream])
      else ck_data_step [] c)"
| "gstep G_Ck_Final_Zeros c = ck_data_step [A_body] c"
| "gstep G_Ck_Final_Zero c = ck_data_step [] c"
| "gstep G_Small c = (G_Small_Rest, [A_body, A_small_body_read])"
| "gstep G_Small_Rest c = (G_Small_Rest, [A_small_body_read])"
| "gstep G_Large c = (G_Large_Rest, [A_body, A_large_body_read])"
| "gstep G_Large_Rest c = (G_Large_Rest, [A_large_body_read])"
| "gstep G_Error c = (G_Error, [])"


section \<open>The compiled tables are the grammar\<close>

lemma c_int_Char: "c_int (Char b0 b1 b2 b3 b4 b5 b6 b7) =
    of_bool b0 + 2 * of_bool b1 + 4 * of_bool b2 + 8 * of_bool b3 + 16 * of_bool b4
    + 32 * of_bool b5 + 64 * of_bool b6 - 128 * of_bool b7"
  by (auto simp: c_int_def Let_def)

lemma char_eq_c_int: "c = d \<longleftrightarrow> c_int c = c_int d"
  by simp

lemma c_int_to_lower:
  "c_int (to_lower c) = (if 65 \<le> c_int c \<and> c_int c \<le> 90 then c_int c + 32 else c_int c)"
proof -
  have "c_int (char_of (c_int c + 32)) = c_int c + 32" if "65 \<le> c_int c" "c_int c \<le> 90"
    using that by (simp add: c_int_def [of "char_of _"] Let_def)
  then show ?thesis by (simp add: to_lower_def)
qed

lemma to_lower_eq_iff: "to_lower c = d \<longleftrightarrow> c_int (to_lower c) = c_int d"
  by simp

lemma range_cases:
  "58 \<le> v \<and> v \<le> 64 \<longleftrightarrow> v = 58 \<or> v = 59 \<or> v = 60 \<or> v = 61 \<or> v = 62 \<or> v = 63 \<or> v = 64"
  "91 \<le> v \<and> v \<le> 93 \<longleftrightarrow> v = 91 \<or> v = 92 \<or> v = (93::int)"
  by auto

lemma token_excluded_c_int: "token_excluded c \<longleftrightarrow>
    c_int c = 9 \<or> c_int c = 32 \<or> c_int c = 34 \<or> c_int c = 40 \<or> c_int c = 41 \<or> c_int c = 44 \<or> c_int c = 47
    \<or> (58 \<le> c_int c \<and> c_int c \<le> 64) \<or> (91 \<le> c_int c \<and> c_int c \<le> 93) \<or> c_int c = 123 \<or> c_int c = 125"
  by (simp add: token_excluded_def char_eq_c_int c_int_Char tab_def range_cases del: c_int_eq_iff) blast

text \<open>The equation between a row and a grammar step, as arithmetic on the byte.\<close>

lemmas grammar_eqs =
  hsh_trans_eval lookup_row_def key_step_def key_start_def expect_def ck_data_step_def
  is_ows_def is_alpha_def is_digit_def is_xdigit_def token_excluded_c_int
  to_lower_eq_iff c_int_to_lower cr_def lf_def tab_def
  content_length_name_def transfer_encoding_name_def chunked_name_def version_name_def

lemma upto_cases:
  "n < 7 \<longleftrightarrow> n \<in> {0, 1, 2, 3, 4, 5, 6 :: nat}"
  "1 \<le> n \<and> n \<le> 6 \<longleftrightarrow> n \<in> {1, 2, 3, 4, 5, 6 :: nat}"
  "1 \<le> n \<and> n \<le> 14 \<longleftrightarrow> n \<in> {1, 2, 3, 4, 5, 6, 7, 8, 9, 10, 11, 12, 13, 14 :: nat}"
  "1 \<le> n \<and> n \<le> 17 \<longleftrightarrow> n \<in> {1, 2, 3, 4, 5, 6, 7, 8, 9, 10, 11, 12, 13, 14, 15, 16, 17 :: nat}"
  by (simp_all only: insert_iff empty_iff) presburger+

lemma grammar_indexed:
  "n < 7 \<Longrightarrow> hsh_trans (5 + n) c
     = (gcode (fst (gstep (G_Version n) c)), snd (gstep (G_Version n) c))"
  "1 \<le> n \<and> n \<le> 6 \<Longrightarrow> hsh_trans (59 + n) c
     = (gcode (fst (gstep (G_Chunked n) c)), snd (gstep (G_Chunked n) c))"
  "1 \<le> n \<and> n \<le> 14 \<Longrightarrow> hsh_trans (22 + n) c
     = (gcode (fst (gstep (G_CL n) c)), snd (gstep (G_CL n) c))"
  "1 \<le> n \<and> n \<le> 17 \<Longrightarrow> hsh_trans (40 + n) c
     = (gcode (fst (gstep (G_TE n) c)), snd (gstep (G_TE n) c))"
  unfolding upto_cases
  by (elim insertE emptyE;
      simp add: grammar_eqs char_eq_c_int [of c] c_int_Char del: c_int_eq_iff)+

lemma hsh_trans_gstep:
  assumes "gpos_ok g"
  shows "hsh_trans (gcode g) c = (gcode (fst (gstep g c)), snd (gstep g c))"
  using assms
  by (cases g)
     (simp_all add: gpos_ok_def grammar_indexed grammar_eqs char_eq_c_int [of c] c_int_Char
       del: c_int_eq_iff)

text \<open>Every live state of the tables is a position of the grammar.\<close>

definition all_gpos :: "gpos list" where
  "all_gpos =
     [G_Start, G_Method, G_Target_Start, G_Target] @ map G_Version [0..<7]
     @ [G_Version_Digit, G_Version_Cr, G_Version_Lf, G_Headers, G_Key, G_Colon, G_Ows, G_Value,
        G_Value_Lf, G_Next, G_Blank] @ map G_CL [1..<15]
     @ [G_CL_Colon, G_CL_Ows, G_Empty_Lf, G_CL_Digits] @ map G_TE [1..<18]
     @ [G_TE_Colon, G_TE_Ows] @ map G_Chunked [1..<7]
     @ [G_End_Cr, G_End_Lf, G_End_Size_Start, G_End_Size, G_End_Size_Lf, G_End_Body,
        G_End_Zero_Cr, G_End_Zero_Lf, G_Ck_Size_Start, G_Ck_Size, G_Ck_Size_Lf, G_Ck_Body,
        G_Ck_Data, G_Ck_Data_Size, G_Ck_Data_Cr, G_Ck_Data_Lf, G_Ck_Data_Zeros,
        G_Ck_Data_Zeros_Cr, G_Ck_Zero, G_Ck_Zero_Cr, G_Ck_Only_Zero, G_Ck_Only_Zero_Cr,
        G_Small, G_Large, G_Done, G_End_Data, G_End_Final, G_Ck_Final_Zeros, G_Ck_Final_Zero,
        G_Ck_Only_Final, G_Small_Rest, G_Large_Rest]"

lemma gcode_all_gpos: "map gcode all_gpos = [1..<98]"
proof -
  have "[1..<98] = map (\<lambda>i. i) [1..<98]" by simp
  also have "\<dots> = [1, 2, 3, 4] @ map (\<lambda>n. 5 + n) [0..<7] @ [12..<23] @ map (\<lambda>n. 22 + n) [1..<15]
      @ [37..<41] @ map (\<lambda>n. 40 + n) [1..<18] @ [58, 59] @ map (\<lambda>n. 59 + n) [1..<7] @ [66..<98]"
    by (simp add: upt_conv_Cons numeral_2_eq_2 map_add_upt)
  finally show ?thesis
    by (simp add: all_gpos_def o_def)
qed

lemma all_gpos_ok: "list_all gpos_ok all_gpos"
  by (auto simp: all_gpos_def gpos_ok_def list_all_iff)

lemma live_state_gpos:
  assumes "0 < cs" and "cs < 98"
  obtains g where "gpos_ok g" and "gcode g = cs"
proof -
  have "cs \<in> set (map gcode all_gpos)" using assms by (simp only: gcode_all_gpos) simp
  then obtain g where "g \<in> set all_gpos" and "gcode g = cs" by auto
  with all_gpos_ok that show ?thesis by (auto simp: list_all_iff)
qed

text \<open>
  C4. The compiled tables are the grammar. Every live state of the generated automaton is a
  position of the rules in \<^verbatim>\<open>parser.rl\<close>, and for every byte the transition found
  by the binary searches over the compressed tables leads to the position, and runs the actions,
  that the rules prescribe there.
\<close>

theorem tables_are_grammar:
  assumes "hsh_http_error < cs" and "cs < 98"
  shows "\<exists>g. gpos_ok g \<and> gcode g = cs
    \<and> (\<forall>c. hsh_trans cs c = (gcode (fst (gstep g c)), snd (gstep g c)))"
proof -
  from assms obtain g where "gpos_ok g" and "gcode g = cs"
    using live_state_gpos by (auto simp: hsh_http_error_def)
  with hsh_trans_gstep show ?thesis by blast
qed

theorem tables_are_grammar_witness:
  "\<exists>g. gpos_ok g \<and> gcode g = hsh_http_start
    \<and> (\<forall>c. hsh_trans hsh_http_start c = (gcode (fst (gstep g c)), snd (gstep g c)))"
  using tables_are_grammar [of hsh_http_start] by (simp add: hsh_http_start_def hsh_http_error_def)

end
