(* ===== verification/Parser_Run.thy ===== *)
theory Parser_Run
  imports Parser
begin

text \<open>
  The scanning loop as a run over the list of bytes it reads. \<open>run_bytes\<close> is a fold over
  that list; \<open>scan_run_bytes\<close> shows that the loop over the buffer computes it, so the
  properties of the parser are inductions over lists. The second half is about the transitions
  as a finite set of edges: a check of every edge lifts to every state and byte.
\<close>

section \<open>Runs over bytes\<close>

text \<open>One pass of the loop, for the byte \<open>c\<close> under the cursor.\<close>

definition byte_step :: "int \<Rightarrow> int \<Rightarrow> int \<Rightarrow> char \<Rightarrow> xst \<Rightarrow> ctl result" where
  "byte_step mv mx pe c x =
     (case run_actions mv mx pe c (snd (hsh_trans (x_cs x) c))
             (x\<lparr>x_cs := fst (hsh_trans (x_cs x) c)\<rparr>) of
        Inl e \<Rightarrow> Inl e
      | Inr (Stop y) \<Rightarrow> Inr (Stop y)
      | Inr (Cont y) \<Rightarrow> if x_cs y = hsh_http_error then Inr (Stop y)
                      else Inr (Cont (y\<lparr>x_p := x_p y + 1\<rparr>)))"

fun run_bytes :: "int \<Rightarrow> int \<Rightarrow> int \<Rightarrow> char list \<Rightarrow> xst \<Rightarrow> ctl result" where
  "run_bytes mv mx pe [] x = Inr (Cont x)"
| "run_bytes mv mx pe (c # cs) x =
     (case byte_step mv mx pe c x of
        Inl e \<Rightarrow> Inl e
      | Inr (Stop y) \<Rightarrow> Inr (Stop y)
      | Inr (Cont y) \<Rightarrow> run_bytes mv mx pe cs y)"

text \<open>The state in which a run leaves the loop.\<close>

fun ctl_state :: "ctl \<Rightarrow> xst" where
  "ctl_state (Cont x) = x"
| "ctl_state (Stop x) = x"

lemma byte_step_Cont:
  "byte_step mv mx pe c x = Inr (Cont y) \<Longrightarrow>
     x_p y = x_p x + 1 \<and> x_bf y = x_bf x \<and> x_cs y = fst (hsh_trans (x_cs x) c)
       \<and> x_cs y \<noteq> hsh_http_error"
  by (auto simp: byte_step_def split: sum.splits ctl.splits if_splits dest!: run_actions_Cont)

lemma run_bytes_append:
  "run_bytes mv mx pe (xs @ ys) x =
     (case run_bytes mv mx pe xs x of
        Inl e \<Rightarrow> Inl e
      | Inr (Stop y) \<Rightarrow> Inr (Stop y)
      | Inr (Cont y) \<Rightarrow> run_bytes mv mx pe ys y)"
  by (induction xs arbitrary: x) (auto split: sum.splits ctl.splits)

lemma run_bytes_Cont:
  "run_bytes mv mx pe xs x = Inr (Cont y) \<Longrightarrow>
     x_p y = x_p x + int (length xs) \<and> x_bf y = x_bf x"
  by (induction xs arbitrary: x) (force split: sum.splits ctl.splits dest: byte_step_Cont)+

text \<open>
  The loop over a buffer whose first bytes are \<open>data\<close> runs over the bytes between the
  cursor and \<open>pe\<close>.
\<close>

lemma scan_run_bytes:
  assumes "holds (bf_buf (x_bf x)) data" and "0 \<le> x_p x" and "x_p x < pe"
    and "pe \<le> int (length data)"
  shows "scan mv mx pe x =
    (case run_bytes mv mx pe (take (nat (pe - x_p x)) (drop (nat (x_p x)) data)) x of
       Inl e \<Rightarrow> Inl e | Inr r \<Rightarrow> Inr (ctl_state r))"
  using assms
proof (induction mv mx pe x rule: scan.induct)
  case (1 mv mx pe x)
  let ?p = "nat (x_p x)"
  let ?c = "data ! ?p"
  have p: "?p < length data" using "1.prems" by linarith
  have rd: "rd (bf_buf (x_bf x)) (x_p x) = Inr ?c"
    using "1.prems" by (intro rd_holds) auto
  have seg: "take (nat (pe - x_p x)) (drop ?p data)
      = ?c # take (nat (pe - (x_p x + 1))) (drop (nat (x_p x + 1)) data)"
  proof -
    have n: "nat (pe - x_p x) = Suc (nat (pe - (x_p x + 1)))" "nat (x_p x + 1) = Suc ?p"
      using "1.prems" by linarith+
    show ?thesis by (simp add: n Cons_nth_drop_Suc [OF p, symmetric])
  qed
  show ?case
  proof (cases "run_actions mv mx pe ?c (snd (hsh_trans (x_cs x) ?c))
      (x\<lparr>x_cs := fst (hsh_trans (x_cs x) ?c)\<rparr>)")
    case (Inl e)
    then show ?thesis by (simp add: scan.simps [of mv mx pe x] rd seg byte_step_def)
  next
    case (Inr r)
    show ?thesis
    proof (cases r)
      case (Stop y)
      with Inr show ?thesis by (simp add: scan.simps [of mv mx pe x] rd seg byte_step_def)
    next
      case (Cont y)
      have y: "x_p y = x_p x" "x_bf y = x_bf x"
        using run_actions_Cont [OF Inr [unfolded Cont]] by simp_all
      show ?thesis
      proof (cases "x_cs y = hsh_http_error \<or> x_p y + 1 = pe")
        case True
        then show ?thesis
          using Inr Cont y by (auto simp: scan.simps [of mv mx pe x] rd seg byte_step_def)
      next
        case False
        then have ne: "x_cs y \<noteq> hsh_http_error" "x_p y + 1 \<noteq> pe" by auto
        have "scan mv mx pe (y\<lparr>x_p := x_p y + 1\<rparr>) =
          (case run_bytes mv mx pe (take (nat (pe - (x_p x + 1))) (drop (nat (x_p x + 1)) data))
             (y\<lparr>x_p := x_p y + 1\<rparr>) of Inl e \<Rightarrow> Inl e | Inr r \<Rightarrow> Inr (ctl_state r))"
          using "1.IH" [OF rd Inr Cont ne] "1.prems" y ne by simp
        with Inr Cont ne show ?thesis
          by (simp add: scan.simps [of mv mx pe x] rd seg byte_step_def)
      qed
    qed
  qed
qed

section \<open>Edges\<close>

text \<open>
  \<open>all_edges P\<close> checks \<open>P\<close> on every transition of every live state: finitely many,
  whatever the byte.
\<close>

definition all_edges :: "(nat \<Rightarrow> nat \<Rightarrow> act list \<Rightarrow> bool) \<Rightarrow> bool" where
  "all_edges P \<longleftrightarrow>
     list_all (\<lambda>(cs, r). list_all (\<lambda>t. P cs (fst (hsh_edge t)) (snd (hsh_edge t))) (row_slots r))
       (zip [1..<98] (tl hsh_rows))"

lemma row_pick_in_slots: "length ks + length rs < length ts \<Longrightarrow> row_pick ks rs ts x \<in> set ts"
  by (induction ks rs ts x rule: row_pick.induct) auto

lemma all_edgesD:
  assumes "all_edges P" and "0 < cs" and "cs < 98"
  shows "P cs (fst (hsh_trans cs c)) (snd (hsh_trans cs c))"
proof -
  obtain ks rs ts where r: "hsh_rows ! cs = (ks, rs, ts)" by (cases "hsh_rows ! cs")
  have idx: "cs - 1 < length (zip [1..<98] (tl hsh_rows))" using assms by simp
  have nth: "zip [1..<98] (tl hsh_rows) ! (cs - 1) = (cs, (ks, rs, ts))"
    using assms r by (simp add: nth_tl)
  have "(ks, rs, ts) \<in> set (tl hsh_rows)"
    using assms r nth_mem [of "cs - 1" "tl hsh_rows"] by (simp add: nth_tl)
  then have "row_wf (ks, rs, ts)" using hsh_rows_wf by (simp add: list_all_iff)
  then have "row_pick ks rs ts (c_int c) \<in> set ts"
    by (intro row_pick_in_slots) (auto simp: row_wf_def)
  moreover have "list_all (\<lambda>t. P cs (fst (hsh_edge t)) (snd (hsh_edge t))) ts"
    using assms(1) nth_mem [OF idx] unfolding all_edges_def nth
    by (auto simp: list_all_iff row_slots_def)
  ultimately show ?thesis
    using assms by (simp add: hsh_trans_row lookup_row_def r list_all_iff)
qed

text \<open>Every edge of a live state leads to a state of the table.\<close>

lemma live_states: "[Suc 0..<98] = Suc 0 # [2..<98]"
  by (simp add: upt_conv_Cons numeral_2_eq_2)

lemmas all_edges_eval = all_edges_def hsh_rows_def row_slots_def live_states

lemma edges_in_table: "all_edges (\<lambda>cs t as. t < 98)"
  by (simp add: all_edges_eval)

end
