(* ===== verification/Parser_Safety.thy ===== *)
theory Parser_Safety
  imports Parser_Run
begin

text \<open>
  Memory safety of one call of the parser. The induction over the scanning loop is done once,
  in the locale \<open>scan_contract\<close>: a client names an invariant of the loop and a
  postcondition and shows that a single byte keeps them. The first client is the memory
  contract: from a well-formed buffer and parser, a call reads only bytes that have arrived,
  writes only inside the block and leaves a well-formed state again, with the exceptions that
  the postcondition names; one of them is the cursor left behind when \<open>realloc\<close> moves the
  block.
\<close>

section \<open>The loop rule\<close>

locale scan_contract =
  fixes mv mx pe :: int
    and I :: "xst \<Rightarrow> bool"
    and Q :: "xst result \<Rightarrow> bool"
  assumes readable: "I x \<Longrightarrow> x_p x < pe \<Longrightarrow> \<exists>c. rd (bf_buf (x_bf x)) (x_p x) = Inr c"
    and cont: "I x \<Longrightarrow> x_p x < pe \<Longrightarrow> byte_step mv mx pe c x = Inr (Cont y) \<Longrightarrow> I y"
    and stop: "I x \<Longrightarrow> x_p x < pe \<Longrightarrow> byte_step mv mx pe c x = Inr (Stop y) \<Longrightarrow> Q (Inr y)"
    and fault: "I x \<Longrightarrow> x_p x < pe \<Longrightarrow> byte_step mv mx pe c x = Inl e \<Longrightarrow> Q (Inl e)"
    and at_end: "I x \<Longrightarrow> x_p x = pe \<Longrightarrow> Q (Inr x)"
begin

lemma scan_rule: "I x \<Longrightarrow> x_p x < pe \<Longrightarrow> Q (scan mv mx pe x)"
proof (induction "nat (pe - x_p x)" arbitrary: x rule: less_induct)
  case less
  obtain c where rd: "rd (bf_buf (x_bf x)) (x_p x) = Inr c"
    using readable less.prems by blast
  have unf: "scan mv mx pe x = (case byte_step mv mx pe c x of
      Inl e \<Rightarrow> Inl e
    | Inr (Stop y) \<Rightarrow> Inr y
    | Inr (Cont y) \<Rightarrow> if x_p y = pe then Inr y else scan mv mx pe y)"
    by (subst scan.simps) (auto simp: rd byte_step_def split: sum.splits ctl.splits)
  show ?case
  proof (cases "byte_step mv mx pe c x")
    case (Inl e)
    with fault less.prems show ?thesis by (simp add: unf)
  next
    case (Inr r)
    show ?thesis
    proof (cases r)
      case (Stop y)
      with stop less.prems Inr show ?thesis by (simp add: unf)
    next
      case (Cont y)
      have y: "I y" "x_p y = x_p x + 1"
        using cont less.prems Inr Cont byte_step_Cont by auto
      show ?thesis
      proof (cases "x_p y = pe")
        case True
        then have "scan mv mx pe x = Inr y" using unf Inr Cont by simp
        with at_end y True show ?thesis by simp
      next
        case False
        then have "x_p y < pe" using y less.prems by linarith
        moreover have "nat (pe - x_p y) < nat (pe - x_p x)" using y less.prems by linarith
        ultimately show ?thesis
          using less.hyps y(1) False Inr Cont by (simp add: unf)
      qed
    qed
  qed
qed

lemma scan_exec_rule:
  assumes "I x" and "x_p x \<le> pe" and "x_cs x \<noteq> hsh_http_error" and "bf_buf (x_bf x) \<noteq> None"
  shows "Q (scan_exec mv mx pe x)"
  using assms scan_rule [of x] at_end [of x] by (auto simp: scan_exec_def test_eof_def)

end

section \<open>Well-formed buffers\<close>

text \<open>
  The block has the recorded capacity, the first \<open>bf_length\<close> bytes of it are written, and
  the offset behind the headers is inside that part.
\<close>

definition written :: "'a block \<Rightarrow> nat \<Rightarrow> bool" where
  "written b n \<longleftrightarrow> n \<le> length b \<and> list_all (\<lambda>c. c \<noteq> None) (take n b)"

lemma written_iff: "written b n \<longleftrightarrow> n \<le> length b \<and> (\<forall>i < n. b ! i \<noteq> None)"
  by (auto simp: written_def list_all_length min_def)

definition block_ok :: "hsh_buffer_s \<Rightarrow> bool" where
  "block_ok bf \<longleftrightarrow>
     (case bf_buf bf of None \<Rightarrow> False
      | Some b \<Rightarrow> bf_capacity bf = int (length b) \<and> 0 \<le> bf_length bf
          \<and> written b (nat (bf_length bf)))
     \<and> bf_capacity bf < 2147483647
     \<and> 0 \<le> bf_after_headers_index bf \<and> bf_after_headers_index bf \<le> bf_length bf"

text \<open>The states whose transitions read chunk data under a token entered before.\<close>

definition data_state :: "nat \<Rightarrow> bool" where
  "data_state cs \<longleftrightarrow> (78 \<le> cs \<and> cs \<le> 85) \<or> cs = 91 \<or> cs = 94"

text \<open>What a call of the parser expects and, up to the exceptions, leaves behind.\<close>

definition parser_ok :: "hsh_parser_s \<Rightarrow> hsh_buffer_s \<Rightarrow> bool" where
  "parser_ok ps bf \<longleftrightarrow>
     block_ok bf \<and> bf_after_headers_index bf \<le> bf_index bf \<and> bf_index bf \<le> bf_length bf
     \<and> ps_state ps < 98
     \<and> - 9223372036854775808 \<le> ps_content_length ps
     \<and> ps_content_length ps < 9223372036854775808
     \<and> (data_state (ps_state ps) \<longrightarrow> HTTP_FLAG_CHECK (ps_flags ps) HSH_P_FLAG_DONE
          \<or> bf_after_headers_index bf \<le> tk_index (ps_token ps))"

lemma block_okE:
  assumes "block_ok bf"
  obtains b l a where "bf_buf bf = Some b" and "bf_capacity bf = int (length b)"
    and "bf_length bf = int l" and "bf_after_headers_index bf = int a" and "a \<le> l"
    and "written b l" and "length b < 2147483647"
proof -
  from assms obtain b where "bf_buf bf = Some b" by (auto simp: block_ok_def split: option.splits)
  with assms that [of b "nat (bf_length bf)" "nat (bf_after_headers_index bf)"] show ?thesis
    by (auto simp: block_ok_def)
qed

lemma block_okI:
  assumes "bf_buf bf = Some b" and "bf_capacity bf = int (length b)"
    and "bf_length bf = int l" and "bf_after_headers_index bf = int a" and "a \<le> l"
    and "written b l" and "length b < 2147483647"
  shows "block_ok bf"
  using assms by (simp add: block_ok_def)

lemma block_ok_rd:
  assumes "block_ok bf" and "0 \<le> i" and "i < bf_length bf"
  shows "\<exists>c. rd (bf_buf bf) i = Inr c"
  using assms(1)
proof (rule block_okE)
  fix b l assume b: "bf_buf bf = Some b" "bf_length bf = int l" "written b l"
  then have "nat i < l" using assms by linarith
  with b assms show ?thesis by (auto simp: rd_def written_iff split: option.splits)
qed

lemma block_ok_shrink:
  assumes "block_ok bf" and "bf_after_headers_index bf \<le> n" and "n \<le> bf_length bf"
  shows "block_ok (bf\<lparr>bf_length := n\<rparr>)"
  using assms(1)
proof (rule block_okE)
  fix b l a
  assume "bf_buf bf = Some b" "bf_capacity bf = int (length b)" "bf_length bf = int l"
    "bf_after_headers_index bf = int a" "a \<le> l" "written b l" "length b < 2147483647"
  with assms show ?thesis
    by (intro block_okI [where b = b and l = "nat n" and a = a]) (auto simp: written_iff)
qed

lemma block_ok_after:
  assumes "block_ok bf" and "0 \<le> n" and "n \<le> bf_length bf"
  shows "block_ok (bf\<lparr>bf_after_headers_index := n\<rparr>)"
  using assms(1)
proof (rule block_okE)
  fix b l a
  assume "bf_buf bf = Some b" "bf_capacity bf = int (length b)" "bf_length bf = int l"
    "bf_after_headers_index bf = int a" "a \<le> l" "written b l" "length b < 2147483647"
  with assms show ?thesis
    by (intro block_okI [where b = b and l = l and a = "nat n"]) auto
qed

lemma block_ok_realloc:
  assumes "block_ok bf" and "bf_capacity bf \<le> n" and "n < 2147483647"
  shows "block_ok (bf\<lparr>bf_buf := realloc_block (bf_buf bf) n, bf_capacity := n\<rparr>)"
  using assms(1)
proof (rule block_okE)
  fix b l a
  assume b: "bf_buf bf = Some b" "bf_capacity bf = int (length b)" "bf_length bf = int l"
    "bf_after_headers_index bf = int a" "a \<le> l" "written b l" "length b < 2147483647"
  let ?b = "b @ replicate (nat n - length b) None"
  have n: "length b \<le> nat n" "0 \<le> n" using assms b by linarith+
  then have "realloc_block (Some b) n = Some ?b" by (simp add: realloc_block_def)
  moreover have "written ?b l" using b(6) by (auto simp: written_iff nth_append)
  ultimately show ?thesis
    using assms b n by (intro block_okI [where b = ?b and l = l and a = a]) auto
qed

lemma block_ok_memcpy:
  assumes "block_ok bf" and "bf_after_headers_index bf \<le> p" and "p < bf_length bf"
  shows "(\<exists>m. memcpy_within (bf_buf bf) (bf_after_headers_index bf) p (bf_length bf - p) = Inr m
            \<and> block_ok (bf\<lparr>bf_buf := m, bf_length := bf_after_headers_index bf + (bf_length bf - p)\<rparr>))
       \<or> memcpy_within (bf_buf bf) (bf_after_headers_index bf) p (bf_length bf - p)
           = Inl Overlapping_Copy"
  using assms(1)
proof (rule block_okE)
  fix b l a
  assume b: "bf_buf bf = Some b" "bf_capacity bf = int (length b)" "bf_length bf = int l"
    "bf_after_headers_index bf = int a" "a \<le> l" "written b l" "length b < 2147483647"
  define q where "q = nat p"
  have p: "p = int q" "a \<le> q" "q < l" using assms b by (auto simp: q_def)
  have lb: "l \<le> length b" using b(6) by (simp add: written_def)
  let ?xs = "take (l - q) (drop q b)"
  let ?b = "take a b @ ?xs @ drop (a + (l - q)) b"
  have c: "cells (bf_buf bf) p (bf_length bf - p) = Inr ?xs"
    using p b lb by (simp add: cells_def nat_diff_distrib)
  have st: "store (bf_buf bf) (bf_after_headers_index bf) ?xs = Inr (Some ?b)"
    using p b lb by (simp add: store_def)
  have w: "written ?b (a + (l - q))"
    using b(5,6) lb p by (auto simp: written_iff nth_append)
  have len: "length ?b = length b" using p lb by simp
  have "block_ok (bf\<lparr>bf_buf := Some ?b, bf_length := int a + (int l - int q)\<rparr>)"
    using b p len w by (intro block_okI [where b = ?b and l = "a + (l - q)" and a = a]) auto
  then show ?thesis
    using c st b p by (auto simp: memcpy_within_def)
qed

section \<open>One byte keeps the contract\<close>

text \<open>
  \<open>acts_safe b t as\<close>: in the action list \<open>as\<close> of an edge to \<open>t\<close>, chunk data is
  read only under a token that has been entered (\<open>b\<close>: it was entered before this byte), and
  an edge into a state that reads chunk data enters it.
\<close>

fun acts_safe :: "bool \<Rightarrow> nat \<Rightarrow> act list \<Rightarrow> bool" where
  "acts_safe b t [] \<longleftrightarrow> (data_state t \<longrightarrow> b)"
| "acts_safe b t (a # as) \<longleftrightarrow>
     (if a = A_body then acts_safe True t as
      else if a = A_chunk_read then b \<and> acts_safe b t as
      else if a \<in> {A_emit_token, A_inc_count, A_done_headers, A_small_body_read,
                   A_large_body_read, A_error}
           then \<not> data_state t \<and> acts_safe b t as
      else acts_safe b t as)"

lemma edges_acts_safe: "all_edges (\<lambda>cs t as. acts_safe (data_state cs) t as)"
  by (simp add: all_edges_eval data_state_def)

definition cl_range :: "hsh_parser_s \<Rightarrow> bool" where
  "cl_range ps \<longleftrightarrow> - 9223372036854775808 \<le> ps_content_length ps
     \<and> ps_content_length ps < 9223372036854775808"

definition mid_inv :: "hsh_buffer_s \<Rightarrow> bool \<Rightarrow> xst \<Rightarrow> bool" where
  "mid_inv bf b x \<longleftrightarrow>
     x_bf x = bf \<and> bf_after_headers_index bf \<le> x_p x \<and> x_p x < bf_length bf
     \<and> x_cs x < 98 \<and> cl_range (x_ps x)
     \<and> (b \<longrightarrow> bf_after_headers_index bf \<le> tk_index (ps_token (x_ps x)))"

text \<open>
  The state in which a call leaves the loop, in a buffer that had the capacity \<open>k\<close>. The
  last case of the cursor is the one after a \<open>realloc\<close> that moved the block by \<open>mv\<close>.
\<close>

definition left_behind :: "int \<Rightarrow> int \<Rightarrow> xst \<Rightarrow> bool" where
  "left_behind mv k y \<longleftrightarrow>
     mv \<noteq> 0 \<and> k < bf_capacity (x_bf y)
     \<and> bf_capacity (x_bf y) = bf_after_headers_index (x_bf y) + ps_content_length (x_ps y)
     \<and> x_cs y = hsh_http_en_small_body \<and> x_p y = bf_after_headers_index (x_bf y) + mv"

definition stop_ok :: "int \<Rightarrow> int \<Rightarrow> xst \<Rightarrow> bool" where
  "stop_ok mv k y \<longleftrightarrow>
     (let bf = x_bf y; ps = x_ps y in
        block_ok bf \<and> x_cs y < 98 \<and> cl_range ps
        \<and> (data_state (x_cs y) \<longrightarrow> HTTP_FLAG_CHECK (ps_flags ps) HSH_P_FLAG_DONE
             \<or> bf_after_headers_index bf \<le> tk_index (ps_token ps))
        \<and> (0 \<le> ps_content_length ps \<longrightarrow>
             bf_after_headers_index bf \<le> x_p y
             \<and> (x_p y \<le> bf_length bf
                \<or> x_p y = bf_length bf + 1 \<and> x_cs y = hsh_http_en_chunk_end)
             \<or> left_behind mv k y))"

lemma block_ok_bounds:
  assumes "block_ok bf"
  shows "0 \<le> bf_after_headers_index bf" "bf_after_headers_index bf \<le> bf_length bf"
    "bf_length bf \<le> bf_capacity bf" "bf_capacity bf < 2147483647" "bf_buf bf \<noteq> None"
  using assms by (auto elim!: block_okE simp: written_def)

lemma done_flag_set: "HTTP_FLAG_CHECK (HTTP_FLAG_SET f HSH_P_FLAG_DONE) HSH_P_FLAG_DONE"
proof -
  have "(f OR 4) AND 4 = (4 :: 8 word)"
    by (simp add: bit.conj_disj_distrib2)
  then show ?thesis by (simp add: flag_ops parser_flags)
qed

lemma act_done_headers_safe:
  assumes "mid_inv bf b x" and "block_ok bf" and "0 \<le> mx" and "mx < 2147483647"
    and "\<not> data_state (x_cs x)" and "act_done_headers mv mx x = r"
  shows "\<exists>y. r = Stop y \<and> stop_ok mv (bf_capacity bf) y"
proof -
  let ?after = "x_p x + 1" and ?cl = "ps_content_length (x_ps x)"
  note b = block_ok_bounds [OF assms(2)]
  have x: "x_bf x = bf" "0 \<le> x_p x" "?after \<le> bf_length bf" "x_cs x < 98" "cl_range (x_ps x)"
    using assms(1) b by (auto simp: mid_inv_def)
  have after: "i32 ?after = ?after" using x b by (intro i32_id) auto
  have ok: "block_ok (bf\<lparr>bf_after_headers_index := ?after\<rparr>)"
    using x by (intro block_ok_after [OF assms(2)]) auto
  have mx: "i32 (mx - ?after) = mx - ?after" using x b assms(3,4) by (intro i32_id) auto
  have st: "\<not> data_state 74" "\<not> data_state 88" "\<not> data_state 89" by (simp_all add: data_state_def)
  have grow: "block_ok (bf\<lparr>bf_after_headers_index := ?after,
        bf_buf := realloc_block (bf_buf bf) (i64 (?cl + ?after)),
        bf_capacity := i32 (i64 (?cl + ?after))\<rparr>)
      \<and> i32 (i64 (?cl + ?after)) = ?after + ?cl \<and> i64 (?cl + ?after) = ?after + ?cl"
    if c: "\<not> mx - ?after < ?cl" "bf_capacity bf < i64 (?cl + ?after)"
  proof -
    have "i64 (?cl + ?after) = ?cl + ?after"
      using c(1) x assms(3,4) by (intro i64_id) (auto simp: cl_range_def)
    moreover have "i32 (?cl + ?after) = ?cl + ?after"
      using c calculation b x assms(4) by (intro i32_id) auto
    ultimately show ?thesis
      using block_ok_realloc [OF ok, of "?cl + ?after"] c x assms(4) by (simp add: add.commute)
  qed
  show ?thesis
    using assms(6) x ok st assms(5) grow after
    by (auto simp: act_done_headers_def Let_def mx fbreak_def stop_ok_def left_behind_def
        set_ready_def token_flag_set_def cl_range_def hsh_http_entry_defs)
qed

lemma act_chunk_read_safe:
  assumes "mid_inv bf True x" and "block_ok bf"
  shows "case act_chunk_read mx (bf_length bf) x of
      Inl e \<Rightarrow> e = Overlapping_Copy
    | Inr (Stop y) \<Rightarrow> stop_ok mv (bf_capacity bf) y
    | Inr (Cont y) \<Rightarrow> y = x"
proof -
  let ?after = "bf_after_headers_index bf" and ?len = "bf_length bf"
  note b = block_ok_bounds [OF assms(2)]
  have x: "x_bf x = bf" "?after \<le> x_p x" "x_p x < ?len" "x_cs x < 98" "cl_range (x_ps x)"
    "?after \<le> tk_index (ps_token (x_ps x))"
    using assms(1) b by (auto simp: mid_inv_def)
  have n: "i32 (?after + ?len - x_p x) = ?after + (?len - x_p x)"
    using x b by (subst i32_id) auto
  show ?thesis
  proof (cases "tk_index (ps_token (x_ps x)) + ps_content_length (x_ps x) - 1 \<le> ?len")
    case True
    then show ?thesis
      using x assms(2) b
      by (auto simp: act_chunk_read_def Let_def fbreak_def stop_ok_def set_ready_def cl_range_def
          hsh_http_entry_defs data_state_def)
  next
    case False
    with block_ok_memcpy [OF assms(2) x(2,3)] x b n show ?thesis
      by (auto simp: act_chunk_read_def Let_def fbreak_def fhold_def stop_ok_def cl_range_def)
  qed
qed

lemma act_small_body_read_safe:
  assumes "mid_inv bf b x" and "block_ok bf" and "\<not> data_state (x_cs x)"
    and "act_small_body_read (bf_length bf) x = r"
  shows "\<exists>y. r = Stop y \<and> stop_ok mv (bf_capacity bf) y"
  using assms block_ok_bounds [OF assms(2)]
  by (auto simp: mid_inv_def act_small_body_read_def Let_def fbreak_def fhold_def stop_ok_def
      set_ready_def set_done_def token_flag_set_def cl_range_def)

lemma act_large_body_read_safe:
  assumes "mid_inv bf b x" and "block_ok bf" and "\<not> data_state (x_cs x)"
    and "act_large_body_read (bf_length bf) x = r"
  shows "\<exists>y. r = Stop y \<and> stop_ok mv (bf_capacity bf) y"
  using assms block_ok_bounds [OF assms(2)] block_ok_shrink [OF assms(2), of "bf_after_headers_index bf"]
  by (auto simp: mid_inv_def act_large_body_read_def Let_def fbreak_def fhold_def stop_ok_def
      set_ready_def set_done_def cl_range_def)

lemma do_action_safe:
  assumes "mid_inv bf b x" and "block_ok bf" and "0 \<le> mx" and "mx < 2147483647"
    and "acts_safe b (x_cs x) (a # as)"
  shows "case do_action mv mx (bf_length bf) c a x of
      Inl e \<Rightarrow> e = Overlapping_Copy
    | Inr (Stop y) \<Rightarrow> stop_ok mv (bf_capacity bf) y
    | Inr (Cont y) \<Rightarrow> mid_inv bf (if a = A_body then True else b) y"
proof -
  note b = block_ok_bounds [OF assms(2)]
  have p: "i32 (x_p x) = x_p x" using assms(1) b by (intro i32_id) (auto simp: mid_inv_def)
  have i64: "- 9223372036854775808 \<le> i64 z \<and> i64 z < 9223372036854775808" for z
    using i64_bounds by simp
  show ?thesis
  proof (cases a)
    case A_done_headers
    with act_done_headers_safe [OF assms(1-4) _ refl, of mv] assms(5) show ?thesis by auto
  next
    case A_chunk_read
    with act_chunk_read_safe [of bf x mv mx] assms show ?thesis
      by (auto split: sum.splits ctl.splits)
  next
    case A_small_body_read
    with act_small_body_read_safe [OF assms(1,2) _ refl, of mv] assms(5) show ?thesis by auto
  next
    case A_large_body_read
    with act_large_body_read_safe [OF assms(1,2) _ refl, of mv] assms(5) show ?thesis by auto
  next
    case A_end_stream
    with assms b show ?thesis
      by (auto simp: mid_inv_def act_end_stream_def Let_def fbreak_def stop_ok_def set_ready_def
          set_done_def cl_range_def done_flag_set)
  qed (use assms b p i64 in \<open>auto simp: mid_inv_def HSH_ENTER_TOKEN_def act_body_def
      act_emit_token_def act_content_length_digit_def act_transfer_encoding_def
      act_reset_count_def act_inc_count_def act_chunk_start_def act_chunk_size_def
      fbreak_def stop_ok_def set_ready_def cl_range_def Let_def split: option.splits\<close>)
qed

lemma run_actions_safe:
  assumes "mid_inv bf b x" and "block_ok bf" and "0 \<le> mx" and "mx < 2147483647"
    and "acts_safe b (x_cs x) as"
  shows "case run_actions mv mx (bf_length bf) c as x of
      Inl e \<Rightarrow> e = Overlapping_Copy
    | Inr (Stop y) \<Rightarrow> stop_ok mv (bf_capacity bf) y
    | Inr (Cont y) \<Rightarrow> mid_inv bf (data_state (x_cs y)) y"
  using assms
proof (induction as arbitrary: x b)
  case Nil
  then show ?case by (auto simp: mid_inv_def)
next
  case (Cons a as)
  note step = do_action_safe [OF Cons.prems, of mv c]
  show ?case
  proof (cases "do_action mv mx (bf_length bf) c a x")
    case (Inl e)
    with step show ?thesis by simp
  next
    case (Inr r)
    show ?thesis
    proof (cases r)
      case (Stop y)
      with Inr step show ?thesis by simp
    next
      case (Cont y)
      then have cs: "x_cs y = x_cs x" using Inr do_action_Cont by simp
      have "mid_inv bf (if a = A_body then True else b) y" using step Inr Cont by simp
      moreover have "acts_safe (if a = A_body then True else b) (x_cs y) as"
        using Cons.prems(5) cs by (auto split: if_splits)
      ultimately show ?thesis
        using Cons.IH [of "if a = A_body then True else b" y] Cons.prems Inr Cont by simp
    qed
  qed
qed

section \<open>A call keeps the contract\<close>

definition loop_inv :: "int \<Rightarrow> hsh_buffer_s \<Rightarrow> xst \<Rightarrow> bool" where
  "loop_inv mx bf x \<longleftrightarrow>
     block_ok bf \<and> 0 \<le> mx \<and> mx < 2147483647 \<and> x_bf x = bf
     \<and> bf_after_headers_index bf \<le> x_p x \<and> x_p x \<le> bf_length bf
     \<and> 0 < x_cs x \<and> x_cs x < 98 \<and> cl_range (x_ps x)
     \<and> (data_state (x_cs x) \<longrightarrow> bf_after_headers_index bf \<le> tk_index (ps_token (x_ps x)))"

definition safe_post :: "int \<Rightarrow> int \<Rightarrow> xst result \<Rightarrow> bool" where
  "safe_post mv k r = (case r of Inl e \<Rightarrow> e = Overlapping_Copy | Inr y \<Rightarrow> stop_ok mv k y)"

lemma byte_step_safe:
  assumes "loop_inv mx bf x" and "x_p x < bf_length bf"
  shows "case byte_step mv mx (bf_length bf) c x of
      Inl e \<Rightarrow> e = Overlapping_Copy
    | Inr (Stop y) \<Rightarrow> stop_ok mv (bf_capacity bf) y
    | Inr (Cont y) \<Rightarrow> loop_inv mx bf y"
proof -
  define t where "t = hsh_trans (x_cs x) c"
  have live: "0 < x_cs x" "x_cs x < 98" using assms(1) by (auto simp: loop_inv_def)
  have "fst t < 98" "acts_safe (data_state (x_cs x)) (fst t) (snd t)"
    using all_edgesD [OF edges_in_table live] all_edgesD [OF edges_acts_safe live]
    by (simp_all add: t_def)
  moreover have "mid_inv bf (data_state (x_cs x)) (x\<lparr>x_cs := fst t\<rparr>)"
    using assms calculation(1) by (simp add: loop_inv_def mid_inv_def)
  ultimately have r: "case run_actions mv mx (bf_length bf) c (snd t) (x\<lparr>x_cs := fst t\<rparr>) of
      Inl e \<Rightarrow> e = Overlapping_Copy
    | Inr (Stop y) \<Rightarrow> stop_ok mv (bf_capacity bf) y
    | Inr (Cont y) \<Rightarrow> mid_inv bf (data_state (x_cs y)) y"
    using assms(1) by (intro run_actions_safe) (auto simp: loop_inv_def)
  have dead: "stop_ok mv (bf_capacity bf) y" if "mid_inv bf (data_state (x_cs y)) y" "x_cs y = 0" for y
    using that assms(1) by (auto simp: mid_inv_def stop_ok_def loop_inv_def data_state_def)
  have live: "loop_inv mx bf (y\<lparr>x_p := x_p y + 1\<rparr>)"
    if "mid_inv bf (data_state (x_cs y)) y" "x_cs y \<noteq> 0" for y
    using that assms by (auto simp: mid_inv_def loop_inv_def)
  show ?thesis
    using r dead live unfolding byte_step_def t_def hsh_http_error_def
    by (auto split: sum.splits ctl.splits)
qed

interpretation memory: scan_contract mv mx "bf_length bf" "loop_inv mx bf"
    "safe_post mv (bf_capacity bf)" for mv mx bf
proof
  fix x assume "loop_inv mx bf x" "x_p x < bf_length bf"
  then show "\<exists>c. rd (bf_buf (x_bf x)) (x_p x) = Inr c"
    using block_ok_bounds [of bf] by (intro block_ok_rd) (auto simp: loop_inv_def)
next
  fix x assume "loop_inv mx bf x" "x_p x = bf_length bf"
  then show "safe_post mv (bf_capacity bf) (Inr x)"
    by (auto simp: loop_inv_def safe_post_def stop_ok_def)
next
  fix x c y
  assume "loop_inv mx bf x" "x_p x < bf_length bf" "byte_step mv mx (bf_length bf) c x = Inr (Cont y)"
  then show "loop_inv mx bf y" using byte_step_safe [of mx bf x mv c] by simp
next
  fix x c y
  assume "loop_inv mx bf x" "x_p x < bf_length bf" "byte_step mv mx (bf_length bf) c x = Inr (Stop y)"
  then show "safe_post mv (bf_capacity bf) (Inr y)" using byte_step_safe [of mx bf x mv c] by (simp add: safe_post_def)
next
  fix x c e
  assume "loop_inv mx bf x" "x_p x < bf_length bf" "byte_step mv mx (bf_length bf) c x = Inl e"
  then show "safe_post mv (bf_capacity bf) (Inl e)" using byte_step_safe [of mx bf x mv c] by (simp add: safe_post_def)
qed

lemma scan_exec_safe:
  assumes "parser_ok ps bf" and "0 \<le> mx" and "mx < 2147483647"
    and "\<not> HTTP_FLAG_CHECK (ps_flags ps) HSH_P_FLAG_DONE"
  shows "safe_post mv (bf_capacity bf) (scan_exec mv mx (bf_length bf)
           \<lparr>x_cs = ps_state ps, x_p = bf_index bf, x_ps = ps, x_bf = bf\<rparr>)"
proof (cases "ps_state ps = 0")
  case True
  with assms block_ok_bounds [of bf] show ?thesis
    by (auto simp: scan_exec_def hsh_http_error_def safe_post_def stop_ok_def parser_ok_def
        cl_range_def test_eof_def data_state_def)
next
  case False
  then show ?thesis
    using assms block_ok_bounds [of bf]
    by (intro memory.scan_exec_rule [of mx]) (auto simp: loop_inv_def parser_ok_def cl_range_def
        hsh_http_error_def)
qed

lemma block_ok_index: "block_ok (bf\<lparr>bf_index := n\<rparr>) = block_ok bf"
  by (simp add: block_ok_def split: option.split)

lemma done_flag_clear:
  "HTTP_FLAG_CHECK (HTTP_FLAG_CLEAR f HSH_P_FLAG_TOKEN_READY) HSH_P_FLAG_DONE
     \<longleftrightarrow> HTTP_FLAG_CHECK f HSH_P_FLAG_DONE"
proof -
  have "(f AND NOT 2) AND 4 = f AND (4 :: 8 word)" by (simp add: and.assoc)
  then show ?thesis by (simp add: flag_ops parser_flags)
qed

lemma stop_ok_index:
  assumes "stop_ok mv k y" and "0 \<le> ps_content_length (x_ps y)" and "\<not> left_behind mv k y"
  shows "i32 (x_p y) = x_p y"
proof -
  note b = block_ok_bounds [of "x_bf y"]
  have "block_ok (x_bf y)" "0 \<le> x_p y" "x_p y \<le> bf_length (x_bf y) + 1"
    using assms b by (auto simp: stop_ok_def Let_def)
  with b show ?thesis by (intro i32_id) auto
qed

text \<open>
  The cursor after a call that let the block grow and move: the parser and the buffer are
  well-formed with the cursor behind the headers, but the cursor is off by the distance
  \<open>mv\<close> between the two blocks.
\<close>

definition cursor_left_behind :: "int \<Rightarrow> hsh_buffer_s \<Rightarrow> hsh_parser_s \<Rightarrow> hsh_buffer_s \<Rightarrow> bool" where
  "cursor_left_behind mv bf ps' bf' \<longleftrightarrow>
     mv \<noteq> 0 \<and> bf_capacity bf < bf_capacity bf'
     \<and> bf_capacity bf' = bf_after_headers_index bf' + ps_content_length ps'
     \<and> ps_state ps' = hsh_http_en_small_body
     \<and> bf_index bf' = i32 (bf_after_headers_index bf' + mv)
     \<and> parser_ok ps' (bf'\<lparr>bf_index := bf_after_headers_index bf'\<rparr>)"

lemma stop_ok_parser_ok:
  assumes "stop_ok mv (bf_capacity bf0) y" and "0 \<le> ps_content_length ps"
    and "ps_content_length ps = ps_content_length (x_ps y)" and "ps_state ps = x_cs y"
    and "ps_token ps = ps_token (x_ps y)"
    and "HTTP_FLAG_CHECK (ps_flags ps) HSH_P_FLAG_DONE
           = HTTP_FLAG_CHECK (ps_flags (x_ps y)) HSH_P_FLAG_DONE"
    and "bf = (x_bf y)\<lparr>bf_index := i32 (x_p y)\<rparr>"
  shows "parser_ok ps bf
    \<or> bf_index bf = bf_length bf + 1 \<and> ps_state ps = hsh_http_en_chunk_end
    \<or> cursor_left_behind mv bf0 ps bf"
proof (cases "left_behind mv (bf_capacity bf0) y")
  case True
  with assms block_ok_bounds [of "x_bf y"] show ?thesis
    by (auto simp: stop_ok_def parser_ok_def Let_def block_ok_index cl_range_def
        left_behind_def cursor_left_behind_def)
next
  case False
  with assms stop_ok_index [of mv "bf_capacity bf0" y] show ?thesis
    by (auto simp: stop_ok_def parser_ok_def Let_def block_ok_index cl_range_def)
qed

text \<open>
  C5. One call of the parser is memory safe, wherever \<open>realloc\<close> puts the block (\<open>mv\<close> is
  the distance by which it moves). From a well-formed buffer and parser the call reads only
  bytes that have arrived and writes only inside the block: the single fault left is the
  \<open>memcpy\<close> of \<open>chunk_read\<close> whose two areas overlap. If the content length it leaves is
  not negative (it wraps when a request states a size beyond 63 bits), the state it leaves is
  one of three: buffer and parser are well-formed again; or a chunk has just been delivered
  whose last byte has not arrived yet, and the cursor is one past the received bytes; or the
  call let the block grow for the body, the block moved, and only the cursor is wrong: it
  stands \<open>mv\<close> away from the end of the headers, because \<open>done_headers\<close> does not move
  \<open>p\<close> along with the block.
\<close>

theorem hsh_parser_exec_safe:
  assumes "parser_ok ps bf" and "0 \<le> mx" and "mx < 2147483647"
  shows "case hsh_parser_exec mv ps bf mx of
      Inl e \<Rightarrow> e = Overlapping_Copy
    | Inr (t, ps', bf') \<Rightarrow>
        0 \<le> ps_content_length ps' \<longrightarrow>
          parser_ok ps' bf'
          \<or> bf_index bf' = bf_length bf' + 1 \<and> ps_state ps' = hsh_http_en_chunk_end
          \<or> cursor_left_behind mv bf ps' bf'"
proof (cases "HTTP_FLAG_CHECK (ps_flags ps) HSH_P_FLAG_DONE
    \<or> ps_sequence_id ps = bf_sequence_id bf")
  case True
  with assms show ?thesis by (auto simp: hsh_parser_exec_def)
next
  case False
  then have post: "safe_post mv (bf_capacity bf) (scan_exec mv mx (bf_length bf)
      \<lparr>x_cs = ps_state ps, x_p = bf_index bf, x_ps = ps, x_bf = bf\<rparr>)"
    by (intro scan_exec_safe [OF assms]) simp
  show ?thesis
  proof (cases "scan_exec mv mx (bf_length bf)
      \<lparr>x_cs = ps_state ps, x_p = bf_index bf, x_ps = ps, x_bf = bf\<rparr>")
    case (Inl e)
    with post False show ?thesis by (auto simp: hsh_parser_exec_def safe_post_def)
  next
    case (Inr y)
    with post have "stop_ok mv (bf_capacity bf) y" by (simp add: safe_post_def)
    note ok = stop_ok_parser_ok [OF this]
    show ?thesis
      using False Inr ok [where bf = "(x_bf y)\<lparr>bf_index := i32 (x_p y)\<rparr>"]
      by (simp add: hsh_parser_exec_def Let_def done_flag_clear)
  qed
qed


text \<open>
  The last byte of a head that announces three bytes, in a block with room for the head only:
  the call lets the block grow, and here the block moves down by 100000 bytes.
\<close>

definition last_head_byte :: "hsh_parser_s \<times> hsh_buffer_s" where
  "last_head_byte =
     (parser_zero\<lparr>ps_state := 22, ps_content_length := 3, ps_limit_max := 256\<rparr>,
      buffer_zero\<lparr>bf_buf := Some (map Some (''GET / HTTP/1.1'' @ [CHR 10, CHR 10])),
        bf_capacity := 16, bf_length := 16, bf_index := 15, bf_sequence_id := 1\<rparr>)"

lemma last_head_byte_ok: "parser_ok (fst last_head_byte) (snd last_head_byte)"
  by (simp add: parser_ok_def last_head_byte_def buffer_zero_def parser_zero_def token_zero_def
      data_state_def block_ok_def written_def)

theorem hsh_parser_exec_safe_witness:
  "parser_ok (fst last_head_byte) (snd last_head_byte)
   \<and> (case hsh_parser_exec 100000 (fst last_head_byte) (snd last_head_byte) 64 of
        Inl e \<Rightarrow> e = Overlapping_Copy
      | Inr (t, ps', bf') \<Rightarrow>
          0 \<le> ps_content_length ps' \<longrightarrow>
            parser_ok ps' bf'
            \<or> bf_index bf' = bf_length bf' + 1 \<and> ps_state ps' = hsh_http_en_chunk_end
            \<or> cursor_left_behind 100000 (snd last_head_byte) ps' bf')
   \<and> (case hsh_parser_exec 100000 (fst last_head_byte) (snd last_head_byte) 64 of
        Inl e \<Rightarrow> False
      | Inr (t, ps', bf') \<Rightarrow> ps_content_length ps' = 3 \<and> bf_index bf' = 100016)"
proof (intro conjI)
  show "case hsh_parser_exec 100000 (fst last_head_byte) (snd last_head_byte) 64 of
        Inl e \<Rightarrow> False
      | Inr (t, ps', bf') \<Rightarrow> ps_content_length ps' = 3 \<and> bf_index bf' = 100016"
    by code_simp
qed (use last_head_byte_ok hsh_parser_exec_safe [OF last_head_byte_ok, of 64 100000] in simp_all)

end
