(* ===== verification/World.thy ===== *)
theory World
  imports Common
begin

text \<open>
  The state of the process and its surroundings. The heap maps the address of a request to its
  record while the request is allocated. The operating system is a parameter: what each socket
  delivers and accepts is a script in the state, chosen by the environment, and what the
  program does to descriptors is appended to a log.

  User callbacks are not part of the repository. A callback is a function pointer; running it
  is the function \<open>user\<close> that the request cycle takes as an argument (\<open>Io_Events\<close>).
\<close>

section \<open>Operating system\<close>

datatype errno = E_None | EAGAIN | EPIPE | E_Other

text \<open>
  What a socket delivers: bytes (a read takes as many as it asks for and leaves the rest), the
  end of the stream, or a failing call. An exhausted script means that nothing has arrived.
\<close>

datatype read_event = R_Data string | R_Eof | R_Fail errno

text \<open>What a socket accepts: at most so many bytes, or a failing call. An exhausted script accepts all.\<close>

datatype write_event = W_Accept int | W_Fail errno

text \<open>Filters and flags of \<open>kevent\<close>, as the source combines them.\<close>

datatype kqueue_filter = EVFILT_TIMER | EVFILT_READ | EVFILT_WRITE
datatype kqueue_flags = EV_ADD_CLEAR | EV_ADD_ENABLE | EV_DISABLE | EV_DELETE

datatype os_call =
    Epoll_Create
  | Epoll_Add int
  | Epoll_Mod_Read int
  | Epoll_Mod_Write int
  | Epoll_Del int
  | Timerfd_Create int
  | Kqueue_Create
  | Kevent int kqueue_filter kqueue_flags
  | Accept int
  | Set_Nonblock int
  | Socket_Create int
  | Set_Reuseport int
  | Bind int sockaddr_in
  | Listen int
  | Close int
  | Ignore_Sigpipe

text \<open>
  The source is compiled for one of two event interfaces (\<^verbatim>\<open>#ifdef KQUEUE\<close>); the choice is a
  constant of the state.
\<close>

datatype build = EPOLL | KQUEUE

record world =
  w_build :: build
  w_server :: http_server_s
  w_heap :: "ptr \<Rightarrow> http_request_s option"
  w_next :: ptr
  w_reads :: "int \<Rightarrow> read_event list"
  w_writes :: "int \<Rightarrow> write_event list"
  w_accepts :: "int list"
  w_fds :: "int list"
  w_errno :: errno
  w_sent :: "int \<Rightarrow> char block"
  w_calls :: "os_call list"
  w_shift :: int

text \<open>
  \<open>w_accepts\<close> are the results of the coming calls of \<open>accept\<close> and \<open>w_fds\<close> of the
  calls that create descriptors; both fail with \<open>-1\<close> when the script is used up.
  \<open>w_sent\<close> is what each socket has been handed, a cell \<open>None\<close> being a byte that the program never wrote.
  \<open>w_shift\<close> is the displacement of a block that the parser's \<open>realloc\<close> moves.
\<close>

definition os_log :: "os_call \<Rightarrow> world \<Rightarrow> world" where
  "os_log c w = w\<lparr>w_calls := w_calls w @ [c]\<rparr>"

text \<open>A length of type \<open>int\<close> passed as a \<open>size_t\<close>.\<close>

definition size_t :: "int \<Rightarrow> int" where
  "size_t n = n mod 18446744073709551616"

lemma size_t_id: "0 \<le> n \<Longrightarrow> n < 18446744073709551616 \<Longrightarrow> size_t n = n"
  by (simp add: size_t_def)

definition os_read ::
    "int \<Rightarrow> char block option \<Rightarrow> int \<Rightarrow> int \<Rightarrow> world \<Rightarrow> (int \<times> char block option \<times> world) result"
  where
  "os_read fd m off n w =
     (if n = 0 then Inr (0, m, w)
      else case w_reads w fd of
        [] \<Rightarrow> Inr (- 1, m, w\<lparr>w_errno := EAGAIN\<rparr>)
      | R_Fail e # evs \<Rightarrow> Inr (- 1, m, w\<lparr>w_errno := e, w_reads := (w_reads w)(fd := evs)\<rparr>)
      | R_Eof # evs \<Rightarrow> Inr (0, m, w)
      | R_Data s # evs \<Rightarrow>
          let k = min (size_t n) (int (length s));
              rest = drop (nat k) s
          in bindr (store m off (map Some (take (nat k) s))) (\<lambda>m'.
               Inr (k, m', w\<lparr>w_reads := (w_reads w)(fd := (if rest = [] then evs else R_Data rest # evs))\<rparr>)))"

definition os_write ::
    "int \<Rightarrow> char block option \<Rightarrow> int \<Rightarrow> int \<Rightarrow> world \<Rightarrow> (int \<times> world) result"
  where
  "os_write fd m off n w =
     (case w_writes w fd of
        W_Fail e # evs \<Rightarrow> Inr (- 1, w\<lparr>w_errno := e, w_writes := (w_writes w)(fd := evs)\<rparr>)
      | W_Accept k # evs \<Rightarrow>
          let k = min (size_t n) (max 0 k)
          in bindr (cells m off k) (\<lambda>xs.
               Inr (k, w\<lparr>w_writes := (w_writes w)(fd := evs), w_sent := (w_sent w)(fd := w_sent w fd @ xs)\<rparr>))
      | [] \<Rightarrow>
          bindr (cells m off (size_t n)) (\<lambda>xs.
            Inr (size_t n, w\<lparr>w_sent := (w_sent w)(fd := w_sent w fd @ xs)\<rparr>)))"

text \<open>A call that returns a new descriptor, or \<open>-1\<close>.\<close>

definition os_new_fd :: "world \<Rightarrow> int \<times> world" where
  "os_new_fd w = (case w_fds w of [] \<Rightarrow> (- 1, w) | fd # fds \<Rightarrow> (fd, w\<lparr>w_fds := fds\<rparr>))"

text \<open>The bytes that a socket still has to deliver bound the number of reads that return some.\<close>

fun pending :: "read_event list \<Rightarrow> nat" where
  "pending [] = 0"
| "pending (R_Data s # evs) = length s + pending evs"
| "pending (R_Eof # evs) = pending evs"
| "pending (R_Fail e # evs) = pending evs"

lemma os_read_pending:
  assumes "os_read fd m off n w = Inr (k, m', w')" and "0 < k"
  shows "pending (w_reads w' fd) + nat k = pending (w_reads w fd)"
proof -
  have "0 \<le> size_t n" by (simp add: size_t_def)
  with assms show ?thesis
    by (auto simp: os_read_def Let_def hs_simps split: if_splits list.splits read_event.splits)
qed

section \<open>Requests in the heap\<close>

definition deref :: "ptr \<Rightarrow> world \<Rightarrow> http_request_s result" where
  "deref r w = (case w_heap w r of None \<Rightarrow> Inl Use_After_Free | Some rq \<Rightarrow> Inr rq)"

definition assign :: "ptr \<Rightarrow> http_request_s \<Rightarrow> world \<Rightarrow> world" where
  "assign r rq w = w\<lparr>w_heap := (w_heap w)(r := Some rq)\<rparr>"

definition set_memused :: "int \<Rightarrow> world \<Rightarrow> world" where
  "set_memused m w = w\<lparr>w_server := (w_server w)\<lparr>sv_memused := m\<rparr>\<rparr>"

definition w_memused :: "world \<Rightarrow> int" where
  "w_memused w = sv_memused (w_server w)"

text \<open>\<open>r->f := v\<close> and friends: read the record, write it back changed.\<close>

definition modify :: "ptr \<Rightarrow> (http_request_s \<Rightarrow> http_request_s) \<Rightarrow> world \<Rightarrow> world result" where
  "modify r f w = bindr (deref r w) (\<lambda>rq. Inr (assign r (f rq) w))"

lemma deref_assign [simp]: "deref r (assign r rq w) = Inr rq"
  by (simp add: deref_def assign_def)

lemma deref_assign_other [simp]: "s \<noteq> r \<Longrightarrow> deref s (assign r rq w) = deref s w"
  by (simp add: deref_def assign_def)

lemma assign_assign [simp]: "assign r rq' (assign r rq w) = assign r rq' w"
  by (simp add: assign_def)

lemma deref_set_memused [simp]: "deref r (set_memused m w) = deref r w"
  by (simp add: deref_def set_memused_def)

lemma memused_set_memused [simp]: "w_memused (set_memused m w) = m"
  by (simp add: w_memused_def set_memused_def)

lemma memused_assign [simp]: "w_memused (assign r rq w) = w_memused w"
  by (simp add: w_memused_def assign_def)

lemma deref_Inr_iff [hs_simps]: "deref r w = Inr rq \<longleftrightarrow> w_heap w r = Some rq"
  by (auto simp: deref_def split: option.splits)

lemma deref_os_log [simp]: "deref r (os_log c w) = deref r w"
  by (simp add: deref_def os_log_def)

text \<open>A user callback and the function that the response code calls to start writing.\<close>

type_synonym callback = "fnptr \<Rightarrow> ptr \<Rightarrow> world \<Rightarrow> world result"
type_synonym req_fn = "ptr \<Rightarrow> world \<Rightarrow> world result"

section \<open>A sample state\<close>

text \<open>A listening server without connections, for concrete instances.\<close>

definition sample_server :: http_server_s where
  "sample_server = \<lparr>sv_handler = On_Server_Connection, sv_timer_handler = Some On_Server_Timer,
     sv_memused = 0, sv_socket = 3, sv_port = 8080, sv_loop = 4, sv_timerfd = 5,
     sv_request_handler = 0, sv_data = 0, sv_date = ''Thu, 01 Jan 1970 00:00:00 GMT'',
     sv_addr = \<lparr>sin_family = AF_UNSPEC, sin_addr = 0, sin_port = (0, 0)\<rparr>, sv_len = 0\<rparr>"

definition sample_world :: world where
  "sample_world = \<lparr>w_build = EPOLL, w_server = sample_server, w_heap = (\<lambda>_. None), w_next = 0, w_reads = (\<lambda>_. []),
     w_writes = (\<lambda>_. []), w_accepts = [], w_fds = [], w_errno = E_None, w_sent = (\<lambda>_. []),
     w_calls = [], w_shift = 0\<rparr>"

end
