(* ===== verification/Read_Socket.thy ===== *)
theory Read_Socket
  imports Parser_Safety World
begin

text \<open>
  \<^verbatim>\<open>src/src/read_socket.c\<close>: filling the read buffer from the socket, running the
  parser over it, collecting the tokens and calling the user back when the request, or a part
  of its body, is ready.
\<close>

datatype hs_read_rc_e = HS_READ_RC_SUCCESS | HS_READ_RC_PARSE_ERR | HS_READ_RC_SOCKET_ERR

record hs_read_opts_s =
  op_max_request_buf_capacity :: int
  op_eof_rc :: int
  op_initial_request_buf_capacity :: int

section \<open>Token array and buffer\<close>

definition hs_token_array_push :: "hs_token_array_s \<Rightarrow> hsh_token_s \<Rightarrow> hs_token_array_s result" where
  "hs_token_array_push arr a =
     (let arr = (if ta_size arr = ta_capacity arr
                 then arr\<lparr>ta_capacity := i32 (ta_capacity arr * 2),
                         ta_buf := realloc_block (ta_buf arr) (i32 (ta_capacity arr * 2))\<rparr>
                 else arr)
      in bindr (store (ta_buf arr) (ta_size arr) [Some a]) (\<lambda>b.
           Inr (arr\<lparr>ta_buf := b, ta_size := i32 (ta_size arr + 1)\<rparr>)))"

definition hs_buffer_init :: "int \<Rightarrow> int \<Rightarrow> hsh_buffer_s \<times> int" where
  "hs_buffer_init initial_capacity memused =
     (buffer_zero\<lparr>bf_buf := calloc_block nul initial_capacity, bf_capacity := initial_capacity\<rparr>,
      i64 (memused + initial_capacity))"

text \<open>
  The growth step of the read loop: a full buffer below the maximum doubles, up to the maximum,
  and the server's account follows.
\<close>

definition hs_buffer_grow :: "hsh_buffer_s \<Rightarrow> int \<Rightarrow> int \<Rightarrow> hsh_buffer_s \<times> int" where
  "hs_buffer_grow bf memused max_request_buf_capacity =
     (if bf_length bf = bf_capacity bf \<and> bf_capacity bf \<noteq> max_request_buf_capacity
      then let memused = i64 (memused - bf_capacity bf);
               capacity = i32 (bf_capacity bf * 2);
               capacity = (if capacity > max_request_buf_capacity
                           then i32 max_request_buf_capacity else capacity)
           in (bf\<lparr>bf_capacity := capacity, bf_buf := realloc_block (bf_buf bf) capacity\<rparr>,
               i64 (memused + capacity))
      else (bf, memused))"

text \<open>
  The loop reads until the socket has no more bytes or the buffer has its maximal capacity.
  Each further round needs a read that returned bytes, so the loop ends with the socket's
  script.
\<close>

function hs_read_loop ::
    "hsh_buffer_s \<Rightarrow> int \<Rightarrow> int \<Rightarrow> world \<Rightarrow> (int \<times> hsh_buffer_s \<times> world) result"
  where
  "hs_read_loop bf fd max_request_buf_capacity w =
     (case os_read fd (bf_buf bf) (bf_length bf) (bf_capacity bf - bf_length bf) w of
        Inl e \<Rightarrow> Inl e
      | Inr (bytes, m, w) \<Rightarrow>
          let bf = bf\<lparr>bf_buf := m\<rparr>;
              bf = (if 0 < bytes then bf\<lparr>bf_length := i32 (bf_length bf + bytes)\<rparr> else bf);
              (bf, memused) = hs_buffer_grow bf (w_memused w) max_request_buf_capacity;
              w = set_memused memused w
          in if 0 < bytes \<and> bf_capacity bf < max_request_buf_capacity
             then hs_read_loop bf fd max_request_buf_capacity w
             else Inr (bytes, bf, w))"
  by pat_completeness auto
termination
proof (relation "measure (\<lambda>(bf, fd, mx, w). pending (w_reads w fd))", goal_cases)
  case (2 bf fd mx w r bytes y m w' bf1 bf2 z bf3 memused w'')
  then have "pending (w_reads w' fd) + nat bytes = pending (w_reads w fd)"
    using os_read_pending by metis
  with 2 show ?case by (auto simp: set_memused_def)
qed simp

declare hs_read_loop.simps [simp del]

definition hs_read_into_buffer ::
    "hsh_buffer_s \<Rightarrow> int \<Rightarrow> int \<Rightarrow> world \<Rightarrow> (int \<times> hsh_buffer_s \<times> world) result"
  where
  "hs_read_into_buffer bf fd max_request_buf_capacity w =
     bindr (hs_read_loop bf fd max_request_buf_capacity w) (\<lambda>(bytes, bf, w).
       Inr (bytes, bf\<lparr>bf_sequence_id := i8 (bf_sequence_id bf + 1)\<rparr>, w))"

definition hs_buffer_requires_read :: "hsh_buffer_s \<Rightarrow> bool" where
  "hs_buffer_requires_read bf \<longleftrightarrow> bf_index bf \<ge> bf_length bf"

section \<open>Parsing and calling back\<close>

definition hs_exec_callback :: "callback \<Rightarrow> fnptr option \<Rightarrow> req_fn" where
  "hs_exec_callback call cb request w =
     bindr (modify request (\<lambda>rq. rq\<lparr>rq_state := HTTP_SESSION_NOP\<rparr>) w) (\<lambda>w.
       case cb of None \<Rightarrow> Inl Null_Pointer | Some f \<Rightarrow> call f request w)"

definition push_token :: "ptr \<Rightarrow> hsh_token_s \<Rightarrow> world \<Rightarrow> world result" where
  "push_token request token w =
     bindr (deref request w) (\<lambda>rq.
       bindr (hs_token_array_push (rq_tokens rq) token) (\<lambda>arr.
         Inr (assign request (rq\<lparr>rq_tokens := arr\<rparr>) w)))"

definition exec_request_handler :: "callback \<Rightarrow> req_fn" where
  "exec_request_handler call request w =
     hs_exec_callback call (Some (sv_request_handler (w_server w))) request w"

definition exec_chunk_cb :: "callback \<Rightarrow> req_fn" where
  "exec_chunk_cb call request w =
     bindr (deref request w) (\<lambda>rq. hs_exec_callback call (rq_chunk_cb rq) request w)"

text \<open>
  The body of the loop after \<open>hsh_parser_exec\<close> has returned \<open>token\<close>: \<open>None\<close> asks
  for another round, \<open>Some rc\<close> is a \<open>return\<close>.
\<close>

definition handle_token ::
    "callback \<Rightarrow> ptr \<Rightarrow> hsh_token_s \<Rightarrow> world \<Rightarrow> (hs_read_rc_e option \<times> world) result"
  where
  "handle_token call request token w =
     (case tk_type token of
        HSH_TOK_HEADERS_DONE \<Rightarrow>
          bindr (push_token request token w) (\<lambda>w.
            if HTTP_FLAG_CHECK (tk_flags token) HSH_TOK_FLAG_STREAMED_BODY
               \<or> HTTP_FLAG_CHECK (tk_flags token) HSH_TOK_FLAG_NO_BODY
            then bindr (modify request
                          (\<lambda>rq. rq\<lparr>rq_flags := HTTP_FLAG_SET (rq_flags rq) HTTP_FLG_STREAMED\<rparr>) w) (\<lambda>w.
                   bindr (exec_request_handler call request w) (\<lambda>w. Inr (Some HS_READ_RC_SUCCESS, w)))
            else Inr (None, w))
      | HSH_TOK_BODY \<Rightarrow>
          bindr (push_token request token w) (\<lambda>w.
            bindr (if HTTP_FLAG_CHECK (tk_flags token) HSH_TOK_FLAG_SMALL_BODY
                   then exec_request_handler call request w
                   else if HTTP_FLAG_CHECK (tk_flags token) HSH_TOK_FLAG_BODY_FINAL
                           \<and> tk_len token > 0
                   then bindr (exec_chunk_cb call request w) (\<lambda>w.
                          bindr (push_token request (token_zero\<lparr>tk_type := HSH_TOK_BODY\<rparr>) w)
                            (exec_chunk_cb call request))
                   else exec_chunk_cb call request w) (\<lambda>w.
              Inr (Some HS_READ_RC_SUCCESS, w)))
      | HSH_TOK_ERR \<Rightarrow> Inr (Some HS_READ_RC_PARSE_ERR, w)
      | HSH_TOK_NONE \<Rightarrow> Inr (Some HS_READ_RC_SUCCESS, w)
      | _ \<Rightarrow> bindr (push_token request token w) (\<lambda>w. Inr (None, w)))"

text \<open>The call of \<open>hsh_parser_exec\<close> on the request's parser and buffer.\<close>

definition parse_token :: "int \<Rightarrow> ptr \<Rightarrow> world \<Rightarrow> (hsh_token_s \<times> world) result" where
  "parse_token max_request_buf_capacity request w =
     bindr (deref request w) (\<lambda>rq.
       bindr (hsh_parser_exec (w_shift w) (rq_parser rq) (rq_buffer rq) max_request_buf_capacity)
         (\<lambda>(token, ps, bf).
           Inr (token, assign request (rq\<lparr>rq_parser := ps, rq_buffer := bf\<rparr>) w)))"

primrec parse_loop :: "nat \<Rightarrow> callback \<Rightarrow> ptr \<Rightarrow> int \<Rightarrow> world \<Rightarrow> (hs_read_rc_e \<times> world) result" where
  "parse_loop 0 call request mx w = Inl Out_Of_Fuel"
| "parse_loop (Suc n) call request mx w =
     bindr (parse_token mx request w) (\<lambda>(token, w).
       bindr (handle_token call request token w) (\<lambda>(rc, w).
         case rc of Some rc \<Rightarrow> Inr (rc, w) | None \<Rightarrow> parse_loop n call request mx w))"

text \<open>
  Every round that goes on has consumed at least one byte, so a round per byte between the
  cursor and the end of the data, and two more, are enough (\<open>parse_loop_ends\<close>).
\<close>

definition parse_fuel :: "hsh_buffer_s \<Rightarrow> nat" where
  "parse_fuel bf = nat (bf_length bf - bf_index bf) + 2"

definition hs_parse_buffer_and_exec_user_cb ::
    "callback \<Rightarrow> ptr \<Rightarrow> int \<Rightarrow> world \<Rightarrow> (hs_read_rc_e \<times> world) result"
  where
  "hs_parse_buffer_and_exec_user_cb call request max_request_buf_capacity w =
     bindr (deref request w) (\<lambda>rq.
       parse_loop (parse_fuel (rq_buffer rq)) call request max_request_buf_capacity w)"

definition hs_read_request_and_exec_user_cb ::
    "callback \<Rightarrow> ptr \<Rightarrow> hs_read_opts_s \<Rightarrow> world \<Rightarrow> (hs_read_rc_e \<times> world) result"
  where
  "hs_read_request_and_exec_user_cb call request opts w =
     bindr (deref request w) (\<lambda>rq.
       let rq = rq\<lparr>rq_state := HTTP_SESSION_READ, rq_timeout := HTTP_REQUEST_TIMEOUT\<rparr>;
           (rq, w) = (if bf_buf (rq_buffer rq) = None
             then let (bf, memused) = hs_buffer_init (op_initial_request_buf_capacity opts) (w_memused w)
                  in (rq\<lparr>rq_buffer := bf, rq_parser := hsh_parser_init\<rparr>, set_memused memused w)
             else (rq, w))
       in bindr (if hs_buffer_requires_read (rq_buffer rq)
                 then bindr (hs_read_into_buffer (rq_buffer rq) (rq_socket rq)
                               (op_max_request_buf_capacity opts) w) (\<lambda>(bytes, bf, w).
                        Inr (bytes = op_eof_rc opts, assign request (rq\<lparr>rq_buffer := bf\<rparr>) w))
                 else Inr (False, assign request rq w)) (\<lambda>(eof, w).
            if eof then Inr (HS_READ_RC_SOCKET_ERR, w)
            else hs_parse_buffer_and_exec_user_cb call request
                   (i32 (op_max_request_buf_capacity opts)) w))"

end
