(* ===== verification/Read_Props.thy ===== *)
theory Read_Props
  imports Read_Socket
begin

section \<open>The token array is a list\<close>

definition array_holds :: "hs_token_array_s \<Rightarrow> hsh_token_s list \<Rightarrow> bool" where
  "array_holds arr ts \<longleftrightarrow>
     (case ta_buf arr of None \<Rightarrow> False | Some b \<Rightarrow> int (length b) = ta_capacity arr)
     \<and> holds (ta_buf arr) ts \<and> ta_size arr = int (length ts) \<and> 0 < ta_capacity arr"

lemma array_holdsE:
  assumes "array_holds arr ts"
  obtains b where "ta_buf arr = Some b" "int (length b) = ta_capacity arr"
    "holds (Some b) ts" "ta_size arr = int (length ts)" "0 < ta_capacity arr"
    "length ts \<le> length b"
  using assms by (auto simp: array_holds_def holds_def split: option.splits)

lemma array_holds_rd:
  "array_holds arr ts \<Longrightarrow> 0 \<le> i \<Longrightarrow> i < int (length ts) \<Longrightarrow> rd (ta_buf arr) i = Inr (ts ! nat i)"
  by (auto simp: array_holds_def intro: rd_holds)

lemma store_next:
  assumes "holds (Some b) ts" and "length ts < length b"
  shows "\<exists>b'. store (Some b) (int (length ts)) [Some t] = Inr (Some b') \<and> length b' = length b
    \<and> holds (Some b') (ts @ [t])"
proof -
  have "store (Some b) (int (length ts)) [Some t]
      = Inr (Some (take (length ts) b @ [Some t] @ drop (Suc (length ts)) b))"
    using assms by (simp add: store_def)
  moreover from this have "holds (Some (take (length ts) b @ [Some t] @ drop (Suc (length ts)) b)) (ts @ [t])"
    using holds_store_append [OF assms(1), of "[t]"] by simp
  ultimately show ?thesis using assms by simp
qed

section \<open>The read loop\<close>

text \<open>The bytes that a script still delivers before the end of the stream.\<close>

fun stream :: "read_event list \<Rightarrow> string" where
  "stream [] = []"
| "stream (R_Data s # evs) = s @ stream evs"
| "stream (R_Eof # evs) = []"
| "stream (R_Fail e # evs) = stream evs"

text \<open>A buffer that holds exactly the received bytes \<open>data\<close>, within its capacity.\<close>

definition buffer_holds :: "hsh_buffer_s \<Rightarrow> string \<Rightarrow> bool" where
  "buffer_holds bf data \<longleftrightarrow>
     (case bf_buf bf of None \<Rightarrow> False | Some b \<Rightarrow> int (length b) = bf_capacity bf)
     \<and> holds (bf_buf bf) data \<and> bf_length bf = int (length data) \<and> 0 < bf_capacity bf"

lemma buffer_holdsE:
  assumes "buffer_holds bf data"
  obtains b where "bf_buf bf = Some b" "int (length b) = bf_capacity bf"
    "holds (Some b) data" "bf_length bf = int (length data)" "0 < bf_capacity bf"
    "length data \<le> length b"
  using assms by (auto simp: buffer_holds_def holds_def split: option.splits)

lemma os_read_stream:
  assumes "buffer_holds bf data" and "bf_capacity bf < 2147483648"
    and "length data < nat (bf_capacity bf)"
  obtains k m w' new where
    "os_read fd (bf_buf bf) (bf_length bf) (bf_capacity bf - bf_length bf) w = Inr (k, m, w')"
    "buffer_holds (bf\<lparr>bf_buf := m, bf_length := int (length (data @ new))\<rparr>) (data @ new)"
    "stream (w_reads w fd) = new @ stream (w_reads w' fd)"
    "int (length new) = max 0 k" "w_server w' = w_server w" "w_heap w' = w_heap w"
proof -
  from assms(1) obtain b where b: "bf_buf bf = Some b" "int (length b) = bf_capacity bf"
    "holds (Some b) data" "bf_length bf = int (length data)" "length data \<le> length b"
    by (rule buffer_holdsE)
  let ?n = "bf_capacity bf - bf_length bf"
  have n: "size_t ?n = ?n" "?n \<noteq> 0" "0 < ?n" using assms b by (auto intro!: size_t_id)
  note unf = os_read_def n Let_def
  show ?thesis
  proof (cases "w_reads w fd")
    case Nil
    show ?thesis
      by (rule that [of "- 1" "bf_buf bf" "w\<lparr>w_errno := EAGAIN\<rparr>" "[]"])
        (use Nil assms b n in \<open>auto simp: unf buffer_holds_def\<close>)
  next
    case (Cons ev evs)
    show ?thesis
    proof (cases ev)
      case (R_Data s)
      let ?k = "min ?n (int (length s))"
      let ?new = "take (nat ?k) s"
      have "length ?new + length data \<le> length b" using b n by auto
      then have st: "store (Some b) (bf_length bf) (map Some ?new)
          = Inr (Some (take (length data) b @ map Some ?new @ drop (length data + length ?new) b))"
        using b(4) by (auto simp: store_def)
      have h: "holds (Some (take (length data) b @ map Some ?new @ drop (length data + length ?new) b))
          (data @ ?new)"
        using holds_store_append [OF b(3), of ?new] st b(4) by simp
      let ?w = "w\<lparr>w_reads := (w_reads w)(fd := (if drop (nat ?k) s = [] then evs
          else R_Data (drop (nat ?k) s) # evs))\<rparr>"
      show ?thesis
      proof (rule that [of ?k _ ?w ?new])
        show "os_read fd (bf_buf bf) (bf_length bf) ?n w
          = Inr (?k, Some (take (length data) b @ map Some ?new @ drop (length data + length ?new) b), ?w)"
          using Cons R_Data n b st by (simp add: os_read_def Let_def)
        show "buffer_holds (bf\<lparr>bf_buf := Some (take (length data) b @ map Some ?new
            @ drop (length data + length ?new) b), bf_length := int (length (data @ ?new))\<rparr>) (data @ ?new)"
          using h b \<open>length ?new + length data \<le> length b\<close> assms
          by (auto simp: buffer_holds_def)
        show "stream (w_reads w fd) = ?new @ stream (w_reads ?w fd)"
          using Cons R_Data append_take_drop_id [of "nat ?k" s] by auto
      qed (use n in auto)
    next
      case R_Eof
      show ?thesis
        by (rule that [of 0 "bf_buf bf" w "[]"]) (use Cons R_Eof assms b n in \<open>auto simp: unf buffer_holds_def\<close>)
    next
      case (R_Fail e)
      show ?thesis
        by (rule that [of "- 1" "bf_buf bf" "w\<lparr>w_errno := e, w_reads := (w_reads w)(fd := evs)\<rparr>" "[]"])
          (use Cons R_Fail assms b n in \<open>auto simp: unf buffer_holds_def\<close>)
    qed
  qed
qed


text \<open>What the server's account has beside this buffer, small enough not to wrap.\<close>

definition account_ok :: "int \<Rightarrow> hsh_buffer_s \<Rightarrow> bool" where
  "account_ok memused bf \<longleftrightarrow>
     - 4611686018427387904 \<le> memused - bf_capacity bf \<and> memused - bf_capacity bf < 4611686018427387904"

definition same_cursor :: "hsh_buffer_s \<Rightarrow> hsh_buffer_s \<Rightarrow> bool" where
  "same_cursor bf bf' \<longleftrightarrow>
     bf_index bf' = bf_index bf \<and> bf_after_headers_index bf' = bf_after_headers_index bf"

lemma hs_buffer_grow_holds:
  assumes "buffer_holds bf data" and "bf_capacity bf \<le> mx" and "mx < 1073741824"
    and "account_ok m bf"
  obtains bf' m' where "hs_buffer_grow bf m mx = (bf', m')" and "buffer_holds bf' data"
    and "bf_capacity bf \<le> bf_capacity bf'" and "bf_capacity bf' \<le> mx"
    and "int (length data) < bf_capacity bf' \<or> bf_capacity bf' = mx"
    and "m' - bf_capacity bf' = m - bf_capacity bf" and "same_cursor bf bf'"
    and "bf_sequence_id bf' = bf_sequence_id bf"
proof -
  from assms(1) obtain b where b: "bf_buf bf = Some b" "int (length b) = bf_capacity bf"
    "holds (Some b) data" "bf_length bf = int (length data)" "length data \<le> length b"
    "0 < bf_capacity bf"
    by (rule buffer_holdsE)
  show ?thesis
  proof (cases "bf_length bf = bf_capacity bf \<and> bf_capacity bf \<noteq> mx")
    case False
    have "hs_buffer_grow bf m mx = (bf, m)"
      unfolding hs_buffer_grow_def by (rule if_not_P [OF False])
    moreover have "int (length data) < bf_capacity bf \<or> bf_capacity bf = mx" using False b by linarith
    ultimately show ?thesis using that [of bf m] assms by (simp add: same_cursor_def)
  next
    case True
    let ?c = "min (bf_capacity bf * 2) mx"
    have c2: "i32 (bf_capacity bf * 2) = bf_capacity bf * 2" "i32 mx = mx"
      using assms b by (auto intro!: i32_id)
    have c: "(if mx < i32 (bf_capacity bf * 2) then i32 mx else i32 (bf_capacity bf * 2)) = ?c"
      by (simp add: c2)
    have m: "i64 (i64 (m - bf_capacity bf) + ?c) = m - bf_capacity bf + ?c"
      using assms b by (auto simp: account_ok_def i64_id min_def)
    let ?bf = "bf\<lparr>bf_capacity := ?c, bf_buf := realloc_block (bf_buf bf) ?c\<rparr>"
    have grow: "hs_buffer_grow bf m mx = (?bf, m - bf_capacity bf + ?c)"
      using True by (simp add: hs_buffer_grow_def Let_def c m)
    have "holds (realloc_block (Some b) ?c) data"
      using b assms by (intro holds_realloc) auto
    then have "buffer_holds ?bf data"
      using b assms block_size_realloc [of "Some b" ?c]
      by (auto simp: buffer_holds_def realloc_block_def Let_def)
    moreover have "bf_capacity bf < ?c" using True assms(2) b(6) by auto
    ultimately show ?thesis
      using that [OF grow] b True by (auto simp: same_cursor_def)
  qed
qed

text \<open>One read of the loop, with the room that the buffer has left; and its length when bytes came.\<close>

lemma read_round:
  assumes h: "buffer_holds bf data" and c: "bf_capacity bf \<le> mx" "mx < 1073741824"
    and room: "int (length data) < bf_capacity bf \<or> bf_capacity bf = mx"
  obtains k m w1 new where
    "os_read fd (bf_buf bf) (bf_length bf) (bf_capacity bf - bf_length bf) w = Inr (k, m, w1)"
    "buffer_holds (bf\<lparr>bf_buf := m, bf_length := int (length (data @ new))\<rparr>) (data @ new)"
    "stream (w_reads w fd) = new @ stream (w_reads w1 fd)"
    "int (length new) = max 0 k" "w_memused w1 = w_memused w" "w_heap w1 = w_heap w"
proof (cases "int (length data) < bf_capacity bf")
  case True
  then have "bf_capacity bf < 2147483648" "length data < nat (bf_capacity bf)"
    using c by linarith+
  then show ?thesis
    by (rule os_read_stream [OF h, where w = w and fd = fd]) (rule that, assumption+, simp_all add: w_memused_def)
next
  case False
  with h room have "bf_length bf = bf_capacity bf" by (auto elim!: buffer_holdsE)
  moreover have "bf\<lparr>bf_buf := bf_buf bf, bf_length := int (length data)\<rparr> = bf"
    using h by (auto elim!: buffer_holdsE)
  ultimately show ?thesis using that [of 0 "bf_buf bf" w "[]"] h by (simp add: os_read_def)
qed

lemma read_length:
  assumes "buffer_holds bf data" and "buffer_holds (bf\<lparr>bf_buf := m, bf_length := int (length (data @ new))\<rparr>) (data @ new)"
    and "int (length new) = max 0 k" and "bf_capacity bf < 2147483648"
  shows "(if 0 < k then (bf\<lparr>bf_buf := m\<rparr>)\<lparr>bf_length := i32 (bf_length (bf\<lparr>bf_buf := m\<rparr>) + k)\<rparr>
      else bf\<lparr>bf_buf := m\<rparr>) = bf\<lparr>bf_buf := m, bf_length := int (length (data @ new))\<rparr>"
proof -
  have len: "int (length (data @ new)) \<le> bf_capacity bf" "bf_length bf = int (length data)"
    using assms(1,2) by (auto elim!: buffer_holdsE)
  show ?thesis
  proof (cases "0 < k")
    case True
    then have "int (length data) + k = int (length (data @ new))" using assms(3) by simp
    moreover have "i32 (int (length (data @ new))) = int (length (data @ new))"
      using len assms(4) by (intro i32_id) auto
    ultimately show ?thesis using True len by simp
  next
    case False
    then have "new = []" using assms(3) by simp
    with False len show ?thesis by (cases bf) simp
  qed
qed

lemma hs_read_loop_stream:
  assumes "buffer_holds bf data" and "bf_capacity bf \<le> mx" and "mx < 1073741824"
    and "account_ok (w_memused w) bf"
    and "int (length data) < bf_capacity bf \<or> bf_capacity bf = mx"
  shows "\<exists>k bf' w' new. hs_read_loop bf fd mx w = Inr (k, bf', w') \<and> buffer_holds bf' (data @ new)
    \<and> stream (w_reads w fd) = new @ stream (w_reads w' fd)
    \<and> bf_capacity bf \<le> bf_capacity bf' \<and> bf_capacity bf' \<le> mx
    \<and> (int (length (data @ new)) < bf_capacity bf' \<or> bf_capacity bf' = mx)
    \<and> w_memused w' - bf_capacity bf' = w_memused w - bf_capacity bf
    \<and> same_cursor bf bf' \<and> bf_sequence_id bf' = bf_sequence_id bf \<and> w_heap w' = w_heap w"
  using assms
proof (induction "pending (w_reads w fd)" arbitrary: bf data w rule: less_induct)
  case less
  from read_round [OF less.prems(1-3,5), of fd w] obtain k m w1 new where rd:
    "os_read fd (bf_buf bf) (bf_length bf) (bf_capacity bf - bf_length bf) w = Inr (k, m, w1)"
    "buffer_holds (bf\<lparr>bf_buf := m, bf_length := int (length (data @ new))\<rparr>) (data @ new)"
    "stream (w_reads w fd) = new @ stream (w_reads w1 fd)"
    "int (length new) = max 0 k" "w_memused w1 = w_memused w" "w_heap w1 = w_heap w" by blast
  let ?bf = "bf\<lparr>bf_buf := m, bf_length := int (length (data @ new))\<rparr>"
  have "bf_capacity bf < 2147483648" using less.prems(2,3) by simp
  note upd = read_length [OF less.prems(1) rd(2,4) this]
  obtain bf2 m2 where gr: "hs_buffer_grow ?bf (w_memused w1) mx = (bf2, m2)"
    "buffer_holds bf2 (data @ new)" "bf_capacity bf \<le> bf_capacity bf2" "bf_capacity bf2 \<le> mx"
    "int (length (data @ new)) < bf_capacity bf2 \<or> bf_capacity bf2 = mx"
    "m2 - bf_capacity bf2 = w_memused w - bf_capacity bf" "same_cursor bf bf2"
    "bf_sequence_id bf2 = bf_sequence_id bf"
    using hs_buffer_grow_holds [OF rd(2), of mx "w_memused w1"] less.prems rd(5)
    by (auto simp: account_ok_def same_cursor_def)
  let ?w = "set_memused m2 w1"
  have unf: "hs_read_loop bf fd mx w =
      (if 0 < k \<and> bf_capacity bf2 < mx then hs_read_loop bf2 fd mx ?w else Inr (k, bf2, ?w))"
    by (subst hs_read_loop.simps) (simp only: rd(1) sum.case prod.case Let_def upd gr(1))
  have reads: "w_reads ?w = w_reads w1" "w_memused ?w = m2" "w_heap ?w = w_heap w1"
    by (simp_all add: set_memused_def w_memused_def)
  show ?case
  proof (cases "0 < k \<and> bf_capacity bf2 < mx")
    case False
    then show ?thesis
      using unf gr rd(3,6) reads by (intro exI [of _ k] exI [of _ bf2] exI [of _ ?w] exI [of _ new]) auto
  next
    case True
    have dec: "pending (w_reads ?w fd) < pending (w_reads w fd)"
      using os_read_pending [OF rd(1)] True reads(1) by auto
    have acc: "account_ok (w_memused ?w) bf2" using less.prems(4) gr(6) reads by (simp add: account_ok_def)
    obtain k' bf' w' new' where ih: "hs_read_loop bf2 fd mx ?w = Inr (k', bf', w')"
      "buffer_holds bf' ((data @ new) @ new')"
      "stream (w_reads ?w fd) = new' @ stream (w_reads w' fd)"
      "bf_capacity bf2 \<le> bf_capacity bf'" "bf_capacity bf' \<le> mx"
      "int (length ((data @ new) @ new')) < bf_capacity bf' \<or> bf_capacity bf' = mx"
      "w_memused w' - bf_capacity bf' = w_memused ?w - bf_capacity bf2"
      "same_cursor bf2 bf'" "bf_sequence_id bf' = bf_sequence_id bf2" "w_heap w' = w_heap ?w"
      using less.hyps [OF dec gr(2) gr(4) less.prems(3) acc gr(5)] by blast
    show ?thesis
      using unf True gr rd(3,6) reads ih
      by (intro exI [of _ k'] exI [of _ bf'] exI [of _ w'] exI [of _ "new @ new'"])
         (auto simp: same_cursor_def)
  qed
qed


lemma buffer_holds_sequence [simp]:
  "buffer_holds (bf\<lparr>bf_sequence_id := n\<rparr>) data = buffer_holds bf data"
  by (simp add: buffer_holds_def split: option.split)

lemma buffer_init_holds:
  assumes "0 < n"
  shows "buffer_holds (fst (hs_buffer_init n m)) []"
  using assms by (simp add: hs_buffer_init_def buffer_holds_def calloc_block_def buffer_zero_def)

text \<open>
  C6. Filling the read buffer. Whatever the socket has to deliver, in whatever pieces, the read
  loop ends without a fault; the buffer then holds what it held before followed by the bytes
  taken, and what was taken and what the socket still has to deliver are together what it had
  before: no byte is lost, duplicated or reordered. The parser's cursor is not touched and the
  sequence number tells the parser that there is something new.
\<close>

theorem read_into_buffer_appends_stream:
  assumes "buffer_holds bf data" and "bf_capacity bf \<le> mx" and "mx < 1073741824"
    and "account_ok (w_memused w) bf"
    and "int (length data) < bf_capacity bf \<or> bf_capacity bf = mx"
  shows "\<exists>k bf' w' new. hs_read_into_buffer bf fd mx w = Inr (k, bf', w')
    \<and> buffer_holds bf' (data @ new)
    \<and> stream (w_reads w fd) = new @ stream (w_reads w' fd)
    \<and> same_cursor bf bf' \<and> bf_sequence_id bf' = i8 (bf_sequence_id bf + 1)"
proof -
  obtain k bf' w' new where r: "hs_read_loop bf fd mx w = Inr (k, bf', w')"
    "buffer_holds bf' (data @ new)" "stream (w_reads w fd) = new @ stream (w_reads w' fd)"
    "same_cursor bf bf'" "bf_sequence_id bf' = bf_sequence_id bf"
    using hs_read_loop_stream [OF assms, of fd] by blast
  then show ?thesis
    by (intro exI [of _ k] exI [of _ "bf'\<lparr>bf_sequence_id := i8 (bf_sequence_id bf + 1)\<rparr>"]
        exI [of _ w'] exI [of _ new])
       (simp add: hs_read_into_buffer_def same_cursor_def)
qed

text \<open>
  C7. The bounds of the read buffer and the server's account of it. The capacity never shrinks
  and never exceeds the maximum, there is room for the next read unless the maximum is reached,
  and the server's memory account changes by exactly what the capacity changes by.
\<close>

theorem read_into_buffer_bounds:
  assumes "buffer_holds bf data" and "bf_capacity bf \<le> mx" and "mx < 1073741824"
    and "account_ok (w_memused w) bf"
    and "int (length data) < bf_capacity bf \<or> bf_capacity bf = mx"
  shows "\<exists>k bf' w'. hs_read_into_buffer bf fd mx w = Inr (k, bf', w')
    \<and> bf_capacity bf \<le> bf_capacity bf' \<and> bf_capacity bf' \<le> mx
    \<and> (bf_length bf' < bf_capacity bf' \<or> bf_capacity bf' = mx)
    \<and> w_memused w' - bf_capacity bf' = w_memused w - bf_capacity bf"
proof -
  obtain k bf' w' new where r: "hs_read_loop bf fd mx w = Inr (k, bf', w')"
    "buffer_holds bf' (data @ new)" "bf_capacity bf \<le> bf_capacity bf'" "bf_capacity bf' \<le> mx"
    "int (length (data @ new)) < bf_capacity bf' \<or> bf_capacity bf' = mx"
    "w_memused w' - bf_capacity bf' = w_memused w - bf_capacity bf"
    using hs_read_loop_stream [OF assms, of fd] by blast
  moreover from r(2) have "bf_length bf' = int (length (data @ new))" by (auto elim: buffer_holdsE)
  ultimately show ?thesis
    by (intro exI [of _ k] exI [of _ "bf'\<lparr>bf_sequence_id := i8 (bf_sequence_id bf' + 1)\<rparr>"]
        exI [of _ w']) (simp add: hs_read_into_buffer_def)
qed

text \<open>A fresh buffer of 4 bytes and a socket that delivers 11 bytes in two pieces.\<close>

definition sample_socket :: world where
  "sample_socket = sample_world\<lparr>w_reads := (\<lambda>_. [R_Data ''GET '', R_Fail EAGAIN, R_Data ''/ HTTP/'', R_Eof])\<rparr>"

lemma sample_read:
  "buffer_holds (fst (hs_buffer_init 4 0)) []"
  "bf_capacity (fst (hs_buffer_init 4 0)) \<le> 64"
  "account_ok (w_memused sample_socket) (fst (hs_buffer_init 4 0))"
  "int (length ([] :: string)) < bf_capacity (fst (hs_buffer_init 4 0))"
  by (simp_all add: buffer_init_holds account_ok_def)
     (simp_all add: hs_buffer_init_def w_memused_def sample_socket_def sample_world_def sample_server_def)

theorem read_into_buffer_appends_stream_witness:
  "\<exists>k bf' w' new. hs_read_into_buffer (fst (hs_buffer_init 4 0)) 9 64 sample_socket = Inr (k, bf', w')
    \<and> buffer_holds bf' new
    \<and> ''GET / HTTP/'' = new @ stream (w_reads w' 9)
    \<and> same_cursor (fst (hs_buffer_init 4 0)) bf' \<and> bf_sequence_id bf' = 1"
  using read_into_buffer_appends_stream [OF sample_read(1,2) _ sample_read(3) disjI1 [OF sample_read(4)], of 9]
  by (simp add: sample_socket_def hs_buffer_init_def buffer_zero_def i8_id)

theorem read_into_buffer_bounds_witness:
  "\<exists>k bf' w'. hs_read_into_buffer (fst (hs_buffer_init 4 0)) 9 64 sample_socket = Inr (k, bf', w')
    \<and> 4 \<le> bf_capacity bf' \<and> bf_capacity bf' \<le> 64
    \<and> (bf_length bf' < bf_capacity bf' \<or> bf_capacity bf' = 64)
    \<and> w_memused w' - bf_capacity bf' = - 4"
  using read_into_buffer_bounds [OF sample_read(1,2) _ sample_read(3) disjI1 [OF sample_read(4)], of 9]
  by (simp add: hs_buffer_init_def buffer_zero_def w_memused_def sample_socket_def sample_world_def
      sample_server_def)

lemma array_push:
  assumes "array_holds arr ts" and "ta_capacity arr < 1073741824"
  shows "\<exists>arr'. hs_token_array_push arr t = Inr arr' \<and> array_holds arr' (ts @ [t])
    \<and> (ta_capacity arr' = ta_capacity arr
       \<or> ta_capacity arr' = 2 * ta_capacity arr \<and> ta_capacity arr = int (length ts))"
  using assms(1)
proof (rule array_holdsE)
  fix b
  assume b: "ta_buf arr = Some b" "int (length b) = ta_capacity arr" "holds (Some b) ts"
    "ta_size arr = int (length ts)" "0 < ta_capacity arr" "length ts \<le> length b"
  have size: "i32 (int (length ts) + 1) = int (length ts) + 1"
    using b assms(2) by (intro i32_id) auto
  have cap: "ta_capacity arr = int (length b)" using b by simp
  show ?thesis
  proof (cases "length ts = length b")
    case False
    with b have "length ts < length b" by simp
    then obtain b' where "store (Some b) (int (length ts)) [Some t] = Inr (Some b')"
      "length b' = length b" "holds (Some b') (ts @ [t])"
      using store_next [OF b(3)] by blast
    moreover from this have "hs_token_array_push arr t
        = Inr (arr\<lparr>ta_buf := Some b', ta_size := int (length ts) + 1\<rparr>)"
      by (simp add: hs_token_array_push_def Let_def b(1,4) cap False size)
    ultimately show ?thesis using b(5) cap
      by (simp add: array_holds_def)
  next
    case True
    let ?n = "int (length b) * 2"
    have n: "i32 ?n = ?n" using cap assms(2) by (intro i32_id) auto
    obtain c where c: "realloc_block (Some b) ?n = Some c" "length c = length b * 2"
      using block_size_realloc [of "Some b" ?n] by (auto simp: realloc_block_def Let_def)
    have "holds (Some c) ts" using holds_realloc [OF b(3), of ?n] b(6) c(1) by simp
    moreover have "length ts < length c" using b(5) c(2) cap True by simp
    ultimately obtain b' where b': "store (Some c) (int (length ts)) [Some t] = Inr (Some b')"
      "length b' = length c" "holds (Some b') (ts @ [t])"
      using store_next [of c ts t] by auto
    have "hs_token_array_push arr t
        = Inr (arr\<lparr>ta_capacity := ?n, ta_buf := Some b', ta_size := int (length ts) + 1\<rparr>)"
      using b'(1) by (simp add: hs_token_array_push_def Let_def b(1,4) cap True n c(1) size [unfolded True])
    with b'(2,3) c(2) b(5) cap True show ?thesis
      by (auto simp: array_holds_def)
  qed
qed

text \<open>
  C8. Pushing a token appends it. The array, its growth by doubling included, is the list of
  the tokens pushed so far; it never writes outside its block.
\<close>

theorem token_array_push_appends:
  assumes "array_holds arr ts" and "ta_capacity arr < 1073741824"
  shows "\<exists>arr'. hs_token_array_push arr t = Inr arr' \<and> array_holds arr' (ts @ [t])
    \<and> ta_capacity arr' \<le> 2 * ta_capacity arr"
proof -
  have "0 < ta_capacity arr" using assms(1) by (auto elim: array_holdsE)
  with array_push [OF assms, of t] show ?thesis by auto
qed

theorem token_array_push_appends_witness:
  "\<exists>arr'. hs_token_array_push \<lparr>ta_buf = Some [Some token_none], ta_capacity = 1, ta_size = 1\<rparr> token_zero
      = Inr arr'
    \<and> array_holds arr' [token_none, token_zero] \<and> ta_capacity arr' \<le> 2"
  using token_array_push_appends
    [of "\<lparr>ta_buf = Some [Some token_none], ta_capacity = 1, ta_size = 1\<rparr>" "[token_none]" token_zero]
  by (simp add: array_holds_def holds_def)

end
