(* ===== verification/Request_Util.thy ===== *)
theory Request_Util
  imports Parser_Grammar World
begin

text \<open>
  \<^verbatim>\<open>src/src/request_util.c\<close>: looking up the parts of a parsed request in its token
  array, header lookup and iteration, and the keep-alive decision.

  A \<open>http_string_t\<close> is a pointer into the read buffer and a length. The pointer is modelled
  by its offset from \<open>buffer.buf\<close> (\<open>None\<close> is the null pointer of \<open>{0, 0}\<close>); it
  is formed without looking at the buffer, as in the code, and reading through it when the
  buffer has been freed is a null pointer fault.
\<close>

definition HTTP_1_0 :: bool where "HTTP_1_0 = False"
definition HTTP_1_1 :: bool where "HTTP_1_1 = True"

record http_string_s =
  st_buf :: "int option"
  st_len :: int

definition string_null :: http_string_s where
  "string_null = \<lparr>st_buf = None, st_len = 0\<rparr>"

text \<open>The string that \<open>{.buf = &request->buffer.buf[token.index], .len = token.len}\<close> builds.\<close>

definition token_string :: "hsh_token_s \<Rightarrow> http_string_s" where
  "token_string t = \<lparr>st_buf = Some (tk_index t), st_len = tk_len t\<rparr>"

text \<open>A C string literal or argument as a block, with its terminating zero.\<close>

definition c_string :: "string \<Rightarrow> char block option" where
  "c_string s = Some (map Some (s @ [nul]))"

section \<open>Comparison\<close>

text \<open>
  \<open>case_insensitive_cmp a i b j n\<close> compares \<open>n\<close> characters at the offsets \<open>i\<close> of
  \<open>a\<close> and \<open>j\<close> of \<open>b\<close>.
\<close>

primrec hs_case_insensitive_cmp ::
    "char block option \<Rightarrow> int \<Rightarrow> char block option \<Rightarrow> int \<Rightarrow> nat \<Rightarrow> bool result"
  where
  "hs_case_insensitive_cmp a i b j 0 = Inr True"
| "hs_case_insensitive_cmp a i b j (Suc n) =
     bindr (rd a i) (\<lambda>c1. bindr (rd b j) (\<lambda>c2.
       if to_lower c1 \<noteq> to_lower c2 then Inr False
       else hs_case_insensitive_cmp a (i + 1) b (j + 1) n))"

section \<open>Tokens\<close>

text \<open>The loop over the tokens from \<open>i\<close> on, \<open>n\<close> of them.\<close>

primrec find_token ::
    "hsh_token_s block option \<Rightarrow> hsh_token_e \<Rightarrow> int \<Rightarrow> nat \<Rightarrow> http_string_s result"
  where
  "find_token buf token_type i 0 = Inr string_null"
| "find_token buf token_type i (Suc n) =
     bindr (rd buf i) (\<lambda>token.
       if tk_type token = token_type then Inr (token_string token)
       else find_token buf token_type (i + 1) n)"

definition hs_get_token_string :: "http_request_s \<Rightarrow> hsh_token_e \<Rightarrow> http_string_s result" where
  "hs_get_token_string request token_type =
     (if ta_buf (rq_tokens request) = None then Inr string_null
      else find_token (ta_buf (rq_tokens request)) token_type 0 (nat (ta_size (rq_tokens request))))"

primrec find_header ::
    "hsh_token_s block option \<Rightarrow> char block option \<Rightarrow> string \<Rightarrow> int \<Rightarrow> nat \<Rightarrow> http_string_s result"
  where
  "find_header toks buf key i 0 = Inr string_null"
| "find_header toks buf key i (Suc n) =
     bindr (rd toks i) (\<lambda>token.
       bindr (if tk_type token = HSH_TOK_HEADER_KEY \<and> tk_len token = int (length key)
              then hs_case_insensitive_cmp buf (tk_index token) (c_string key) 0 (length key)
              else Inr False) (\<lambda>found.
         if found then bindr (rd toks (i + 1)) (\<lambda>token. Inr (token_string token))
         else find_header toks buf key (i + 1) n))"

definition hs_request_header :: "http_request_s \<Rightarrow> string \<Rightarrow> http_string_s result" where
  "hs_request_header request key =
     find_header (ta_buf (rq_tokens request)) (bf_buf (rq_buffer request)) key 0
       (nat (ta_size (rq_tokens request)))"

section \<open>Keep alive\<close>

definition connection_is_close :: "http_request_s \<Rightarrow> http_string_s \<Rightarrow> bool result" where
  "connection_is_close request str =
     (if st_len str = 5
      then case st_buf str of
             None \<Rightarrow> Inl Null_Pointer
           | Some off \<Rightarrow> hs_case_insensitive_cmp (bf_buf (rq_buffer request)) off (c_string ''close'') 0 5
      else Inr False)"

definition hs_request_detect_keep_alive_flag :: "http_request_s \<Rightarrow> http_request_s result" where
  "hs_request_detect_keep_alive_flag request =
     bindr (hs_get_token_string request HSH_TOK_VERSION) (\<lambda>str.
       case st_buf str of
         None \<Rightarrow> Inr request
       | Some off \<Rightarrow>
           bindr (rd (bf_buf (rq_buffer request)) (off + st_len str - 1)) (\<lambda>c.
             let version = (c = CHR ''1'') in
             bindr (hs_request_header request ''Connection'') (\<lambda>str.
               bindr (connection_is_close request str) (\<lambda>close.
                 if close \<or> (st_len str = 0 \<and> version = HTTP_1_0)
                 then Inr (request\<lparr>rq_flags := HTTP_FLAG_CLEAR (rq_flags request) HTTP_KEEP_ALIVE\<rparr>)
                 else Inr (request\<lparr>rq_flags := HTTP_FLAG_SET (rq_flags request) HTTP_KEEP_ALIVE\<rparr>)))))"

definition hs_request_set_keep_alive_flag :: "http_request_s \<Rightarrow> 8 word \<Rightarrow> http_request_s" where
  "hs_request_set_keep_alive_flag request directive =
     (if directive = HTTP_KEEP_ALIVE
      then let flags = HTTP_FLAG_CLEAR (rq_flags request) HTTP_AUTOMATIC
           in request\<lparr>rq_flags := HTTP_FLAG_SET flags HTTP_KEEP_ALIVE\<rparr>
      else if directive = HTTP_CLOSE
      then let flags = HTTP_FLAG_CLEAR (rq_flags request) HTTP_AUTOMATIC
           in request\<lparr>rq_flags := HTTP_FLAG_CLEAR flags HTTP_KEEP_ALIVE\<rparr>
      else request)"

section \<open>Iteration over the headers\<close>

text \<open>\<open>None\<close> is the return value 0, \<open>Some (key, val)\<close> the return value 1.\<close>

definition hs_get_header_key_val ::
    "http_request_s \<Rightarrow> int \<Rightarrow> (http_string_s \<times> http_string_s) option result"
  where
  "hs_get_header_key_val request iter =
     bindr (rd (ta_buf (rq_tokens request)) iter) (\<lambda>token.
       if tk_type token = HSH_TOK_HEADERS_DONE then Inr None
       else bindr (rd (ta_buf (rq_tokens request)) (iter + 1)) (\<lambda>val.
              Inr (Some (token_string token, token_string val))))"

primrec first_header ::
    "http_request_s \<Rightarrow> int \<Rightarrow> nat \<Rightarrow> ((http_string_s \<times> http_string_s) option \<times> int) result"
  where
  "first_header request iter 0 = Inr (None, iter)"
| "first_header request iter (Suc n) =
     bindr (rd (ta_buf (rq_tokens request)) iter) (\<lambda>token.
       if tk_type token = HSH_TOK_HEADER_KEY
       then bindr (hs_get_header_key_val request iter) (\<lambda>more. Inr (more, iter + 1))
       else first_header request (iter + 1) n)"

definition hs_request_iterate_headers ::
    "http_request_s \<Rightarrow> int \<Rightarrow> ((http_string_s \<times> http_string_s) option \<times> int) result"
  where
  "hs_request_iterate_headers request iter =
     (if iter = 0 then first_header request 0 (nat (ta_size (rq_tokens request)))
      else bindr (hs_get_header_key_val request (iter + 1)) (\<lambda>more. Inr (more, iter + 2)))"

definition hs_request_chunk :: "http_request_s \<Rightarrow> http_string_s result" where
  "hs_request_chunk request =
     bindr (rd (ta_buf (rq_tokens request)) (ta_size (rq_tokens request) - 1)) (\<lambda>token.
       Inr (token_string token))"

end
