(* ===== verification/Request_Props.thy ===== *)
theory Request_Props
  imports Request_Util Read_Props
begin

text \<open>
  What the inspection functions of a request compute, against the list of its tokens with the
  text each of them stands for.
\<close>

section \<open>Texts of tokens\<close>

text \<open>The bytes of the text \<open>s\<close> can be read from offset \<open>off\<close> on.\<close>

definition points_to :: "char block option \<Rightarrow> int \<Rightarrow> string \<Rightarrow> bool" where
  "points_to m off s \<longleftrightarrow> list_all (\<lambda>k. rd m (off + int k) = Inr (s ! k)) [0..<length s]"

lemma points_to_iff: "points_to m off s \<longleftrightarrow> (\<forall>k < length s. rd m (off + int k) = Inr (s ! k))"
  by (auto simp: points_to_def list_all_iff)

lemma points_to_Nil [simp]: "points_to m off []"
  by (simp add: points_to_def)

lemma points_to_Cons [simp]:
  "points_to m off (c # s) \<longleftrightarrow> rd m off = Inr c \<and> points_to m (off + 1) s"
  by (simp add: points_to_iff All_less_Suc2 add.assoc)

lemma points_to_holds: "holds m (a @ s @ b) \<Longrightarrow> points_to m (int (length a)) s"
proof -
  assume h: "holds m (a @ s @ b)"
  have "rd m (int (length a) + int k) = Inr (s ! k)" if "k < length s" for k
  proof -
    have n: "nat (int (length a) + int k) = length a + k" by simp
    show ?thesis
      using rd_holds [OF h, of "int (length a) + int k"] that unfolding n
      by (simp add: nth_append)
  qed
  then show ?thesis by (simp add: points_to_iff)
qed

lemma points_to_c_string: "points_to (c_string s) 0 s"
  using points_to_holds [of "c_string s" "[]" s "[nul]"] by (simp add: c_string_def holds_def)

text \<open>A token with its text, and a request whose tokens stand for the given texts.\<close>

definition token_text :: "char block option \<Rightarrow> hsh_token_s \<Rightarrow> string \<Rightarrow> bool" where
  "token_text m t s \<longleftrightarrow> tk_len t = int (length s) \<and> points_to m (tk_index t) s"

definition request_reads :: "http_request_s \<Rightarrow> (hsh_token_s \<times> string) list \<Rightarrow> bool" where
  "request_reads rq tts \<longleftrightarrow>
     array_holds (rq_tokens rq) (map fst tts)
     \<and> list_all (\<lambda>(t, s). token_text (bf_buf (rq_buffer rq)) t s) tts"

section \<open>Caseless comparison\<close>

lemma cmp_points_to:
  "length xs = length ys \<Longrightarrow> points_to a i xs \<Longrightarrow> points_to b j ys \<Longrightarrow>
     hs_case_insensitive_cmp a i b j (length xs) = Inr (map to_lower xs = map to_lower ys)"
  by (induction xs ys arbitrary: i j rule: list_induct2) simp_all

lemma cmp_literal:
  assumes "points_to m off s" and "length s = length key"
  shows "hs_case_insensitive_cmp m off (c_string key) 0 (length key)
    = Inr (map to_lower s = map to_lower key)"
  using cmp_points_to [OF assms(2,1) points_to_c_string [of key]] assms(2) by simp

text \<open>
  Equality up to letter case, without the arithmetic on codes that the comparison uses: two
  characters are the same, or they are the two forms of one of the 26 letters.
\<close>

definition letter_pairs :: "(char \<times> char) list" where
  "letter_pairs = zip ''ABCDEFGHIJKLMNOPQRSTUVWXYZ'' ''abcdefghijklmnopqrstuvwxyz''"

definition same_but_case :: "char \<Rightarrow> char \<Rightarrow> bool" where
  "same_but_case c d \<longleftrightarrow> c = d \<or> (c, d) \<in> set letter_pairs \<or> (d, c) \<in> set letter_pairs"

lemma to_lower_letters: "\<forall>(u, l) \<in> set letter_pairs. to_lower u = l \<and> to_lower l = l"
  by (simp add: letter_pairs_def to_lower_eq_iff c_int_to_lower c_int_Char del: c_int_eq_iff)

lemma letter_codes: "\<forall>n \<in> set [0..<26]. c_int (fst (letter_pairs ! n)) = 65 + int n"
  by (simp add: letter_pairs_def upt_rec c_int_Char)

lemma to_lower_others: "c \<in> fst ` set letter_pairs \<or> to_lower c = c"
proof (cases "65 \<le> c_int c \<and> c_int c \<le> 90")
  case True
  define n where "n = nat (c_int c - 65)"
  have n: "n < 26" "c_int c = 65 + int n" using True by (auto simp: n_def)
  then have "c_int (fst (letter_pairs ! n)) = c_int c" using letter_codes by simp
  moreover have "letter_pairs ! n \<in> set letter_pairs" using n by (intro nth_mem) (simp add: letter_pairs_def)
  ultimately show ?thesis by (metis c_int_eq_iff imageI)
next
  case False
  then show ?thesis by (auto simp: to_lower_def)
qed

lemma letter_pairs_inj:
  "\<forall>(u, l) \<in> set letter_pairs. \<forall>(u', l') \<in> set letter_pairs. l = l' \<longrightarrow> u = u'"
  by (simp add: letter_pairs_def)

lemma to_lower_eq: "to_lower c = to_lower d \<longleftrightarrow> same_but_case c d"
proof
  assume eq: "to_lower c = to_lower d"
  have up: "(e, to_lower e) \<in> set letter_pairs \<or> to_lower e = e" for e
    using to_lower_others [of e] to_lower_letters by fastforce
  consider "to_lower c = c" | "to_lower d = d"
    | "(c, to_lower c) \<in> set letter_pairs" "(d, to_lower c) \<in> set letter_pairs"
    using up [of c] up [of d] eq by auto
  then show "same_but_case c d"
  proof cases
    case 1
    then show ?thesis using up [of d] eq by (auto simp: same_but_case_def)
  next
    case 2
    then show ?thesis using up [of c] eq by (auto simp: same_but_case_def)
  next
    case 3
    then have "c = d" using letter_pairs_inj by blast
    then show ?thesis by (simp add: same_but_case_def)
  qed
next
  assume "same_but_case c d"
  with to_lower_letters show "to_lower c = to_lower d"
    unfolding same_but_case_def by auto
qed

lemma to_lower_texts: "map to_lower xs = map to_lower ys \<longleftrightarrow> list_all2 same_but_case xs ys"
  by (simp add: list_all2_conv_all_nth list_eq_iff_nth_eq [of "map to_lower xs"] to_lower_eq cong: conj_cong)

text \<open>
  C10. The comparison of header names is equality up to the case of the ASCII letters, decided
  for every two texts of the same length, without reading past them: it succeeds exactly if the
  characters at each position are equal or are the upper and the lower case form of one of the
  26 letters.
\<close>

theorem case_insensitive_cmp_equiv:
  assumes "points_to a i xs" and "points_to b j ys" and "length xs = length ys"
  shows "hs_case_insensitive_cmp a i b j (length xs) = Inr (list_all2 same_but_case xs ys)"
  using cmp_points_to assms by (simp add: to_lower_texts)

theorem case_insensitive_cmp_equiv_witness:
  "hs_case_insensitive_cmp (c_string ''Zone-A'') 0 (c_string ''zONE-a'') 0 (length ''Zone-A'') = Inr True
   \<and> hs_case_insensitive_cmp (c_string ''x@'') 0 (c_string ''X`'') 0 (length ''x@'') = Inr False"
proof -
  have "list_all2 same_but_case ''Zone-A'' ''zONE-a''" "\<not> list_all2 same_but_case ''x@'' ''X`''"
    by code_simp+
  then show ?thesis
    using case_insensitive_cmp_equiv [OF points_to_c_string points_to_c_string, of "''Zone-A''" "''zONE-a''"]
      case_insensitive_cmp_equiv [OF points_to_c_string points_to_c_string, of "''x@''" "''X`''"]
    by (simp del: hs_case_insensitive_cmp.simps)
qed

section \<open>Looking up a header\<close>

text \<open>
  The value that belongs to a header name: the token behind the first key token whose text is
  the name up to letter case.
\<close>

fun lookup_header :: "(hsh_token_s \<times> string) list \<Rightarrow> string \<Rightarrow> hsh_token_s option" where
  "lookup_header [] key = None"
| "lookup_header ((t, s) # tts) key =
     (if tk_type t = HSH_TOK_HEADER_KEY \<and> map to_lower s = map to_lower key
      then map_option fst (case tts of [] \<Rightarrow> None | v # _ \<Rightarrow> Some v)
      else lookup_header tts key)"

definition header_string :: "hsh_token_s option \<Rightarrow> http_string_s" where
  "header_string v = (case v of None \<Rightarrow> string_null | Some t \<Rightarrow> token_string t)"

text \<open>The last token is not a header key, as the parser leaves it when it calls the user.\<close>

definition closed_tokens :: "(hsh_token_s \<times> string) list \<Rightarrow> bool" where
  "closed_tokens tts \<longleftrightarrow> tts = [] \<or> tk_type (fst (last tts)) \<noteq> HSH_TOK_HEADER_KEY"

lemma find_header_lookup:
  assumes "holds toks (map fst (done @ tts))" and "closed_tokens tts"
    and "list_all (\<lambda>(t, s). token_text m t s) tts"
  shows "find_header toks m key (int (length done)) (length tts) = Inr (header_string (lookup_header tts key))"
  using assms
proof (induction tts arbitrary: "done")
  case Nil
  then show ?case by (simp add: header_string_def)
next
  case (Cons x tts)
  obtain t s where x: "x = (t, s)" by (cases x)
  have t: "rd toks (int (length done)) = Inr t"
    using rd_holds [OF Cons.prems(1), of "int (length done)"] by (simp add: x nth_append)
  have tok: "token_text m t s" using Cons.prems(3) by (simp add: x)
  have IH: "find_header toks m key (int (length done) + 1) (length tts)
      = Inr (header_string (lookup_header tts key))"
    using Cons.IH [of "done @ [x]"] Cons.prems by (auto simp: closed_tokens_def add.commute split: if_splits)
  show ?case
  proof (cases "tk_type t = HSH_TOK_HEADER_KEY \<and> tk_len t = int (length key)")
    case False
    then have "\<not> (tk_type t = HSH_TOK_HEADER_KEY \<and> map to_lower s = map to_lower key)"
      using tok map_eq_imp_length_eq by (fastforce simp: token_text_def)
    with False t IH show ?thesis by (auto simp: x)
  next
    case True
    then have cmp: "hs_case_insensitive_cmp m (tk_index t) (c_string key) 0 (length key)
        = Inr (map to_lower s = map to_lower key)"
      using tok by (intro cmp_literal) (auto simp: token_text_def)
    show ?thesis
    proof (cases "map to_lower s = map to_lower key")
      case False
      with True t cmp IH show ?thesis by (simp add: x)
    next
      case eq: True
      from True Cons.prems(2) obtain v tts' where v: "tts = v # tts'"
        by (cases tts) (auto simp: closed_tokens_def x)
      have "rd toks (int (length done) + 1) = Inr (fst v)"
        using rd_holds [OF Cons.prems(1), of "int (length done) + 1"]
        by (simp add: v nth_append nat_add_distrib)
      with True t cmp eq show ?thesis by (simp add: x v header_string_def)
    qed
  qed
qed

lemma request_header_lookup:
  assumes "request_reads rq tts" and "closed_tokens tts"
  shows "hs_request_header rq key = Inr (header_string (lookup_header tts key))"
  using find_header_lookup [of "ta_buf (rq_tokens rq)" "[]" tts] assms
  by (auto simp: hs_request_header_def request_reads_def elim!: array_holdsE)


text \<open>A parsed request in its buffer: \<open>GET / HTTP/1.1\<close> with two headers.\<close>

definition sample_tokens :: "(hsh_token_s \<times> string) list" where
  "sample_tokens =
     [(\<lparr>tk_type = HSH_TOK_METHOD, tk_flags = 0, tk_len = 3, tk_index = 0\<rparr>, ''GET''),
      (\<lparr>tk_type = HSH_TOK_TARGET, tk_flags = 0, tk_len = 1, tk_index = 4\<rparr>, ''/''),
      (\<lparr>tk_type = HSH_TOK_VERSION, tk_flags = 0, tk_len = 8, tk_index = 6\<rparr>, ''HTTP/1.1''),
      (\<lparr>tk_type = HSH_TOK_HEADER_KEY, tk_flags = 0, tk_len = 4, tk_index = 16\<rparr>, ''Host''),
      (\<lparr>tk_type = HSH_TOK_HEADER_VALUE, tk_flags = 0, tk_len = 1, tk_index = 22\<rparr>, ''a''),
      (\<lparr>tk_type = HSH_TOK_HEADER_KEY, tk_flags = 0, tk_len = 10, tk_index = 25\<rparr>, ''Connection''),
      (\<lparr>tk_type = HSH_TOK_HEADER_VALUE, tk_flags = 0, tk_len = 5, tk_index = 37\<rparr>, ''close''),
      (\<lparr>tk_type = HSH_TOK_HEADERS_DONE, tk_flags = 1, tk_len = 0, tk_index = 0\<rparr>, [])]"

definition sample_head :: string where
  "sample_head = ''GET / HTTP/1.1'' @ crlf @ ''Host: a'' @ crlf @ ''Connection: close'' @ crlf @ crlf"

definition sample_request :: http_request_s where
  "sample_request = \<lparr>rq_handler = On_Client_Connection, rq_timer_handler = Some On_Request_Timer,
     rq_chunk_cb = None, rq_data = 0,
     rq_buffer = buffer_zero\<lparr>bf_buf := Some (map Some sample_head), bf_capacity := 46, bf_length := 46,
       bf_index := 46\<rparr>,
     rq_parser = hsh_parser_init,
     rq_tokens = \<lparr>ta_buf = Some (map (Some \<circ> fst) sample_tokens), ta_capacity = 8, ta_size = 8\<rparr>,
     rq_state = HTTP_SESSION_READ, rq_socket = 9, rq_timerfd = 10, rq_timeout = 20,
     rq_bytes_written = 0, rq_flags = HTTP_AUTOMATIC\<rparr>"

lemma sample_request_reads: "request_reads sample_request sample_tokens" "closed_tokens sample_tokens"
  by (simp_all add: request_reads_def sample_request_def sample_tokens_def array_holds_def holds_def
      token_text_def closed_tokens_def sample_head_def crlf_def rd_def)

text \<open>
  C11. Header lookup. For a request whose tokens stand for known texts, the lookup of a name
  returns the value of the first header with that name up to letter case, and the null string
  when there is none; it reads no token and no byte outside the request.
\<close>

theorem request_header_first_match:
  assumes "request_reads rq tts" and "closed_tokens tts"
  shows "hs_request_header rq key = Inr (header_string (lookup_header tts key))"
  using assms request_header_lookup by blast

theorem request_header_first_match_witness:
  "hs_request_header sample_request ''HOST'' = Inr \<lparr>st_buf = Some 22, st_len = 1\<rparr>"
proof -
  have "header_string (lookup_header sample_tokens ''HOST'') = \<lparr>st_buf = Some 22, st_len = 1\<rparr>"
    by code_simp
  with request_header_first_match [OF sample_request_reads] show ?thesis by simp
qed

section \<open>Keep alive\<close>

fun find_type :: "(hsh_token_s \<times> string) list \<Rightarrow> hsh_token_e \<Rightarrow> (hsh_token_s \<times> string) option" where
  "find_type [] ty = None"
| "find_type ((t, s) # tts) ty = (if tk_type t = ty then Some (t, s) else find_type tts ty)"

lemma find_token_type:
  assumes "holds toks (map fst (done @ tts))"
  shows "find_token toks ty (int (length done)) (length tts)
    = Inr (header_string (map_option fst (find_type tts ty)))"
  using assms
proof (induction tts arbitrary: "done")
  case Nil
  then show ?case by (simp add: header_string_def)
next
  case (Cons x tts)
  obtain t s where x: "x = (t, s)" by (cases x)
  have t: "rd toks (int (length done)) = Inr t"
    using rd_holds [OF Cons.prems, of "int (length done)"] by (simp add: x nth_append)
  have "find_token toks ty (int (length done) + 1) (length tts)
      = Inr (header_string (map_option fst (find_type tts ty)))"
    using Cons.IH [of "done @ [x]"] Cons.prems by (simp add: add.commute)
  with t show ?case by (simp add: x header_string_def)
qed

lemma get_token_string_type:
  assumes "request_reads rq tts"
  shows "hs_get_token_string rq ty = Inr (header_string (map_option fst (find_type tts ty)))"
  using find_token_type [of "ta_buf (rq_tokens rq)" "[]" tts] assms
  by (auto simp: hs_get_token_string_def request_reads_def elim!: array_holdsE)

lemma find_type_in: "find_type tts ty = Some (t, s) \<Longrightarrow> (t, s) \<in> set tts"
  by (induction tts ty rule: find_type.induct) (auto split: if_splits)

lemma lookup_header_in: "lookup_header tts key = Some t \<Longrightarrow> \<exists>s. (t, s) \<in> set tts"
  by (induction tts key rule: lookup_header.induct) (auto split: if_splits list.splits)

text \<open>
  The decision that the documentation describes: HTTP/1.1 keeps the connection unless told to
  close it, HTTP/1.0 closes it unless there is a \<open>Connection\<close> header other than
  \<open>close\<close>. \<open>conn\<close> is the text of that header, \<open>v\<close> of the version.
\<close>

definition keep_alive :: "string \<Rightarrow> string option \<Rightarrow> bool" where
  "keep_alive v conn = (case conn of
       None \<Rightarrow> last v = CHR ''1''
     | Some c \<Rightarrow> map to_lower c \<noteq> ''close'' \<and> (c \<noteq> [] \<or> last v = CHR ''1''))"

definition set_keep_alive :: "bool \<Rightarrow> http_request_s \<Rightarrow> http_request_s" where
  "set_keep_alive b rq = rq\<lparr>rq_flags :=
     (if b then HTTP_FLAG_SET (rq_flags rq) HTTP_KEEP_ALIVE
      else HTTP_FLAG_CLEAR (rq_flags rq) HTTP_KEEP_ALIVE)\<rparr>"

text \<open>The text that a lookup finds.\<close>

definition header_text :: "(hsh_token_s \<times> string) list \<Rightarrow> string \<Rightarrow> string option" where
  "header_text tts key = (case lookup_header tts key of None \<Rightarrow> None | Some t \<Rightarrow> map_of tts t)"

lemma token_text_at_end:
  assumes "token_text m t s" and "s \<noteq> []"
  shows "rd m (tk_index t + tk_len t - 1) = Inr (last s)"
proof -
  have "rd m (tk_index t + int (length s - 1)) = Inr (s ! (length s - 1))"
    using assms by (simp add: token_text_def points_to_iff)
  moreover have "int (length s - 1) = tk_len t - 1"
    using assms by (cases s) (simp_all add: token_text_def)
  ultimately show ?thesis using assms(2) by (simp add: last_conv_nth add_diff_eq)
qed

lemma to_lower_close: "map to_lower ''close'' = ''close''"
  by code_simp

lemma connection_is_close_text:
  assumes "request_reads rq tts" and "(t, s) \<in> set tts"
  shows "connection_is_close rq (token_string t) = Inr (map to_lower s = ''close'')"
proof -
  have tok: "token_text (bf_buf (rq_buffer rq)) t s"
    using assms by (auto simp: request_reads_def list_all_iff)
  show ?thesis
  proof (cases "length s = length ''close''")
    case True
    then have "hs_case_insensitive_cmp (bf_buf (rq_buffer rq)) (tk_index t) (c_string ''close'') 0
        (length ''close'') = Inr (map to_lower s = map to_lower ''close'')"
      using tok by (intro cmp_literal) (auto simp: token_text_def)
    moreover have "length ''close'' = 5" by simp
    ultimately show ?thesis
      using tok True to_lower_close by (simp only:) (simp add: connection_is_close_def token_string_def token_text_def)
  next
    case False
    then have "map to_lower s \<noteq> ''close''" using map_eq_imp_length_eq [of to_lower s id "''close''"] by auto
    with False tok show ?thesis
      by (simp add: connection_is_close_def token_string_def token_text_def)
  qed
qed

lemma detect_keep_alive_found:
  assumes "request_reads rq tts" and "closed_tokens tts"
    and "find_type tts HSH_TOK_VERSION = Some (t, v)" and "v \<noteq> []"
    and "case conn of None \<Rightarrow> lookup_header tts ''Connection'' = None
      | Some s \<Rightarrow> \<exists>u. lookup_header tts ''Connection'' = Some u \<and> (u, s) \<in> set tts"
  shows "hs_request_detect_keep_alive_flag rq = Inr (set_keep_alive (keep_alive v conn) rq)"
proof -
  have ver: "hs_get_token_string rq HSH_TOK_VERSION = Inr (token_string t)"
    using get_token_string_type [OF assms(1)] assms(3) by (simp add: header_string_def)
  have "token_text (bf_buf (rq_buffer rq)) t v"
    using assms(1) find_type_in [OF assms(3)] by (auto simp: request_reads_def list_all_iff)
  then have last: "rd (bf_buf (rq_buffer rq)) (tk_index t + tk_len t - 1) = Inr (last v)"
    using token_text_at_end assms(4) by blast
  show ?thesis
  proof (cases conn)
    case None
    with assms(5) have "hs_request_header rq ''Connection'' = Inr string_null"
      using request_header_lookup [OF assms(1,2)] by (simp add: header_string_def)
    then show ?thesis
      using ver last None
      by (simp add: hs_request_detect_keep_alive_flag_def token_string_def string_null_def
          connection_is_close_def keep_alive_def set_keep_alive_def HTTP_1_0_def Let_def)
  next
    case (Some s)
    with assms(5) obtain u where u: "lookup_header tts ''Connection'' = Some u" "(u, s) \<in> set tts" by auto
    have hd: "hs_request_header rq ''Connection'' = Inr (token_string u)"
      using request_header_lookup [OF assms(1,2)] u(1) by (simp add: header_string_def)
    have "tk_len u = int (length s)"
      using assms(1) u(2) by (auto simp: request_reads_def list_all_iff token_text_def)
    then show ?thesis
      using ver last hd connection_is_close_text [OF assms(1) u(2)] Some
      by (auto simp: hs_request_detect_keep_alive_flag_def token_string_def keep_alive_def
          set_keep_alive_def HTTP_1_0_def Let_def)
  qed
qed

text \<open>
  C12. The keep-alive decision. Before a response is serialized, the flag is set exactly when the
  request's version and its \<open>Connection\<close> header ask for it.
\<close>

theorem detect_keep_alive_decides:
  assumes "request_reads rq tts" and "closed_tokens tts" and "distinct (map fst tts)"
    and "find_type tts HSH_TOK_VERSION = Some (t, v)" and "v \<noteq> []"
  shows "hs_request_detect_keep_alive_flag rq
    = Inr (set_keep_alive (keep_alive v (header_text tts ''Connection'')) rq)"
proof (rule detect_keep_alive_found [OF assms(1,2,4,5)])
  show "case header_text tts ''Connection'' of None \<Rightarrow> lookup_header tts ''Connection'' = None
      | Some s \<Rightarrow> \<exists>u. lookup_header tts ''Connection'' = Some u \<and> (u, s) \<in> set tts"
  proof (cases "lookup_header tts ''Connection''")
    case (Some u)
    then obtain s where "(u, s) \<in> set tts" using lookup_header_in by blast
    with Some assms(3) show ?thesis by (simp add: header_text_def)
  qed (simp add: header_text_def)
qed

theorem detect_keep_alive_decides_witness:
  "hs_request_detect_keep_alive_flag sample_request = Inr (set_keep_alive False sample_request)"
proof -
  have "keep_alive ''HTTP/1.1'' (header_text sample_tokens ''Connection'') = False"
    by code_simp
  moreover have "find_type sample_tokens HSH_TOK_VERSION
      = Some (\<lparr>tk_type = HSH_TOK_VERSION, tk_flags = 0, tk_len = 8, tk_index = 6\<rparr>, ''HTTP/1.1'')"
    by (simp add: sample_tokens_def)
  moreover have "distinct (map fst sample_tokens)" by (simp add: sample_tokens_def)
  ultimately show ?thesis
    using detect_keep_alive_decides [OF sample_request_reads, of _ "''HTTP/1.1''"] by simp
qed


section \<open>Iterating over the headers\<close>

text \<open>
  The loop that a user writes around \<open>http_request_iterate_headers\<close>: start at 0, stop when it
  returns 0; \<open>n\<close> bounds the rounds.
\<close>

primrec header_loop :: "nat \<Rightarrow> http_request_s \<Rightarrow> int \<Rightarrow> (http_string_s \<times> http_string_s) list result" where
  "header_loop 0 rq iter = Inl Out_Of_Fuel"
| "header_loop (Suc n) rq iter =
     bindr (hs_request_iterate_headers rq iter) (\<lambda>(more, iter).
       case more of None \<Rightarrow> Inr []
       | Some kv \<Rightarrow> bindr (header_loop n rq iter) (\<lambda>kvs. Inr (kv # kvs)))"

definition pair_strings :: "hsh_token_s \<times> hsh_token_s \<Rightarrow> http_string_s \<times> http_string_s" where
  "pair_strings kv = (token_string (fst kv), token_string (snd kv))"

definition flat_pairs :: "(hsh_token_s \<times> hsh_token_s) list \<Rightarrow> hsh_token_s list" where
  "flat_pairs kvs = concat (map (\<lambda>kv. [fst kv, snd kv]) kvs)"

lemma flat_pairs_simps [simp]:
  "flat_pairs [] = []"
  "flat_pairs (kv # kvs) = fst kv # snd kv # flat_pairs kvs"
  "length (flat_pairs kvs) = 2 * length kvs"
  by (induction kvs) (auto simp: flat_pairs_def)

text \<open>The tokens of a request: the request line, the header pairs, the end of the headers.\<close>

definition head_tokens :: "hsh_token_s list \<Rightarrow> (hsh_token_s \<times> hsh_token_s) list \<Rightarrow> hsh_token_s \<Rightarrow> bool" where
  "head_tokens line kvs fin \<longleftrightarrow>
     list_all (\<lambda>t. tk_type t \<noteq> HSH_TOK_HEADER_KEY) line
     \<and> list_all (\<lambda>(k, v). tk_type k = HSH_TOK_HEADER_KEY) kvs \<and> tk_type fin = HSH_TOK_HEADERS_DONE"

lemma array_rd_app:
  assumes "array_holds arr (done @ t # rest)"
  shows "rd (ta_buf arr) (int (length done)) = Inr t"
  using array_holds_rd [OF assms, of "int (length done)"] by (simp add: nth_append)

lemma first_header_found:
  assumes "array_holds (rq_tokens rq) (done @ line @ k # v # rest)"
    and "list_all (\<lambda>t. tk_type t \<noteq> HSH_TOK_HEADER_KEY) line" and "tk_type k = HSH_TOK_HEADER_KEY"
    and "length line < n"
  shows "first_header rq (int (length done)) n
    = Inr (Some (token_string k, token_string v), int (length (done @ line)) + 1)"
  using assms
proof (induction line arbitrary: "done" n)
  case Nil
  then obtain n' where n: "n = Suc n'" by (cases n) auto
  have "rd (ta_buf (rq_tokens rq)) (int (length done)) = Inr k"
    using array_rd_app [of _ "done"] Nil.prems(1) by simp
  moreover have "rd (ta_buf (rq_tokens rq)) (int (length done) + 1) = Inr v"
    using array_rd_app [of _ "done @ [k]" v rest] Nil.prems(1) by (simp add: add.commute)
  ultimately show ?case using Nil.prems by (simp add: n hs_get_header_key_val_def)
next
  case (Cons t line)
  then obtain n' where n: "n = Suc n'" "length line < n'" by (cases n) auto
  have "rd (ta_buf (rq_tokens rq)) (int (length done)) = Inr t"
    using array_rd_app [of _ "done"] Cons.prems(1) by simp
  then show ?case
    using Cons.IH [of "done @ [t]" n'] Cons.prems n by (simp add: add.commute add.left_commute)
qed

lemma header_loop_pairs:
  assumes "array_holds (rq_tokens rq) (done @ v0 # flat_pairs kvs @ fin # rest)" and "done \<noteq> []"
    and "list_all (\<lambda>(k, v). tk_type k = HSH_TOK_HEADER_KEY) kvs" and "tk_type fin = HSH_TOK_HEADERS_DONE"
    and "length kvs < n"
  shows "header_loop n rq (int (length done)) = Inr (map pair_strings kvs)"
  using assms
proof (induction kvs arbitrary: "done" v0 n)
  case Nil
  then obtain n' where n: "n = Suc n'" by (cases n) auto
  have "rd (ta_buf (rq_tokens rq)) (int (length done) + 1) = Inr fin"
    using array_rd_app [of _ "done @ [v0]" fin rest] Nil.prems(1) by (simp add: add.commute)
  then show ?case
    using Nil.prems by (simp add: n hs_request_iterate_headers_def hs_get_header_key_val_def)
next
  case (Cons kv kvs)
  then obtain n' where n: "n = Suc n'" "length kvs < n'" by (cases n) auto
  obtain k v where kv: "kv = (k, v)" by (cases kv)
  have "rd (ta_buf (rq_tokens rq)) (int (length done) + 1) = Inr k"
    using array_rd_app [of _ "done @ [v0]" k] Cons.prems(1) by (simp add: add.commute kv)
  moreover have "rd (ta_buf (rq_tokens rq)) (int (length done) + 2) = Inr v"
    using array_rd_app [of _ "done @ [v0, k]" v] Cons.prems(1) by (simp add: add.commute kv)
  moreover have "header_loop n' rq (int (length (done @ [v0, k]))) = Inr (map pair_strings kvs)"
    using Cons.prems kv n by (intro Cons.IH [of "done @ [v0, k]" v]) auto
  ultimately show ?case
    using Cons.prems by (auto simp: n kv hs_request_iterate_headers_def hs_get_header_key_val_def
        pair_strings_def add.commute)
qed

text \<open>
  C13. Iterating over the headers of a request visits every header exactly once, in the order of
  the request, and then ends.
\<close>

theorem iterate_headers_complete:
  assumes "array_holds (rq_tokens rq) (line @ flat_pairs kvs @ fin # rest)"
    and "head_tokens line kvs fin" and "kvs \<noteq> []"
  shows "header_loop (Suc (length kvs)) rq 0 = Inr (map pair_strings kvs)"
proof -
  obtain k v kvs' where kvs: "kvs = (k, v) # kvs'" using assms(3) by (cases kvs) auto
  have size: "nat (ta_size (rq_tokens rq)) = length (line @ flat_pairs kvs @ fin # rest)"
    using assms(1) by (auto elim: array_holdsE)
  have "first_header rq 0 (nat (ta_size (rq_tokens rq)))
      = Inr (Some (token_string k, token_string v), int (length line) + 1)"
    using first_header_found [of rq "[]" line k v "flat_pairs kvs' @ fin # rest"] assms
    by (simp add: size kvs head_tokens_def del: first_header.simps)
  moreover have "header_loop (length kvs) rq (int (length (line @ [k]))) = Inr (map pair_strings kvs')"
    using assms by (intro header_loop_pairs [of rq _ v kvs' fin rest])
      (auto simp: kvs head_tokens_def)
  ultimately show ?thesis
    by (simp add: hs_request_iterate_headers_def kvs pair_strings_def add.commute)
qed

theorem iterate_headers_complete_witness:
  "header_loop 3 sample_request 0 =
     Inr [(\<lparr>st_buf = Some 16, st_len = 4\<rparr>, \<lparr>st_buf = Some 22, st_len = 1\<rparr>),
          (\<lparr>st_buf = Some 25, st_len = 10\<rparr>, \<lparr>st_buf = Some 37, st_len = 5\<rparr>)]"
proof -
  let ?ts = "map fst sample_tokens"
  let ?kvs = "[(?ts ! 3, ?ts ! 4), (?ts ! 5, ?ts ! 6)]"
  have "array_holds (rq_tokens sample_request) (take 3 ?ts @ flat_pairs ?kvs @ ?ts ! 7 # [])"
    by (simp add: sample_request_def sample_tokens_def array_holds_def holds_def)
  moreover have "head_tokens (take 3 ?ts) ?kvs (?ts ! 7)"
    by (simp add: head_tokens_def sample_tokens_def)
  ultimately have "header_loop (Suc (length ?kvs)) sample_request 0 = Inr (map pair_strings ?kvs)"
    by (intro iterate_headers_complete) auto
  then show ?thesis
    by (simp add: sample_tokens_def pair_strings_def token_string_def numeral_3_eq_3)
qed

end
