(* ===== verification/Clock.thy ===== *)
theory Clock
  imports HS_Prelude
begin

text \<open>
  The calendar of the C library, as \<^verbatim>\<open>hs_generate_date_time\<close> uses it for the \<open>Date\<close> header:
  \<open>gmtime\<close> breaks a time in seconds since 1970 down in the Gregorian calendar, and \<open>strftime\<close> prints it.
\<close>

section \<open>The number formats of printf\<close>

definition digit_char :: "nat \<Rightarrow> char" where
  "digit_char n = char_of (if n < 10 then 48 + n else 55 + n)"

function format_base :: "nat \<Rightarrow> nat \<Rightarrow> string" where
  "format_base b n =
     (if b < 2 \<or> n < b then [digit_char n] else format_base b (n div b) @ [digit_char (n mod b)])"
  by pat_completeness auto
termination
  by (relation "measure snd") auto

declare format_base.simps [simp del]

text \<open>The conversions \<open>%d\<close> and \<open>%X\<close> of an \<open>int\<close>.\<close>

definition format_d :: "int \<Rightarrow> string" where
  "format_d n = (if n < 0 then ''-'' @ format_base 10 (nat (- n)) else format_base 10 (nat n))"

definition format_X :: "int \<Rightarrow> string" where
  "format_X n = format_base 16 (nat (n mod 4294967296))"

section \<open>Broken-down time\<close>

text \<open>The fields of \<open>struct tm\<close> that the format reads, with the offsets of the C standard.\<close>

record tm =
  tm_sec :: int
  tm_min :: int
  tm_hour :: int
  tm_mday :: int
  tm_mon :: nat
  tm_year :: int
  tm_wday :: nat

definition leap_year :: "int \<Rightarrow> bool" where
  "leap_year y \<longleftrightarrow> y mod 4 = 0 \<and> (y mod 100 \<noteq> 0 \<or> y mod 400 = 0)"

definition year_days :: "int \<Rightarrow> nat" where
  "year_days y = (if leap_year y then 366 else 365)"

definition month_days :: "int \<Rightarrow> nat list" where
  "month_days y = [31, if leap_year y then 29 else 28, 31, 30, 31, 30, 31, 31, 30, 31, 30, 31]"

lemma year_days_pos [simp]: "0 < year_days y"
  by (simp add: year_days_def)

text \<open>The year and the day of that year, \<open>d\<close> days after the first of January of \<open>y\<close>; and the same for months.\<close>

function split_years :: "int \<Rightarrow> nat \<Rightarrow> int \<times> nat" where
  "split_years y d = (if d < year_days y then (y, d) else split_years (y + 1) (d - year_days y))"
  by pat_completeness auto
termination
proof (relation "measure snd", goal_cases)
  case (2 y d)
  then show ?case using year_days_pos [of y] by (simp, linarith)
qed simp

declare split_years.simps [simp del]

fun split_months :: "nat list \<Rightarrow> nat \<Rightarrow> nat \<times> nat" where
  "split_months [] d = (0, d)"
| "split_months (m # ms) d =
     (if d < m then (0, d) else let (i, e) = split_months ms (d - m) in (Suc i, e))"

text \<open>The calendar repeats after 400 years, which have 146097 days; the first of January of 1970 was a Thursday.\<close>

definition gmtime :: "int \<Rightarrow> tm" where
  "gmtime t =
     (let days = t div 86400;
          secs = t mod 86400;
          (y, yday) = split_years (1970 + 400 * (days div 146097)) (nat (days mod 146097));
          (mon, day) = split_months (month_days y) yday
      in \<lparr>tm_sec = secs mod 60, tm_min = secs div 60 mod 60, tm_hour = secs div 3600,
          tm_mday = int day + 1, tm_mon = mon, tm_year = y - 1900, tm_wday = nat ((days + 4) mod 7)\<rparr>)"

section \<open>Printing\<close>

definition day_names :: "string list" where
  "day_names = [''Sun'', ''Mon'', ''Tue'', ''Wed'', ''Thu'', ''Fri'', ''Sat'']"

definition month_names :: "string list" where
  "month_names = [''Jan'', ''Feb'', ''Mar'', ''Apr'', ''May'', ''Jun'', ''Jul'', ''Aug'', ''Sep'', ''Oct'', ''Nov'', ''Dec'']"

definition two_digits :: "int \<Rightarrow> string" where
  "two_digits n = [digit_char (nat n div 10), digit_char (nat n mod 10)]"

text \<open>
  \<open>strftime\<close> with the format \<open>%a, %d %b %Y %T GMT\<close> in the C locale. The text and its terminating
  zero fit the 32 bytes that the caller has for every year before 1000000.
\<close>

definition date_line :: "tm \<Rightarrow> string" where
  "date_line tm =
     day_names ! tm_wday tm @ '', '' @ two_digits (tm_mday tm) @ '' '' @ month_names ! tm_mon tm @ '' ''
     @ format_d (tm_year tm + 1900) @ '' '' @ two_digits (tm_hour tm) @ '':'' @ two_digits (tm_min tm)
     @ '':'' @ two_digits (tm_sec tm) @ '' GMT''"

section \<open>The calendar, counted\<close>

text \<open>The number of days from 1970 to the first of January of a year, by counting leap years.\<close>

definition leaps :: "int \<Rightarrow> int" where
  "leaps y = y div 4 - y div 100 + y div 400"

definition day_number :: "int \<Rightarrow> int" where
  "day_number y = 365 * (y - 1970) + leaps (y - 1) - leaps 1969"

lemma div_pred:
  fixes z n :: int
  assumes "0 < n"
  shows "z div n - (z - 1) div n = (if z mod n = 0 then 1 else 0)"
proof -
  have z: "z = n * (z div n) + z mod n" and r: "0 \<le> z mod n" "z mod n < n" using assms by simp_all
  show ?thesis
  proof (cases "z mod n = 0")
    case True
    have "(z - 1) div n = z div n - 1"
      by (rule int_div_pos_eq [where r = "n - 1"]) (use z True assms in \<open>simp_all add: algebra_simps\<close>)
    with True show ?thesis by simp
  next
    case False
    have "(z - 1) div n = z div n"
      by (rule int_div_pos_eq [where r = "z mod n - 1"]) (use z r False in \<open>simp_all add: algebra_simps\<close>)
    with False show ?thesis by simp
  qed
qed

lemma leaps_next: "leaps y = leaps (y - 1) + (if leap_year y then 1 else 0)"
proof -
  have m: "y mod 400 = 0 \<Longrightarrow> y mod 100 = 0" "y mod 100 = 0 \<Longrightarrow> y mod 4 = 0"
    using mod_mod_cancel [of 100 400 y] mod_mod_cancel [of 4 100 y] by simp_all
  have "leaps y - leaps (y - 1) = (y div 4 - (y - 1) div 4) - (y div 100 - (y - 1) div 100) + (y div 400 - (y - 1) div 400)"
    by (simp only: leaps_def)
  also have "\<dots> = (if y mod 4 = 0 then 1 else 0) - (if y mod 100 = 0 then 1 else 0) + (if y mod 400 = 0 then 1 else 0)"
    by (simp only: div_pred zero_less_numeral)
  also have "\<dots> = (if leap_year y then 1 else 0)" unfolding leap_year_def using m
    by (cases "y mod 400 = 0"; cases "y mod 100 = 0"; cases "y mod 4 = 0"; simp)
  finally show ?thesis by simp
qed

lemma day_number_next: "day_number (y + 1) = day_number y + int (year_days y)"
  using leaps_next [of y] by (simp add: day_number_def year_days_def)

lemma day_number_mono: "y \<le> z \<Longrightarrow> day_number y \<le> day_number z"
proof (induction z rule: int_ge_induct)
  case (step z)
  then show ?case using day_number_next [of z] by simp
qed simp

lemma day_number_cycle: "day_number (1970 + 400 * c) = 146097 * c"
proof -
  have "1970 + 400 * c - 1 = 1969 + 100 * c * 4" "1970 + 400 * c - 1 = 1969 + 4 * c * 100"
    "1970 + 400 * c - 1 = 1969 + c * 400" by simp_all
  then have "(1970 + 400 * c - 1) div 4 = 100 * c + 492" "(1970 + 400 * c - 1) div 100 = 4 * c + 19"
    "(1970 + 400 * c - 1) div 400 = c + 4"
    by simp_all
  then show ?thesis by (simp add: day_number_def leaps_def)
qed

lemma split_years_day:
  "split_years y d = (z, e) \<Longrightarrow> day_number z + int e = day_number y + int d \<and> e < year_days z"
proof (induction y d rule: split_years.induct)
  case (1 y d)
  show ?case
  proof (cases "d < year_days y")
    case True
    with 1(2) show ?thesis by (simp add: split_years.simps)
  next
    case False
    with 1(2) have "split_years (y + 1) (d - year_days y) = (z, e)" by (simp add: split_years.simps [of y])
    from 1(1) [OF False this] False show ?thesis using day_number_next [of y] by simp
  qed
qed

lemma split_months_day:
  "d < sum_list ms \<Longrightarrow> split_months ms d = (i, e) \<Longrightarrow> i < length ms \<and> e < ms ! i \<and> sum_list (take i ms) + e = d"
proof (induction ms arbitrary: d i)
  case (Cons m ms)
  show ?case
  proof (cases "d < m")
    case False
    with Cons.prems obtain j where j: "split_months ms (d - m) = (j, e)" "i = Suc j" by (auto split: prod.splits)
    moreover have "d - m < sum_list ms" using Cons.prems(1) False by simp
    ultimately show ?thesis using Cons.IH [of "d - m" j] False by (simp, linarith)
  qed (use Cons.prems in auto)
qed simp

lemma month_days_facts:
  "length (month_days y) = 12" "sum_list (month_days y) = year_days y" "i < 12 \<Longrightarrow> month_days y ! i \<le> 31"
  by (simp_all add: month_days_def year_days_def less_Suc_eq numeral_eq_Suc) auto

text \<open>A date and a time of day as the number of seconds since 1970.\<close>

definition seconds_since :: "int \<Rightarrow> nat \<Rightarrow> int \<Rightarrow> int \<Rightarrow> int \<Rightarrow> int \<Rightarrow> int" where
  "seconds_since y mon mday h mi s =
     86400 * (day_number y + int (sum_list (take mon (month_days y))) + mday - 1) + 3600 * h + 60 * mi + s"

lemma gmtime_since:
  assumes "gmtime t = tm"
  shows "seconds_since (tm_year tm + 1900) (tm_mon tm) (tm_mday tm) (tm_hour tm) (tm_min tm) (tm_sec tm) = t"
    and "tm_mon tm < 12" and "1 \<le> tm_mday tm" and "tm_mday tm \<le> 31"
    and "0 \<le> tm_hour tm" and "tm_hour tm < 24" and "0 \<le> tm_min tm" and "tm_min tm < 60" and "0 \<le> tm_sec tm" and "tm_sec tm < 60"
    and "tm_wday tm < 7" and "int (tm_wday tm) = (t div 86400 + 4) mod 7"
proof -
  define days secs where "days = t div 86400" and "secs = t mod 86400"
  obtain y yday where y: "split_years (1970 + 400 * (days div 146097)) (nat (days mod 146097)) = (y, yday)" by fastforce
  obtain mon day where m: "split_months (month_days y) yday = (mon, day)" by fastforce
  have tm: "tm = \<lparr>tm_sec = secs mod 60, tm_min = secs div 60 mod 60, tm_hour = secs div 3600,
          tm_mday = int day + 1, tm_mon = mon, tm_year = y - 1900, tm_wday = nat ((days + 4) mod 7)\<rparr>"
    using assms y m by (simp add: gmtime_def days_def secs_def Let_def)
  have yd: "day_number y + int yday = days" "yday < year_days y"
    using split_years_day [OF y] by (simp_all add: day_number_cycle)
  have md: "mon < 12" "day < month_days y ! mon" "sum_list (take mon (month_days y)) + day = yday"
    using split_months_day [OF _ m] yd(2) by (simp_all add: month_days_facts)
  have s: "0 \<le> secs" "secs < 86400" "86400 * days + secs = t" by (simp_all add: days_def secs_def)
  have "secs div 3600 = secs div 60 div 60" using zdiv_zmult2_eq [of 60 secs 60] by simp
  then have "3600 * (secs div 3600) + 60 * (secs div 60 mod 60) + secs mod 60 = secs"
    using mult_div_mod_eq [of 60 "secs div 60"] mult_div_mod_eq [of 60 secs] by linarith
  then show "seconds_since (tm_year tm + 1900) (tm_mon tm) (tm_mday tm) (tm_hour tm) (tm_min tm) (tm_sec tm) = t"
    using yd(1) md(3) s(3) by (simp add: tm seconds_since_def)
  show "tm_mon tm < 12" "1 \<le> tm_mday tm" "tm_mday tm \<le> 31"
    using md month_days_facts(3) [OF md(1), of y] by (simp_all add: tm)
  show "0 \<le> tm_hour tm" "tm_hour tm < 24" "0 \<le> tm_min tm" "tm_min tm < 60" "0 \<le> tm_sec tm" "tm_sec tm < 60"
    "tm_wday tm < 7" "int (tm_wday tm) = (t div 86400 + 4) mod 7"
    using s by (simp_all add: tm days_def) 
qed

lemma gmtime_year:
  assumes "0 \<le> t" and "t < 253402300800"
  shows "1970 \<le> tm_year (gmtime t) + 1900" and "tm_year (gmtime t) + 1900 < 10000"
proof -
  let ?y = "tm_year (gmtime t) + 1900"
  obtain z where z: "?y = z" by simp
  have "\<exists>e. day_number ?y + int e = t div 86400 \<and> e < year_days ?y"
  proof -
    obtain y yday where y: "split_years (1970 + 400 * (t div 86400 div 146097)) (nat (t div 86400 mod 146097)) = (y, yday)" by fastforce
    obtain mon day where "split_months (month_days y) yday = (mon, day)" by fastforce
    with y have "?y = y" by (simp add: gmtime_def Let_def)
    with split_years_day [OF y] show ?thesis by (auto simp: day_number_cycle)
  qed
  then obtain e where e: "day_number ?y + int e = t div 86400" "e < year_days ?y" by blast
  have d: "0 \<le> t div 86400" "t div 86400 < 2932897" using assms by simp_all
  have n: "day_number 1970 = 0" "day_number 10000 = 2932897" by (simp_all add: day_number_def leaps_def)
  show "1970 \<le> ?y"
  proof (rule ccontr)
    assume "\<not> 1970 \<le> ?y"
    then have "day_number (?y + 1) \<le> 0" using day_number_mono [of "?y + 1" 1970] n by simp
    with day_number_next [of ?y] e d show False by simp
  qed
  show "?y < 10000"
  proof (rule ccontr)
    assume "\<not> ?y < 10000"
    then have "day_number 10000 \<le> day_number ?y" using day_number_mono by simp
    with n e d show False by simp
  qed
qed

end
