(* ===== verification/Respond.thy ===== *)
theory Respond
  imports Request_Util Clock
begin

text \<open>
  \<^verbatim>\<open>src/src/respond.c\<close>: building a response, serializing it into a growing buffer
  and handing the buffer to the request for writing. The growing buffer \<open>grwprintf_t\<close> is
  modelled with its block, so truncation, growth and bytes never written are visible. Its
  pointer to the server's memory account is the account itself, passed along.

  A response object is a value: the calls that free it consume it. Header keys and values are
  C strings; the body is a pointer to the caller's memory.
\<close>

definition HTTP_RESPONSE_BUF_SIZE :: int where "HTTP_RESPONSE_BUF_SIZE = 1024"

type_synonym http_header_s = "string \<times> string"

record http_response_s =
  rs_headers :: "http_header_s list"
  rs_body :: "char block option"
  rs_content_length :: int
  rs_status :: int

record grwprintf_t =
  gw_buf :: "char block option"
  gw_capacity :: int
  gw_size :: int

definition hs_status_text :: "string list" where
  "hs_status_text =
     replicate 100 ''''
     @ [''Continue'', ''Switching Protocols''] @ replicate 98 ''''
     @ [''OK'', ''Created'', ''Accepted'', ''Non-Authoritative Information'', ''No Content'',
        ''Reset Content'', ''Partial Content''] @ replicate 93 ''''
     @ [''Multiple Choices'', ''Moved Permanently'', ''Found'', ''See Other'',
        ''Not Modified'', ''Use Proxy'', '''', ''Temporary Redirect''] @ replicate 92 ''''
     @ [''Bad Request'', ''Unauthorized'', ''Payment Required'', ''Forbidden'', ''Not Found'',
        ''Method Not Allowed'', ''Not Acceptable'', ''Proxy Authentication Required'',
        ''Request Timeout'', ''Conflict'',
        ''Gone'', ''Length Required'', '''', ''Payload Too Large''] @ replicate 86 ''''
     @ [''Internal Server Error'', ''Not Implemented'', ''Bad Gateway'',
        ''Service Unavailable'', ''Gateway Timeout''] @ replicate 95 ''''"

text \<open>\<open>hs_status_text[i]\<close>, with the bounds of the array.\<close>

definition status_text :: "int \<Rightarrow> string result" where
  "status_text i =
     (if 0 \<le> i \<and> i < int (length hs_status_text) then Inr (hs_status_text ! nat i)
      else Inl Out_Of_Bounds)"

section \<open>The growing buffer\<close>

definition grwprintf_init :: "int \<Rightarrow> int \<Rightarrow> grwprintf_t \<times> int" where
  "grwprintf_init capacity memused =
     (\<lparr>gw_buf = malloc_block capacity, gw_capacity = capacity, gw_size = 0\<rparr>,
      i64 (memused + capacity))"

definition grwmemcpy ::
    "grwprintf_t \<Rightarrow> char block option \<Rightarrow> int \<Rightarrow> int \<Rightarrow> (grwprintf_t \<times> int) result"
  where
  "grwmemcpy ctx src n memused =
     (if 2147483647 < gw_size ctx + n then Inl Signed_Overflow
      else let (ctx, memused) =
             (if gw_size ctx + n > gw_capacity ctx
              then (ctx\<lparr>gw_capacity := gw_size ctx + n,
                        gw_buf := realloc_block (gw_buf ctx) (gw_size ctx + n)\<rparr>,
                    i64 (i64 (memused - gw_capacity ctx) + (gw_size ctx + n)))
              else (ctx, memused))
           in bindr (cells src 0 n) (\<lambda>xs. bindr (store (gw_buf ctx) (gw_size ctx) xs) (\<lambda>b.
                Inr (ctx\<lparr>gw_buf := b, gw_size := gw_size ctx + n\<rparr>, memused))))"

text \<open>
  \<open>vsnprintf\<close> with a limit of \<open>n\<close> bytes stores at most \<open>n - 1\<close> characters of the
  formatted text \<open>s\<close> and a terminating zero, nothing when \<open>n\<close> is 0, and returns the
  length of \<open>s\<close>.
\<close>

definition vsnprintf :: "char block option \<Rightarrow> int \<Rightarrow> int \<Rightarrow> string \<Rightarrow> (int \<times> char block option) result" where
  "vsnprintf m off n s =
     bindr (if n = 0 then Inr m
            else store m off (map Some (take (nat (size_t n) - 1) s @ [nul]))) (\<lambda>m.
       Inr (int (length s), m))"

text \<open>The loop that doubles the capacity until \<open>need\<close> bytes fit.\<close>

function grow_capacity :: "int \<Rightarrow> int \<Rightarrow> int result" where
  "grow_capacity need capacity =
     (if need \<le> capacity then Inr capacity
      else if capacity \<le> 0 then Inl Out_Of_Fuel
      else if 1073741823 < capacity then Inl Signed_Overflow
      else grow_capacity need (capacity * 2))"
  by pat_completeness auto
termination
  by (relation "measure (\<lambda>(need, capacity). nat (need - capacity))") auto

declare grow_capacity.simps [simp del]

text \<open>\<open>s\<close> is the text that the format and its arguments denote.\<close>

definition grwprintf :: "grwprintf_t \<Rightarrow> string \<Rightarrow> int \<Rightarrow> (grwprintf_t \<times> int) result" where
  "grwprintf ctx s memused =
     bindr (vsnprintf (gw_buf ctx) (gw_size ctx) (gw_capacity ctx - gw_size ctx) s) (\<lambda>(bytes, b).
       let ctx = ctx\<lparr>gw_buf := b\<rparr> in
       if bytes + gw_size ctx > gw_capacity ctx
       then bindr (grow_capacity (bytes + gw_size ctx) (gw_capacity ctx)) (\<lambda>capacity.
              let memused = i64 (i64 (memused - gw_capacity ctx) + capacity);
                  b = realloc_block (gw_buf ctx) capacity
              in bindr (vsnprintf b (gw_size ctx) (capacity - gw_size ctx) s) (\<lambda>(more, b).
                   Inr (ctx\<lparr>gw_buf := b, gw_capacity := capacity,
                           gw_size := gw_size ctx + (bytes + more)\<rparr>, memused)))
       else Inr (ctx\<lparr>gw_size := gw_size ctx + bytes\<rparr>, memused))"

section \<open>Responses\<close>

definition hs_response_init :: http_response_s where
  "hs_response_init = \<lparr>rs_headers = [], rs_body = None, rs_content_length = 0, rs_status = 200\<rparr>"

definition hs_response_set_header :: "http_response_s \<Rightarrow> string \<Rightarrow> string \<Rightarrow> http_response_s" where
  "hs_response_set_header response key val =
     response\<lparr>rs_headers := (key, val) # rs_headers response\<rparr>"

definition hs_response_set_status :: "http_response_s \<Rightarrow> int \<Rightarrow> http_response_s" where
  "hs_response_set_status response status =
     response\<lparr>rs_status := (if status > 599 \<or> status < 100 then 500 else status)\<rparr>"

definition hs_response_set_body :: "http_response_s \<Rightarrow> char block option \<Rightarrow> int \<Rightarrow> http_response_s" where
  "hs_response_set_body response body len =
     response\<lparr>rs_body := body, rs_content_length := len\<rparr>"

section \<open>Serialization\<close>

primrec print_headers :: "http_header_s list \<Rightarrow> grwprintf_t \<Rightarrow> int \<Rightarrow> (grwprintf_t \<times> int) result" where
  "print_headers [] ctx memused = Inr (ctx, memused)"
| "print_headers (h # hs) ctx memused =
     bindr (grwprintf ctx (fst h @ '': '' @ snd h @ crlf) memused) (\<lambda>(ctx, memused).
       print_headers hs ctx memused)"

definition http_serialize_headers_list ::
    "http_response_s \<Rightarrow> grwprintf_t \<Rightarrow> int \<Rightarrow> (grwprintf_t \<times> int) result"
  where
  "http_serialize_headers_list response ctx memused =
     bindr (print_headers (rs_headers response) ctx memused) (\<lambda>(ctx, memused).
       grwprintf ctx crlf memused)"

definition http_serialize_headers ::
    "string \<Rightarrow> http_request_s \<Rightarrow> http_response_s \<Rightarrow> grwprintf_t \<Rightarrow> int
       \<Rightarrow> (http_request_s \<times> http_response_s \<times> grwprintf_t \<times> int) result"
  where
  "http_serialize_headers date request response ctx memused =
     bindr (if HTTP_FLAG_CHECK (rq_flags request) HTTP_AUTOMATIC
            then hs_request_detect_keep_alive_flag request else Inr request) (\<lambda>request.
       let response = (if HTTP_FLAG_CHECK (rq_flags request) HTTP_KEEP_ALIVE
                       then hs_response_set_header response ''Connection'' ''keep-alive''
                       else hs_response_set_header response ''Connection'' ''close'')
       in bindr (status_text (rs_status response)) (\<lambda>text.
            bindr (grwprintf ctx (''HTTP/1.1 '' @ format_d (rs_status response) @ '' '' @ text @ crlf
                     @ ''Date: '' @ date @ crlf) memused) (\<lambda>(ctx, memused).
              bindr (if \<not> HTTP_FLAG_CHECK (rq_flags request) HTTP_CHUNKED_RESPONSE
                     then grwprintf ctx (''Content-Length: '' @ format_d (rs_content_length response) @ crlf)
                            memused
                     else Inr (ctx, memused)) (\<lambda>(ctx, memused).
                bindr (http_serialize_headers_list response ctx memused) (\<lambda>(ctx, memused).
                  Inr (request, response, ctx, memused))))))"

section \<open>Sending\<close>

definition http_perform_response ::
    "ptr \<Rightarrow> http_request_s \<Rightarrow> grwprintf_t \<Rightarrow> int \<Rightarrow> req_fn \<Rightarrow> world \<Rightarrow> world result"
  where
  "http_perform_response r request ctx memused http_write w =
     (let (bf, memused) = hs_buffer_free (rq_buffer request) memused;
          bf = bf\<lparr>bf_buf := gw_buf ctx, bf_length := gw_size ctx, bf_capacity := gw_capacity ctx\<rparr>;
          request = request\<lparr>rq_buffer := bf, rq_bytes_written := 0, rq_state := HTTP_SESSION_WRITE\<rparr>
      in http_write r (assign r request (set_memused memused w)))"

definition hs_request_respond :: "ptr \<Rightarrow> http_response_s \<Rightarrow> req_fn \<Rightarrow> world \<Rightarrow> world result" where
  "hs_request_respond r response http_write w =
     bindr (deref r w) (\<lambda>request.
       let (ctx, memused) = grwprintf_init HTTP_RESPONSE_BUF_SIZE (w_memused w)
       in bindr (http_serialize_headers (sv_date (w_server w)) request response ctx memused)
            (\<lambda>(request, response, ctx, memused).
              bindr (if rs_body response \<noteq> None
                     then grwmemcpy ctx (rs_body response) (rs_content_length response) memused
                     else Inr (ctx, memused)) (\<lambda>(ctx, memused).
                http_perform_response r request ctx memused http_write w)))"

definition hs_request_respond_chunk ::
    "ptr \<Rightarrow> http_response_s \<Rightarrow> fnptr option \<Rightarrow> req_fn \<Rightarrow> world \<Rightarrow> world result"
  where
  "hs_request_respond_chunk r response cb http_write w =
     bindr (deref r w) (\<lambda>request.
       let (ctx, memused) = grwprintf_init HTTP_RESPONSE_BUF_SIZE (w_memused w)
       in bindr (if \<not> HTTP_FLAG_CHECK (rq_flags request) HTTP_CHUNKED_RESPONSE
                 then let request = request\<lparr>rq_flags := HTTP_FLAG_SET (rq_flags request) HTTP_CHUNKED_RESPONSE\<rparr>;
                          response = hs_response_set_header response ''Transfer-Encoding'' ''chunked''
                      in http_serialize_headers (sv_date (w_server w)) request response ctx memused
                 else Inr (request, response, ctx, memused))
            (\<lambda>(request, response, ctx, memused).
              let request = request\<lparr>rq_chunk_cb := cb\<rparr>
              in bindr (grwprintf ctx (format_X (rs_content_length response) @ crlf) memused) (\<lambda>(ctx, memused).
                   bindr (grwmemcpy ctx (rs_body response) (rs_content_length response) memused) (\<lambda>(ctx, memused).
                     bindr (grwprintf ctx crlf memused) (\<lambda>(ctx, memused).
                       http_perform_response r request ctx memused http_write w)))))"

definition hs_request_respond_chunk_end ::
    "ptr \<Rightarrow> http_response_s \<Rightarrow> req_fn \<Rightarrow> world \<Rightarrow> world result"
  where
  "hs_request_respond_chunk_end r response http_write w =
     bindr (deref r w) (\<lambda>request.
       let (ctx, memused) = grwprintf_init HTTP_RESPONSE_BUF_SIZE (w_memused w)
       in bindr (grwprintf ctx (''0'' @ crlf) memused) (\<lambda>(ctx, memused).
            bindr (http_serialize_headers_list response ctx memused) (\<lambda>(ctx, memused).
              bindr (grwprintf ctx crlf memused) (\<lambda>(ctx, memused).
                let request = request\<lparr>rq_flags := HTTP_FLAG_CLEAR (rq_flags request) HTTP_CHUNKED_RESPONSE\<rparr>
                in http_perform_response r request ctx memused http_write w))))"

definition hs_request_respond_error :: "ptr \<Rightarrow> int \<Rightarrow> string \<Rightarrow> req_fn \<Rightarrow> world \<Rightarrow> world result" where
  "hs_request_respond_error r code message http_write w =
     (let response = hs_response_set_status hs_response_init code;
          response = hs_response_set_header response ''Content-Type'' ''text/plain'';
          response = hs_response_set_body response (c_string message) (int (length message))
      in hs_request_respond r response http_write w)"

end
