(* ===== verification/Respond_Props.thy ===== *)
theory Respond_Props
  imports Respond Request_Props
begin

text \<open>
  What the response code puts on the wire. The growing buffer is an appender as long as the text
  fits, which is stated once as the locale \<open>appender\<close> and proved for both of its operations;
  the serialized response is then a concatenation. The last section is about what happens when
  the text does not fit.
\<close>

section \<open>Appending\<close>

primrec put_all :: "('c \<Rightarrow> string \<Rightarrow> 'c result) \<Rightarrow> string list \<Rightarrow> 'c \<Rightarrow> 'c result" where
  "put_all put [] c = Inr c"
| "put_all put (t # ts) c = bindr (put c t) (put_all put ts)"

lemma put_all_append: "put_all put (ss @ ts) c = bindr (put_all put ss c) (put_all put ts)"
  by (induction ss arbitrary: c) (auto simp: bindr_def split: sum.split)

locale appender =
  fixes put :: "'c \<Rightarrow> string \<Rightarrow> 'c result"
    and shows_text :: "'c \<Rightarrow> string \<Rightarrow> bool"
    and fits :: "'c \<Rightarrow> nat \<Rightarrow> bool"
  assumes put_appends: "shows_text c s \<Longrightarrow> fits c (length s + length t) \<Longrightarrow>
      \<exists>c'. put c t = Inr c' \<and> shows_text c' (s @ t) \<and> fits c' = fits c"
    and fits_less: "fits c n \<Longrightarrow> m \<le> n \<Longrightarrow> fits c m"
begin

lemma put_all_appends:
  "shows_text c s \<Longrightarrow> fits c (length s + length (concat ts)) \<Longrightarrow>
     \<exists>c'. put_all put ts c = Inr c' \<and> shows_text c' (s @ concat ts) \<and> fits c' = fits c"
proof (induction ts arbitrary: c s)
  case Nil
  then show ?case by simp
next
  case (Cons t ts)
  have "fits c (length s + length t)" using Cons.prems(2) by (rule fits_less) simp
  then obtain c' where c': "put c t = Inr c'" "shows_text c' (s @ t)" "fits c' = fits c"
    using put_appends Cons.prems(1) by blast
  have "fits c' (length (s @ t) + length (concat ts))" using Cons.prems(2) c'(3) by (simp add: add.assoc)
  then obtain d where "put_all put ts c' = Inr d" "shows_text d ((s @ t) @ concat ts)" "fits d = fits c'"
    using Cons.IH c'(2) by blast
  with c' show ?case by simp
qed

end

section \<open>The growing buffer\<close>

text \<open>The buffer shows the text printed so far.\<close>

definition grw_text :: "grwprintf_t \<Rightarrow> string \<Rightarrow> bool" where
  "grw_text ctx s \<longleftrightarrow>
     (case gw_buf ctx of None \<Rightarrow> False | Some b \<Rightarrow> int (length b) = gw_capacity ctx)
     \<and> holds (gw_buf ctx) s \<and> gw_size ctx = int (length s)
     \<and> 0 < gw_capacity ctx \<and> gw_capacity ctx < 2147483648"

lemma grw_textE:
  assumes "grw_text ctx s"
  obtains b where "gw_buf ctx = Some b" "int (length b) = gw_capacity ctx" "holds (Some b) s"
    "gw_size ctx = int (length s)" "0 < gw_capacity ctx" "gw_capacity ctx < 2147483648"
    "length s \<le> length b"
  using assms by (auto simp: grw_text_def holds_def split: option.splits)

lemma grw_textI:
  assumes "gw_buf ctx = Some b" "int (length b) = gw_capacity ctx" "holds (Some b) s"
    "gw_size ctx = int (length s)" "0 < gw_capacity ctx" "gw_capacity ctx < 2147483648"
  shows "grw_text ctx s"
  using assms by (simp add: grw_text_def)

lemma grwprintf_init_text:
  assumes "0 < n" and "n < 2147483648"
  shows "grw_text (fst (grwprintf_init n m)) []"
  using assms by (simp add: grwprintf_init_def grw_text_def malloc_block_def)

text \<open>Storing a text behind what is already there, with room to spare.\<close>

lemma store_text:
  assumes "holds (Some b) s" and "length s + length t \<le> length b"
  obtains b' where "store (Some b) (int (length s)) (map Some t) = Inr (Some b')"
    and "length b' = length b" and "holds (Some b') (s @ t)"
    and "drop (length s + length t) b' = drop (length s + length t) b"
proof -
  let ?b = "take (length s) b @ map Some t @ drop (length s + length t) b"
  have st: "store (Some b) (int (length s)) (map Some t) = Inr (Some ?b)"
    using assms by (simp add: store_def)
  then have "holds (Some ?b) (s @ t)" using holds_store_append assms(1) by blast
  with that st assms(2) show ?thesis by simp
qed

lemma vsnprintf_room:
  assumes "holds (Some b) s" and "length s + length t < length b" and "length b < 2147483648"
  obtains b' where "vsnprintf (Some b) (int (length s)) (int (length b) - int (length s)) t
      = Inr (int (length t), Some b')"
    and "length b' = length b" and "holds (Some b') (s @ t @ [nul])"
    and "drop (length s + length t + 1) b' = drop (length s + length t + 1) b"
proof -
  let ?n = "int (length b) - int (length s)"
  have n: "?n \<noteq> 0" "size_t ?n = ?n" using assms by (auto intro!: size_t_id)
  have tk: "take (nat ?n - 1) t = t" using assms by simp
  obtain b' where b': "store (Some b) (int (length s)) (map Some (t @ [nul])) = Inr (Some b')"
    "length b' = length b" "holds (Some b') (s @ t @ [nul])"
    "drop (length s + length (t @ [nul])) b' = drop (length s + length (t @ [nul])) b"
    by (rule store_text [OF assms(1), of "t @ [nul]"]) (use assms in auto)
  show ?thesis
    by (rule that [of b']) (use b' n tk in \<open>auto simp: vsnprintf_def\<close>)
qed

lemma grwprintf_room:
  assumes "grw_text ctx s" and "int (length s + length t) < gw_capacity ctx"
  shows "\<exists>ctx'. grwprintf ctx t m = Inr (ctx', m) \<and> grw_text ctx' (s @ t)
    \<and> gw_capacity ctx' = gw_capacity ctx"
  using assms(1)
proof (rule grw_textE)
  fix b
  assume b: "gw_buf ctx = Some b" "int (length b) = gw_capacity ctx" "holds (Some b) s"
    "gw_size ctx = int (length s)" "0 < gw_capacity ctx" "gw_capacity ctx < 2147483648"
  have "length s + length t < length b" "length b < 2147483648" using assms(2) b by linarith+
  from vsnprintf_room [OF b(3) this] obtain b' where
    b': "vsnprintf (Some b) (int (length s)) (int (length b) - int (length s)) t
      = Inr (int (length t), Some b')" "length b' = length b" "holds (Some b') (s @ t @ [nul])"
    by metis
  let ?ctx = "ctx\<lparr>gw_buf := Some b', gw_size := int (length s) + int (length t)\<rparr>"
  have "grwprintf ctx t m = Inr (?ctx, m)"
    using b b' assms(2) by (simp add: grwprintf_def)
  moreover have "grw_text ?ctx (s @ t)"
    using b b' holds_prefix [of "Some b'" "s @ t" "[nul]"] by (intro grw_textI) auto
  ultimately show ?thesis by auto
qed

lemma grwmemcpy_appends:
  assumes "grw_text ctx s" and "cells src 0 (int (length t)) = Inr (map Some t)"
    and "int (length s + length t) < 2147483648"
    and "- 4611686018427387904 \<le> m - gw_capacity ctx" and "m - gw_capacity ctx < 4611686018427387904"
  shows "\<exists>ctx' m'. grwmemcpy ctx src (int (length t)) m = Inr (ctx', m') \<and> grw_text ctx' (s @ t)
    \<and> gw_capacity ctx' = max (gw_capacity ctx) (int (length s + length t))
    \<and> m' - gw_capacity ctx' = m - gw_capacity ctx"
  using assms(1)
proof (rule grw_textE)
  fix b
  assume b: "gw_buf ctx = Some b" "int (length b) = gw_capacity ctx" "holds (Some b) s"
    "gw_size ctx = int (length s)" "0 < gw_capacity ctx" "gw_capacity ctx < 2147483648"
    "length s \<le> length b"
  have small: "\<not> 2147483647 < gw_size ctx + int (length t)" using assms(3) b by simp
  show ?thesis
  proof (cases "length s + length t \<le> length b")
    case True
    obtain b' where b': "store (Some b) (int (length s)) (map Some t) = Inr (Some b')"
      "length b' = length b" "holds (Some b') (s @ t)"
      by (rule store_text [OF b(3) True]) simp
    let ?ctx = "ctx\<lparr>gw_buf := Some b', gw_size := int (length s) + int (length t)\<rparr>"
    have "\<not> gw_size ctx + int (length t) > gw_capacity ctx" using True b by linarith
    then have "grwmemcpy ctx src (int (length t)) m = Inr (?ctx, m)"
      using b b' small assms(2) by (simp add: grwmemcpy_def)
    moreover have "grw_text ?ctx (s @ t)" using b b' by (intro grw_textI) auto
    ultimately show ?thesis using True b by auto
  next
    case False
    let ?n = "int (length s) + int (length t)"
    let ?c = "b @ replicate (length s + length t - length b) None"
    have c: "realloc_block (Some b) ?n = Some ?c"
      using False by (simp add: realloc_block_def nat_add_distrib)
    have "holds (Some ?c) s" using holds_realloc [OF b(3), of ?n] c by simp
    moreover have "length s + length t \<le> length ?c" using False by simp
    ultimately obtain b' where b': "store (Some ?c) (int (length s)) (map Some t) = Inr (Some b')"
      "length b' = length ?c" "holds (Some b') (s @ t)"
      by (rule store_text)
    let ?ctx = "ctx\<lparr>gw_capacity := ?n, gw_buf := Some b', gw_size := ?n\<rparr>"
    let ?m = "m - gw_capacity ctx + ?n"
    have m: "i64 (i64 (m - gw_capacity ctx) + ?n) = ?m"
      using assms(3,4,5) by (simp add: i64_id)
    have "gw_size ctx + int (length t) > gw_capacity ctx" using False b by linarith
    then have "grwmemcpy ctx src (int (length t)) m = Inr (?ctx, ?m)"
      using b b' small assms(2) c m by (simp add: grwmemcpy_def Let_def)
    moreover have "grw_text ?ctx (s @ t)"
    proof (rule grw_textI)
      show "int (length b') = gw_capacity ?ctx" using b'(2) False by simp
      show "0 < gw_capacity ?ctx" using False b(2,5) by simp
      show "gw_capacity ?ctx < 2147483648" using assms(3) by simp
    qed (use b'(3) in simp_all)
    moreover have "gw_capacity ?ctx = max (gw_capacity ctx) (int (length s + length t))"
      using False b(2) by simp
    moreover have "?m - gw_capacity ?ctx = m - gw_capacity ctx" by simp
    ultimately show ?thesis by blast
  qed
qed

text \<open>Both operations as appenders on the buffer together with the memory account.\<close>

definition print_to :: "grwprintf_t \<times> int \<Rightarrow> string \<Rightarrow> (grwprintf_t \<times> int) result" where
  "print_to c t = grwprintf (fst c) t (snd c)"

definition copy_to :: "grwprintf_t \<times> int \<Rightarrow> string \<Rightarrow> (grwprintf_t \<times> int) result" where
  "copy_to c t = grwmemcpy (fst c) (Some (map Some t)) (int (length t)) (snd c)"

text \<open>
  The text shown, and the account: besides the capacity of this buffer the server accounts for
  \<open>base\<close> bytes.
\<close>

definition ctx_text :: "int \<Rightarrow> grwprintf_t \<times> int \<Rightarrow> string \<Rightarrow> bool" where
  "ctx_text base c s \<longleftrightarrow> grw_text (fst c) s \<and> snd c - gw_capacity (fst c) = base
     \<and> - 4611686018427387904 \<le> base \<and> base < 4611686018427387904"

definition ctx_room :: "grwprintf_t \<times> int \<Rightarrow> nat \<Rightarrow> bool" where
  "ctx_room c n \<longleftrightarrow> int n < gw_capacity (fst c)"

interpretation printer: appender print_to "ctx_text base" ctx_room for base
proof
  fix c and s t :: string
  assume "ctx_text base c s" and "ctx_room c (length s + length t)"
  then show "\<exists>c'. print_to c t = Inr c' \<and> ctx_text base c' (s @ t) \<and> ctx_room c' = ctx_room c"
    using grwprintf_room [of "fst c" s t "snd c"]
    by (fastforce simp: ctx_text_def ctx_room_def print_to_def fun_eq_iff)
qed (simp add: ctx_room_def)

lemma cells_all: "cells (Some (map Some t)) 0 (int (length t)) = Inr (map Some t)"
  by (simp add: cells_def)

interpretation copier: appender copy_to "ctx_text base" "\<lambda>c n. int n < 2147483648" for base
proof
  fix c and s t :: string
  assume c: "ctx_text base c s" and n: "int (length s + length t) < 2147483648"
  then obtain ctx' m' where "grwmemcpy (fst c) (Some (map Some t)) (int (length t)) (snd c) = Inr (ctx', m')"
    "grw_text ctx' (s @ t)" "m' - gw_capacity ctx' = snd c - gw_capacity (fst c)"
    using grwmemcpy_appends [where ctx = "fst c" and m = "snd c", OF _ cells_all n]
    by (auto simp: ctx_text_def)
  with c show "\<exists>c'. copy_to c t = Inr c' \<and> ctx_text base c' (s @ t)
      \<and> (\<lambda>n. int n < 2147483648) = (\<lambda>n. int n < 2147483648)"
    by (auto simp: ctx_text_def copy_to_def)
qed simp

section \<open>Serialized responses\<close>

definition header_line :: "http_header_s \<Rightarrow> string" where
  "header_line h = fst h @ '': '' @ snd h @ crlf"

lemma print_headers_put_all: "print_headers hs ctx m = put_all print_to (map header_line hs) (ctx, m)"
  by (induction hs arbitrary: ctx m)
     (auto simp: print_to_def header_line_def bindr_def split: sum.split)

text \<open>
  The head of a response as a list of the pieces that are printed, with the keep-alive decision
  \<open>keep\<close> and without a length for chunked responses.
\<close>

definition connection_header :: "bool \<Rightarrow> http_header_s" where
  "connection_header keep = (''Connection'', if keep then ''keep-alive'' else ''close'')"

definition head_lines :: "bool \<Rightarrow> bool \<Rightarrow> string \<Rightarrow> http_response_s \<Rightarrow> string list" where
  "head_lines keep chunked date response =
     [''HTTP/1.1 '' @ format_d (rs_status response) @ '' '' @ hs_status_text ! nat (rs_status response) @ crlf
        @ ''Date: '' @ date @ crlf]
     @ (if chunked then [] else [''Content-Length: '' @ format_d (rs_content_length response) @ crlf])
     @ map header_line (connection_header keep # rs_headers response) @ [crlf]"

definition response_head :: "bool \<Rightarrow> bool \<Rightarrow> string \<Rightarrow> http_response_s \<Rightarrow> string" where
  "response_head keep chunked date response = concat (head_lines keep chunked date response)"

text \<open>The request after the keep-alive decision: the one of the user, or the one detected.\<close>

definition decides :: "http_request_s \<Rightarrow> http_request_s \<Rightarrow> bool" where
  "decides rq rq' \<longleftrightarrow>
     (if HTTP_FLAG_CHECK (rq_flags rq) HTTP_AUTOMATIC
      then hs_request_detect_keep_alive_flag rq = Inr rq' else rq' = rq)"

definition status_ok :: "http_response_s \<Rightarrow> bool" where
  "status_ok response \<longleftrightarrow> 0 \<le> rs_status response \<and> rs_status response < 600"

lemma length_status_text: "length hs_status_text = 600"
  by (simp add: hs_status_text_def)

lemma serialize_headers_put_all:
  assumes "decides rq rq'" and "status_ok response"
  shows "\<exists>response'. http_serialize_headers date rq response ctx m =
      bindr (put_all print_to (head_lines (HTTP_FLAG_CHECK (rq_flags rq') HTTP_KEEP_ALIVE)
                (HTTP_FLAG_CHECK (rq_flags rq') HTTP_CHUNKED_RESPONSE) date response) (ctx, m))
        (\<lambda>(ctx, m). Inr (rq', response', ctx, m))
    \<and> rs_body response' = rs_body response \<and> rs_content_length response' = rs_content_length response"
proof -
  let ?keep = "HTTP_FLAG_CHECK (rq_flags rq') HTTP_KEEP_ALIVE"
  let ?r = "response\<lparr>rs_headers := connection_header ?keep # rs_headers response\<rparr>"
  have d: "(if HTTP_FLAG_CHECK (rq_flags rq) HTTP_AUTOMATIC
        then hs_request_detect_keep_alive_flag rq else Inr rq) = Inr rq'"
    using assms(1) by (simp add: decides_def split: if_splits)
  have c: "(if ?keep then hs_response_set_header response ''Connection'' ''keep-alive''
      else hs_response_set_header response ''Connection'' ''close'') = ?r"
    by (simp add: hs_response_set_header_def connection_header_def)
  have t: "status_text (rs_status response) = Inr (hs_status_text ! nat (rs_status response))"
    using assms(2) by (simp add: status_text_def status_ok_def length_status_text)
  have "http_serialize_headers date rq response ctx m =
      bindr (put_all print_to (head_lines ?keep (HTTP_FLAG_CHECK (rq_flags rq') HTTP_CHUNKED_RESPONSE)
               date response) (ctx, m)) (\<lambda>(ctx, m). Inr (rq', ?r, ctx, m))"
    unfolding http_serialize_headers_def d bindr_simps Let_def c
    by (simp add: t head_lines_def put_all_append http_serialize_headers_list_def
        print_headers_put_all print_to_def header_line_def bindr_def split: sum.split prod.split)
  then show ?thesis by auto
qed


text \<open>
  The outcome of a response function: the request's buffer is replaced by one that holds
  \<open>text\<close>, writing starts at its beginning, and the server's account has changed by exactly
  the difference of the two capacities.
\<close>

definition owned_bytes :: "hsh_buffer_s \<Rightarrow> int" where
  "owned_bytes bf = (if bf_buf bf = None then 0 else bf_capacity bf)"

definition sends :: "ptr \<Rightarrow> http_request_s \<Rightarrow> req_fn \<Rightarrow> world \<Rightarrow> string \<Rightarrow> world result \<Rightarrow> bool" where
  "sends r rq http_write w text res \<longleftrightarrow>
     (\<exists>bf m. res = http_write r (assign r (rq\<lparr>rq_buffer := bf, rq_bytes_written := 0,
                rq_state := HTTP_SESSION_WRITE\<rparr>) (set_memused m w))
        \<and> buffer_holds bf text \<and> bf_capacity bf < 2147483648
        \<and> m - bf_capacity bf = w_memused w - owned_bytes (rq_buffer rq))"

text \<open>The account is small enough that no sum of it with two capacities wraps.\<close>

definition account_small :: "world \<Rightarrow> http_request_s \<Rightarrow> bool" where
  "account_small w rq \<longleftrightarrow>
     - 2305843009213693952 \<le> w_memused w \<and> w_memused w < 2305843009213693952
     \<and> 0 \<le> owned_bytes (rq_buffer rq) \<and> owned_bytes (rq_buffer rq) < 2147483648"

lemma perform_response_sends:
  assumes "ctx_text (w_memused w) (ctx, m) text" and "account_small w rq"
  shows "sends r rq http_write w text (http_perform_response r rq ctx m http_write w)"
proof -
  from assms(1) have g: "grw_text ctx text" and m: "m = w_memused w + gw_capacity ctx"
    by (simp_all add: ctx_text_def)
  from g have cap: "0 < gw_capacity ctx" "gw_capacity ctx < 2147483648" by (auto elim: grw_textE)
  obtain bf m' where free: "hs_buffer_free (rq_buffer rq) m = (bf, m')" "m' = m - owned_bytes (rq_buffer rq)"
  proof (cases "bf_buf (rq_buffer rq)")
    case None
    with that show ?thesis by (simp add: hs_buffer_free_def owned_bytes_def)
  next
    case (Some b)
    have "i64 (m - bf_capacity (rq_buffer rq)) = m - bf_capacity (rq_buffer rq)"
      using assms(2) m cap Some by (intro i64_id) (auto simp: account_small_def owned_bytes_def)
    with that Some show ?thesis by (simp add: hs_buffer_free_def owned_bytes_def)
  qed
  let ?bf = "bf\<lparr>bf_buf := gw_buf ctx, bf_length := gw_size ctx, bf_capacity := gw_capacity ctx\<rparr>"
  have "buffer_holds ?bf text"
    using g by (auto elim!: grw_textE simp: buffer_holds_def)
  moreover have "http_perform_response r rq ctx m http_write w = http_write r (assign r
      (rq\<lparr>rq_buffer := ?bf, rq_bytes_written := 0, rq_state := HTTP_SESSION_WRITE\<rparr>) (set_memused m' w))"
    by (simp add: http_perform_response_def free(1) Let_def)
  moreover have "m' - bf_capacity ?bf = w_memused w - owned_bytes (rq_buffer rq)"
    using free(2) m by simp
  moreover have "bf_capacity ?bf < 2147483648" using cap(2) by simp
  ultimately show ?thesis unfolding sends_def by blast
qed

lemma init_ctx_text:
  assumes "account_small w rq"
  shows "grwprintf_init HTTP_RESPONSE_BUF_SIZE (w_memused w)
      = (fst (grwprintf_init 1024 0), w_memused w + 1024)"
    and "ctx_text (w_memused w) (fst (grwprintf_init 1024 0), w_memused w + 1024) []"
    and "gw_capacity (fst (grwprintf_init 1024 0)) = 1024"
  using assms grwprintf_init_text [of 1024 0]
  by (simp_all add: grwprintf_init_def HTTP_RESPONSE_BUF_SIZE_def account_small_def i64_id ctx_text_def)

text \<open>
  The body of a response: no body, or a pointer to at least the stated number of written bytes.
\<close>

definition body_is :: "http_response_s \<Rightarrow> string \<Rightarrow> bool" where
  "body_is response body \<longleftrightarrow> rs_content_length response = int (length body)
     \<and> (if rs_body response = None then body = []
        else cells (rs_body response) 0 (int (length body)) = Inr (map Some body))"

lemma copy_body:
  assumes "ctx_text base (ctx, m) s" and "body_is response body" and "rs_body response \<noteq> None"
    and "int (length s + length body) < 2147483648"
  shows "\<exists>ctx' m'. grwmemcpy ctx (rs_body response) (rs_content_length response) m = Inr (ctx', m')
    \<and> ctx_text base (ctx', m') (s @ body)"
  using grwmemcpy_appends [of ctx s "rs_body response" body m] assms
  by (fastforce simp: ctx_text_def body_is_def)

lemma respond_sends:
  assumes "deref r w = Inr rq" and "decides rq rq'" and "status_ok response"
    and "\<not> HTTP_FLAG_CHECK (rq_flags rq') HTTP_CHUNKED_RESPONSE" and "body_is response body"
    and "length (response_head (HTTP_FLAG_CHECK (rq_flags rq') HTTP_KEEP_ALIVE) False
           (sv_date (w_server w)) response) < 1024"
    and "length body < 1073741824" and "account_small w rq'"
  shows "sends r rq' http_write w
    (response_head (HTTP_FLAG_CHECK (rq_flags rq') HTTP_KEEP_ALIVE) False (sv_date (w_server w)) response @ body)
    (hs_request_respond r response http_write w)"
proof -
  let ?head = "head_lines (HTTP_FLAG_CHECK (rq_flags rq') HTTP_KEEP_ALIVE) False (sv_date (w_server w)) response"
  let ?c = "fst (grwprintf_init 1024 0)" and ?m = "w_memused w + 1024"
  note init = init_ctx_text [OF assms(8)]
  obtain response' where ser: "http_serialize_headers (sv_date (w_server w)) rq response ?c ?m =
      bindr (put_all print_to ?head (?c, ?m)) (\<lambda>(ctx, m). Inr (rq', response', ctx, m))"
    "rs_body response' = rs_body response" "rs_content_length response' = rs_content_length response"
    using serialize_headers_put_all [OF assms(2,3), of "sv_date (w_server w)" ?c ?m] assms(4) by auto
  obtain ctx m where head: "put_all print_to ?head (?c, ?m) = Inr (ctx, m)"
    "ctx_text (w_memused w) (ctx, m) (concat ?head)"
    using printer.put_all_appends [OF init(2), of ?head] assms(6) init(3)
    by (auto simp: ctx_room_def response_head_def)
  obtain ctx2 m2 where body: "(if rs_body response' \<noteq> None
      then grwmemcpy ctx (rs_body response') (rs_content_length response') m else Inr (ctx, m)) = Inr (ctx2, m2)"
    "ctx_text (w_memused w) (ctx2, m2) (concat ?head @ body)"
  proof (cases "rs_body response = None")
    case True
    with that head(2) assms(5) ser(2) show ?thesis by (simp add: body_is_def)
  next
    case False
    have "int (length (concat ?head) + length body) < 2147483648"
      using assms(6,7) by (simp add: response_head_def)
    with copy_body [OF head(2) assms(5) False] that ser(2,3) False show ?thesis by auto
  qed
  have "hs_request_respond r response http_write w = http_perform_response r rq' ctx2 m2 http_write w"
    using body(1) unfolding hs_request_respond_def
    by (cases "rs_body response' = None") (auto simp: assms(1) init(1) ser(1) head(1))
  then show ?thesis
    using perform_response_sends [OF body(2) assms(8)] by (simp add: response_head_def)
qed

text \<open>
  C14. A whole response. When the head fits the initial print buffer, \<open>hs_request_respond\<close>
  hands exactly the serialized response to the writing code: status line, date, content length,
  connection header, the user's headers (last set first), an empty line and the body, in a
  buffer of which every byte is accounted for.
\<close>

theorem respond_bytes:
  assumes "deref r w = Inr rq" and "decides rq rq'" and "status_ok response"
    and "\<not> HTTP_FLAG_CHECK (rq_flags rq') HTTP_CHUNKED_RESPONSE" and "body_is response body"
    and "length (response_head (HTTP_FLAG_CHECK (rq_flags rq') HTTP_KEEP_ALIVE) False
           (sv_date (w_server w)) response) < 1024"
    and "length body < 1073741824" and "account_small w rq'"
  shows "sends r rq' http_write w
    (response_head (HTTP_FLAG_CHECK (rq_flags rq') HTTP_KEEP_ALIVE) False (sv_date (w_server w)) response @ body)
    (hs_request_respond r response http_write w)"
  using respond_sends [OF assms] .


text \<open>A live request without a buffer, whose user has chosen to close the connection.\<close>

definition closing_request :: http_request_s where
  "closing_request = sample_request\<lparr>rq_buffer := buffer_zero, rq_flags := 0\<rparr>"

text \<open>A writer that leaves the response to the next write event.\<close>

definition no_write :: req_fn where
  "no_write r w = Inr w"

definition closing_world :: world where
  "closing_world = sample_world\<lparr>w_heap := (\<lambda>_. Some closing_request), w_next := 1\<rparr>"

definition ok_response :: http_response_s where
  "ok_response = hs_response_set_body
     (hs_response_set_header hs_response_init ''Content-Type'' ''text/plain'') (c_string ''hi'') 2"

lemma closing_facts:
  "deref r closing_world = Inr closing_request" "decides closing_request closing_request"
  "status_ok ok_response" "\<not> HTTP_FLAG_CHECK (rq_flags closing_request) HTTP_CHUNKED_RESPONSE"
  "\<not> HTTP_FLAG_CHECK (rq_flags closing_request) HTTP_KEEP_ALIVE"
  "body_is ok_response ''hi''" "account_small closing_world closing_request"
  "sv_date (w_server closing_world) = ''Thu, 01 Jan 1970 00:00:00 GMT''"
  by (simp_all add: closing_world_def closing_request_def sample_request_def deref_def decides_def
      flag_ops flag_consts status_ok_def ok_response_def hs_response_set_body_def
      hs_response_set_header_def hs_response_init_def body_is_def cells_def c_string_def
      account_small_def w_memused_def sample_world_def sample_server_def owned_bytes_def buffer_zero_def)

lemma ok_head: "response_head False False ''Thu, 01 Jan 1970 00:00:00 GMT'' ok_response =
    ''HTTP/1.1 200 OK'' @ crlf @ ''Date: Thu, 01 Jan 1970 00:00:00 GMT'' @ crlf
    @ ''Content-Length: 2'' @ crlf @ ''Connection: close'' @ crlf @ ''Content-Type: text/plain'' @ crlf @ crlf"
  by code_simp

theorem respond_bytes_witness:
  "sends 0 closing_request no_write closing_world
     (''HTTP/1.1 200 OK'' @ crlf @ ''Date: Thu, 01 Jan 1970 00:00:00 GMT'' @ crlf
      @ ''Content-Length: 2'' @ crlf @ ''Connection: close'' @ crlf @ ''Content-Type: text/plain'' @ crlf
      @ crlf @ ''hi'')
     (hs_request_respond 0 ok_response no_write closing_world)"
  using respond_bytes [where r = 0 and http_write = no_write, OF closing_facts(1,2,3,4,6) _ _ closing_facts(7)]
  by (simp add: closing_facts ok_head crlf_def)

section \<open>Chunked responses\<close>

text \<open>The chunk as the protocol frames it.\<close>

definition chunk_frame :: "string \<Rightarrow> string" where
  "chunk_frame body = format_X (int (length body)) @ crlf @ body @ crlf"

text \<open>
  The first chunk of a response carries the head; \<open>rq'\<close> is the request after it, with the
  flag that later chunks find set.
\<close>

definition chunk_opens :: "http_request_s \<Rightarrow> http_request_s \<Rightarrow> string \<Rightarrow> http_response_s \<Rightarrow> string \<Rightarrow> bool" where
  "chunk_opens rq rq' date response head \<longleftrightarrow>
     HTTP_FLAG_CHECK (rq_flags rq') HTTP_CHUNKED_RESPONSE
     \<and> (if HTTP_FLAG_CHECK (rq_flags rq) HTTP_CHUNKED_RESPONSE then rq' = rq \<and> head = []
        else decides (rq\<lparr>rq_flags := HTTP_FLAG_SET (rq_flags rq) HTTP_CHUNKED_RESPONSE\<rparr>) rq'
          \<and> status_ok response
          \<and> head = response_head (HTTP_FLAG_CHECK (rq_flags rq') HTTP_KEEP_ALIVE) True date
               (hs_response_set_header response ''Transfer-Encoding'' ''chunked''))"

text \<open>The part that the first chunk and the later ones have in common.\<close>

definition chunk_begin ::
    "http_request_s \<Rightarrow> http_response_s \<Rightarrow> string \<Rightarrow> grwprintf_t \<Rightarrow> int
       \<Rightarrow> (http_request_s \<times> http_response_s \<times> grwprintf_t \<times> int) result" where
  "chunk_begin rq response date ctx m =
     (if \<not> HTTP_FLAG_CHECK (rq_flags rq) HTTP_CHUNKED_RESPONSE
      then let rq = rq\<lparr>rq_flags := HTTP_FLAG_SET (rq_flags rq) HTTP_CHUNKED_RESPONSE\<rparr>;
               response = hs_response_set_header response ''Transfer-Encoding'' ''chunked''
           in http_serialize_headers date rq response ctx m
      else Inr (rq, response, ctx, m))"

lemma chunk_begin_text:
  assumes "chunk_opens rq rq' date response head" and "ctx_text base (ctx, m) []"
    and "int (length head) < gw_capacity ctx"
  shows "\<exists>response' ctx' m'. chunk_begin rq response date ctx m = Inr (rq', response', ctx', m')
    \<and> ctx_text base (ctx', m') head \<and> gw_capacity ctx' = gw_capacity ctx
    \<and> rs_body response' = rs_body response \<and> rs_content_length response' = rs_content_length response"
proof (cases "HTTP_FLAG_CHECK (rq_flags rq) HTTP_CHUNKED_RESPONSE")
  case True
  with assms show ?thesis by (auto simp: chunk_begin_def chunk_opens_def)
next
  case False
  let ?r = "hs_response_set_header response ''Transfer-Encoding'' ''chunked''"
  let ?rq = "rq\<lparr>rq_flags := HTTP_FLAG_SET (rq_flags rq) HTTP_CHUNKED_RESPONSE\<rparr>"
  let ?lines = "head_lines (HTTP_FLAG_CHECK (rq_flags rq') HTTP_KEEP_ALIVE) True date ?r"
  have o: "decides ?rq rq'" "status_ok ?r" "head = concat ?lines"
    "HTTP_FLAG_CHECK (rq_flags rq') HTTP_CHUNKED_RESPONSE = True"
    using assms(1) False by (auto simp: chunk_opens_def response_head_def status_ok_def hs_response_set_header_def)
  obtain response' where ser: "http_serialize_headers date ?rq ?r ctx m =
      bindr (put_all print_to ?lines (ctx, m)) (\<lambda>(ctx, m). Inr (rq', response', ctx, m))"
    "rs_body response' = rs_body response" "rs_content_length response' = rs_content_length response"
    using serialize_headers_put_all [OF o(1,2), of date ctx m] o(4)
    by (auto simp: hs_response_set_header_def)
  have "ctx_room (ctx, m) (length ([] :: string) + length (concat ?lines))"
    using assms(3) o(3) by (simp add: ctx_room_def)
  from printer.put_all_appends [OF assms(2) this] obtain ctx' m' where
    put: "put_all print_to ?lines (ctx, m) = Inr (ctx', m')" "ctx_text base (ctx', m') head"
    "ctx_room (ctx', m') = ctx_room (ctx, m)"
    using o(3) by auto
  have "gw_capacity ctx' = gw_capacity ctx"
  proof -
    have pos: "0 < gw_capacity ctx'" "0 < gw_capacity ctx"
      using put(2) assms(2) by (auto simp: ctx_text_def elim!: grw_textE)
    have eq: "(int n < gw_capacity ctx') = (int n < gw_capacity ctx)" for n
      using put(3) by (simp add: ctx_room_def fun_eq_iff)
    show ?thesis
      using eq [of "nat (gw_capacity ctx')"] eq [of "nat (gw_capacity ctx)"] pos by linarith
  qed
  with False ser put show ?thesis by (simp add: chunk_begin_def Let_def)
qed

lemma respond_chunk_unfold:
  assumes "deref r w = Inr rq" and "account_small w rq'"
    and "chunk_begin rq response (sv_date (w_server w)) (fst (grwprintf_init 1024 0)) (w_memused w + 1024)
      = Inr (rq', response', ctx, m)"
  shows "hs_request_respond_chunk r response cb http_write w =
    bindr (grwprintf ctx (format_X (rs_content_length response') @ crlf) m) (\<lambda>(ctx, m).
      bindr (grwmemcpy ctx (rs_body response') (rs_content_length response') m) (\<lambda>(ctx, m).
        bindr (grwprintf ctx crlf m) (\<lambda>(ctx, m).
          http_perform_response r (rq'\<lparr>rq_chunk_cb := cb\<rparr>) ctx m http_write w)))"
  using assms(3)
  unfolding hs_request_respond_chunk_def chunk_begin_def assms(1) bindr_simps init_ctx_text(1) [OF assms(2)]
  by (simp add: Let_def split: if_splits)

lemma copy_cells:
  assumes "ctx_text base (ctx, m) s" and "cells src 0 (int (length t)) = Inr (map Some t)"
    and "int (length s + length t) < 2147483648"
  shows "\<exists>ctx' m'. grwmemcpy ctx src (int (length t)) m = Inr (ctx', m')
    \<and> ctx_text base (ctx', m') (s @ t)
    \<and> gw_capacity ctx' = max (gw_capacity ctx) (int (length s + length t))"
  using grwmemcpy_appends [of ctx s src t m] assms by (fastforce simp: ctx_text_def)

lemma print_text:
  assumes "ctx_text base (ctx, m) s" and "int (length s + length t) < gw_capacity ctx"
  shows "\<exists>ctx' m'. grwprintf ctx t m = Inr (ctx', m') \<and> ctx_text base (ctx', m') (s @ t)
    \<and> gw_capacity ctx' = gw_capacity ctx"
  using grwprintf_room [of ctx s t m] assms by (fastforce simp: ctx_text_def)

lemma body_is_cells:
  "body_is response body \<Longrightarrow> rs_content_length response = int (length body)
     \<and> cells (rs_body response) 0 (int (length body)) = Inr (map Some body)"
  by (auto simp: body_is_def cells_def split: if_splits)

lemma respond_chunk_sends:
  assumes "deref r w = Inr rq" and "chunk_opens rq rq' (sv_date (w_server w)) response head"
    and "body_is response body" and "length (head @ chunk_frame body) < 1024" and "account_small w rq'"
  shows "sends r (rq'\<lparr>rq_chunk_cb := cb\<rparr>) http_write w (head @ chunk_frame body)
    (hs_request_respond_chunk r response cb http_write w)"
proof -
  note init = init_ctx_text [OF assms(5)]
  let ?hex = "format_X (int (length body)) @ crlf"
  have len: "length head + length ?hex + length body + length crlf < 1024"
    using assms(4) by (simp add: chunk_frame_def)
  obtain response' ctx m where b: "chunk_begin rq response (sv_date (w_server w))
      (fst (grwprintf_init 1024 0)) (w_memused w + 1024) = Inr (rq', response', ctx, m)"
    "ctx_text (w_memused w) (ctx, m) head" "gw_capacity ctx = 1024"
    "rs_body response' = rs_body response" "rs_content_length response' = rs_content_length response"
    using chunk_begin_text [OF assms(2) init(2)] init(3) len by auto
  have body: "rs_content_length response' = int (length body)"
    "cells (rs_body response') 0 (int (length body)) = Inr (map Some body)"
    using body_is_cells [OF assms(3)] b(4,5) by auto
  obtain ctx1 m1 where p1: "grwprintf ctx ?hex m = Inr (ctx1, m1)"
    "ctx_text (w_memused w) (ctx1, m1) (head @ ?hex)" "gw_capacity ctx1 = 1024"
    using print_text [OF b(2), of ?hex] b(3) len by auto
  obtain ctx2 m2 where p2: "grwmemcpy ctx1 (rs_body response') (int (length body)) m1 = Inr (ctx2, m2)"
    "ctx_text (w_memused w) (ctx2, m2) ((head @ ?hex) @ body)" "gw_capacity ctx2 = 1024"
    using copy_cells [OF p1(2) body(2)] p1(3) len by auto
  obtain ctx3 m3 where p3: "grwprintf ctx2 crlf m2 = Inr (ctx3, m3)"
    "ctx_text (w_memused w) (ctx3, m3) (((head @ ?hex) @ body) @ crlf)"
    using print_text [OF p2(2), of crlf] p2(3) len by auto
  have "hs_request_respond_chunk r response cb http_write w
      = http_perform_response r (rq'\<lparr>rq_chunk_cb := cb\<rparr>) ctx3 m3 http_write w"
    by (simp add: respond_chunk_unfold [OF assms(1,5) b(1)] body(1) p1(1) p2(1) p3(1) del: append_assoc)
  moreover have "account_small w (rq'\<lparr>rq_chunk_cb := cb\<rparr>)"
    using assms(5) by (simp add: account_small_def)
  moreover have "((head @ ?hex) @ body) @ crlf = head @ chunk_frame body"
    by (simp add: chunk_frame_def)
  ultimately show ?thesis using perform_response_sends [OF p3(2)] by simp
qed

text \<open>
  C15. A chunk of a chunked response. When it fits the print buffer together with the head that
  the first chunk carries, exactly the head and the framed chunk go to the writing code, and the
  callback that produces the next chunk is remembered.
\<close>

theorem respond_chunk_bytes:
  assumes "deref r w = Inr rq" and "chunk_opens rq rq' (sv_date (w_server w)) response head"
    and "body_is response body" and "length (head @ chunk_frame body) < 1024" and "account_small w rq'"
  shows "sends r (rq'\<lparr>rq_chunk_cb := cb\<rparr>) http_write w (head @ chunk_frame body)
    (hs_request_respond_chunk r response cb http_write w)"
  using respond_chunk_sends [OF assms] .


text \<open>The second chunk of a response that has begun.\<close>

definition streaming_request :: http_request_s where
  "streaming_request = closing_request\<lparr>rq_flags := HTTP_CHUNKED_RESPONSE\<rparr>"

definition streaming_world :: world where
  "streaming_world = sample_world\<lparr>w_heap := (\<lambda>_. Some streaming_request), w_next := 1\<rparr>"

lemma streaming_facts:
  "deref r streaming_world = Inr streaming_request"
  "chunk_opens streaming_request streaming_request date response []"
  "account_small streaming_world streaming_request"
  by (simp_all add: streaming_world_def streaming_request_def closing_request_def deref_def
      chunk_opens_def flag_ops flag_consts account_small_def w_memused_def sample_world_def
      sample_server_def owned_bytes_def buffer_zero_def)

lemma chunk_frame_hi: "chunk_frame ''hi'' = ''2'' @ crlf @ ''hi'' @ crlf"
  by code_simp

theorem respond_chunk_bytes_witness:
  "sends 0 (streaming_request\<lparr>rq_chunk_cb := Some 5\<rparr>) no_write streaming_world
     (''2'' @ crlf @ ''hi'' @ crlf)
     (hs_request_respond_chunk 0 ok_response (Some 5) no_write streaming_world)"
  using respond_chunk_bytes [where r = 0 and http_write = no_write and cb = "Some 5",
      OF streaming_facts(1,2) closing_facts(6) _ streaming_facts(3)]
  by (simp add: chunk_frame_hi crlf_def)

section \<open>Text that does not fit\<close>

text \<open>
  Printing a line break when there is room for one byte or none: the first attempt prints
  nothing but its terminating zero and reports the missing length, the second one prints into
  the doubled buffer and reports it again, and the size advances by the sum of both.
\<close>

lemma line_break_first_try:
  assumes "length xs \<le> 1"
  obtains ys where "vsnprintf (Some (map Some s @ xs)) (int (length s)) (int (length xs)) crlf
      = Inr (2, Some (map Some s @ ys))" and "length ys = length xs"
proof (cases xs)
  case Nil
  with that [of "[]"] show ?thesis by (simp add: vsnprintf_def crlf_def)
next
  case (Cons x xs')
  with assms have "xs = [x]" by simp
  then show ?thesis
    using that [of "[Some nul]"] size_t_id [of 1]
    by (simp add: vsnprintf_def crlf_def store_def)
qed

lemma line_break_second_try:
  assumes "length ys \<le> 1" and "3 \<le> k" and "length s + length ys + k < 2147483648"
  shows "vsnprintf (Some (map Some s @ ys @ replicate k None)) (int (length s)) (int (length ys + k)) crlf
    = Inr (2, Some (map Some (s @ crlf @ [nul]) @ replicate (length ys + k - 3) None))"
proof -
  have n: "size_t (int (length ys + k)) = int (length ys + k)" using assms by (intro size_t_id) auto
  have "drop 3 (ys @ replicate k None) = replicate (length ys + k - 3) None"
    using assms by (cases ys) (auto simp: numeral_3_eq_3)
  then have "store (Some (map Some s @ ys @ replicate k None)) (int (length s)) (map Some (crlf @ [nul]))
      = Inr (Some (map Some (s @ crlf @ [nul]) @ replicate (length ys + k - 3) None))"
    using assms by (simp add: store_def crlf_def)
  then show ?thesis using assms(2) n by (auto simp: vsnprintf_def crlf_def)
qed

lemma grwprintf_full:
  assumes "gw_buf ctx = Some (map Some s @ xs)" and "gw_capacity ctx = int (length s + length xs)"
    and "gw_size ctx = int (length s)" and "length xs \<le> 1" and "4 \<le> length s"
    and "length s < 1073741823"
  shows "\<exists>m' n. grwprintf ctx crlf m = Inr
    (ctx\<lparr>gw_buf := Some (map Some (s @ crlf @ [nul]) @ replicate (Suc n) None),
         gw_capacity := 2 * gw_capacity ctx, gw_size := int (length s) + 4\<rparr>, m')"
proof -
  let ?n = "length s + length xs"
  obtain ys where ys: "vsnprintf (Some (map Some s @ xs)) (int (length s)) (int (length xs)) crlf
      = Inr (2, Some (map Some s @ ys))" "length ys = length xs"
    using line_break_first_try [OF assms(4)] by blast
  have "grow_capacity (2 + int (length s)) (int ?n * 2) = Inr (int ?n * 2)"
    by (subst grow_capacity.simps) (use assms(5) in simp)
  then have grow: "grow_capacity (2 + int (length s)) (int ?n) = Inr (2 * int ?n)"
    by (subst grow_capacity.simps) (use assms(4-6) in \<open>auto simp: mult.commute\<close>)
  have re: "realloc_block (Some (map Some s @ ys)) (2 * int ?n)
      = Some (map Some s @ ys @ replicate ?n None)"
    using ys(2) by (simp add: realloc_block_def nat_mult_distrib nat_add_distrib)
  have "length ys \<le> 1" "3 \<le> ?n" "length s + length ys + ?n < 2147483648"
    using ys(2) assms(4-6) by auto
  from line_break_second_try [OF this]
  have v: "vsnprintf (Some (map Some s @ ys @ replicate ?n None)) (int (length s))
      (2 * int ?n - int (length s)) crlf
      = Inr (2, Some (map Some (s @ crlf @ [nul]) @ replicate (length ys + ?n - 3) None))"
    using ys(2) by (simp add: algebra_simps)
  obtain n where n: "length ys + ?n - 3 = Suc n"
    using assms(5) by (cases "length ys + ?n - 3") auto
  have first: "vsnprintf (gw_buf ctx) (gw_size ctx) (gw_capacity ctx - gw_size ctx) crlf
      = Inr (2, Some (map Some s @ ys))"
    using assms(1-3) ys(1) by simp
  have over: "2 + gw_size ctx > gw_capacity ctx" using assms(2-4) by simp
  show ?thesis
    using over grow re v unfolding grwprintf_def first bindr_simps prod.case Let_def n
    by (simp add: assms(2,3) del: replicate_Suc) blast
qed

text \<open>With room for two bytes the zero takes the place of the line feed, and nothing grows.\<close>

lemma grwprintf_brim:
  assumes "gw_buf ctx = Some (map Some s @ xs)" and "gw_capacity ctx = int (length s + 2)"
    and "gw_size ctx = int (length s)" and "length xs = 2"
  shows "grwprintf ctx crlf m = Inr
    (ctx\<lparr>gw_buf := Some (map Some (s @ butlast crlf @ [nul])), gw_size := int (length s) + 2\<rparr>, m)"
  using assms size_t_id [of 2]
  by (simp add: grwprintf_def vsnprintf_def store_def crlf_def)

text \<open>A buffer and the cells behind the text it shows.\<close>

lemma grw_text_split:
  assumes "grw_text ctx s"
  obtains xs where "gw_buf ctx = Some (map Some s @ xs)" and "gw_capacity ctx = int (length s + length xs)"
    and "gw_size ctx = int (length s)"
  using assms
proof (rule grw_textE)
  fix b
  assume b: "gw_buf ctx = Some b" "int (length b) = gw_capacity ctx" "holds (Some b) s"
    "gw_size ctx = int (length s)"
  then have "take (length s) b = map Some s" by (simp add: holds_def)
  then obtain xs where xs: "b = map Some s @ xs" using append_take_drop_id by metis
  with that [of xs] b show ?thesis by simp
qed

text \<open>
  The buffer that is sent when the framed text \<open>frame\<close> does not fit. The closing line break
  is the last two bytes of \<open>frame\<close>.
\<close>

definition overflowed :: "string \<Rightarrow> char block option \<Rightarrow> int \<Rightarrow> bool" where
  "overflowed frame b n \<longleftrightarrow>
     (if length frame = 1024 then b = Some (map Some (butlast frame @ [nul])) \<and> n = 1024
      else (\<exists>k. b = Some (map Some (frame @ [nul]) @ replicate (Suc k) None))
        \<and> n = int (length frame) + 2)"

lemma line_break_overflows:
  assumes "grw_text ctx s" and "gw_capacity ctx = max 1024 (int (length s))"
    and "1022 \<le> length s" and "length s < 1073741823"
  shows "\<exists>ctx' m'. grwprintf ctx crlf m = Inr (ctx', m')
    \<and> overflowed (s @ crlf) (gw_buf ctx') (gw_size ctx')"
proof -
  obtain xs where xs: "gw_buf ctx = Some (map Some s @ xs)"
    "gw_capacity ctx = int (length s + length xs)" "gw_size ctx = int (length s)"
    using grw_text_split [OF assms(1)] .
  show ?thesis
  proof (cases "length s = 1022")
    case True
    with xs(2) assms(2) have "length xs = 2" by linarith
    with grwprintf_brim [OF xs(1) _ xs(3)] xs(2) True show ?thesis
      by (simp add: overflowed_def crlf_def butlast_append)
  next
    case False
    with xs(2) assms(2,3) have "length xs \<le> 1" "4 \<le> length s" by linarith+
    with grwprintf_full [OF xs this assms(4), of m] False show ?thesis
      by (auto simp: overflowed_def crlf_def)
  qed
qed

lemma respond_chunk_overflows:
  assumes "deref r w = Inr rq" and "chunk_opens rq rq' (sv_date (w_server w)) response head"
    and "body_is response body" and "1024 \<le> length (head @ chunk_frame body)"
    and "length (head @ format_X (int (length body)) @ crlf) < 1024"
    and "length body < 536870912" and "account_small w rq'"
  shows "\<exists>bf m. hs_request_respond_chunk r response cb http_write w
      = http_write r (assign r (rq'\<lparr>rq_chunk_cb := cb, rq_buffer := bf, rq_bytes_written := 0,
          rq_state := HTTP_SESSION_WRITE\<rparr>) (set_memused m w))
    \<and> overflowed (head @ chunk_frame body) (bf_buf bf) (bf_length bf)"
proof -
  note init = init_ctx_text [OF assms(7)]
  let ?hex = "format_X (int (length body)) @ crlf"
  have len: "length head + length ?hex < 1024" "1022 \<le> length head + length ?hex + length body"
    using assms(4,5) by (auto simp: chunk_frame_def crlf_def)
  obtain response' ctx m where b: "chunk_begin rq response (sv_date (w_server w))
      (fst (grwprintf_init 1024 0)) (w_memused w + 1024) = Inr (rq', response', ctx, m)"
    "ctx_text (w_memused w) (ctx, m) head" "gw_capacity ctx = 1024"
    "rs_body response' = rs_body response" "rs_content_length response' = rs_content_length response"
    using chunk_begin_text [OF assms(2) init(2)] init(3) len by auto
  have body: "rs_content_length response' = int (length body)"
    "cells (rs_body response') 0 (int (length body)) = Inr (map Some body)"
    using body_is_cells [OF assms(3)] b(4,5) by auto
  obtain ctx1 m1 where p1: "grwprintf ctx ?hex m = Inr (ctx1, m1)"
    "ctx_text (w_memused w) (ctx1, m1) (head @ ?hex)" "gw_capacity ctx1 = 1024"
    using print_text [OF b(2), of ?hex] b(3) len by auto
  let ?s = "(head @ ?hex) @ body"
  obtain ctx2 m2 where p2: "grwmemcpy ctx1 (rs_body response') (int (length body)) m1 = Inr (ctx2, m2)"
    "ctx_text (w_memused w) (ctx2, m2) ?s" "gw_capacity ctx2 = max 1024 (int (length ?s))"
    using copy_cells [OF p1(2) body(2)] p1(3) len(1) assms(6) by auto
  obtain ctx3 m3 where p3: "grwprintf ctx2 crlf m2 = Inr (ctx3, m3)"
    "overflowed (?s @ crlf) (gw_buf ctx3) (gw_size ctx3)"
    using line_break_overflows [of ctx2 ?s m2] p2(2,3) len assms(6) by (auto simp: ctx_text_def)
  obtain bf m4 where free: "hs_buffer_free (rq_buffer rq') m3 = (bf, m4)" by (meson surj_pair)
  let ?bf = "bf\<lparr>bf_buf := gw_buf ctx3, bf_length := gw_size ctx3, bf_capacity := gw_capacity ctx3\<rparr>"
  have "hs_request_respond_chunk r response cb http_write w
      = http_write r (assign r (rq'\<lparr>rq_chunk_cb := cb, rq_buffer := ?bf, rq_bytes_written := 0,
          rq_state := HTTP_SESSION_WRITE\<rparr>) (set_memused m4 w))"
    using free p1(1) p2(1) p3(1)
    by (simp add: respond_chunk_unfold [OF assms(1,7) b(1)] body(1) http_perform_response_def
        del: append_assoc)
  moreover have "overflowed (head @ chunk_frame body) (bf_buf ?bf) (bf_length ?bf)"
    using p3(2) by (simp add: chunk_frame_def)
  ultimately show ?thesis by blast
qed

text \<open>
  C16. A chunk that does not fit the initial print buffer of 1024 bytes, the first one with its
  head or a later one, is sent wrong. With exactly 1024 bytes of head and framed chunk, the
  terminating zero of the print takes the place of the last line feed. With more, the closing
  line break runs into the growth path, which counts it twice: the recorded length is that of
  head and chunk plus two, the first of these bytes is a zero and the second was never written.
  (The head and the length line are taken to fit by themselves.)
\<close>

theorem respond_large_chunk_stray_bytes:
  assumes "deref r w = Inr rq" and "chunk_opens rq rq' (sv_date (w_server w)) response head"
    and "body_is response body" and "1024 \<le> length (head @ chunk_frame body)"
    and "length (head @ format_X (int (length body)) @ crlf) < 1024"
    and "length body < 536870912" and "account_small w rq'"
  shows "\<exists>bf m. hs_request_respond_chunk r response cb http_write w
      = http_write r (assign r (rq'\<lparr>rq_chunk_cb := cb, rq_buffer := bf, rq_bytes_written := 0,
          rq_state := HTTP_SESSION_WRITE\<rparr>) (set_memused m w))
    \<and> (if length (head @ chunk_frame body) = 1024
       then bf_buf bf = Some (map Some (butlast (head @ chunk_frame body) @ [nul])) \<and> bf_length bf = 1024
       else (\<exists>k. bf_buf bf = Some (map Some ((head @ chunk_frame body) @ [nul]) @ replicate (Suc k) None))
         \<and> bf_length bf = int (length (head @ chunk_frame body)) + 2)"
  using respond_chunk_overflows [OF assms, of cb http_write] unfolding overflowed_def .


text \<open>
  Two chunks: a first one of 2048 bytes, and a later one of 1017 bytes, whose frame has exactly
  1024 bytes.
\<close>

definition x_response :: "nat \<Rightarrow> http_response_s" where
  "x_response n = hs_response_set_body hs_response_init (Some (map Some (replicate n (CHR ''x'')))) (int n)"

lemma x_body: "body_is (x_response n) (replicate n (CHR ''x''))"
  by (simp add: body_is_def x_response_def hs_response_set_body_def cells_def)

lemma format_sizes: "format_X 2048 = ''800''" "format_X 1017 = ''3F9''"
  by code_simp+

definition chunk_head :: string where
  "chunk_head = response_head False True ''Thu, 01 Jan 1970 00:00:00 GMT''
     (hs_response_set_header (x_response 2048) ''Transfer-Encoding'' ''chunked'')"

lemma chunk_head_length: "length chunk_head = 103"
  by code_simp

lemma chunk_head_opens:
  "chunk_opens closing_request streaming_request ''Thu, 01 Jan 1970 00:00:00 GMT'' (x_response 2048) chunk_head"
  by (simp add: chunk_opens_def chunk_head_def closing_request_def streaming_request_def
      sample_request_def flag_ops flag_consts decides_def status_ok_def x_response_def
      hs_response_set_body_def hs_response_init_def)

theorem respond_large_chunk_stray_bytes_witness:
  "(\<exists>bf m. hs_request_respond_chunk 0 (x_response 2048) None no_write closing_world
      = no_write 0 (assign 0 (streaming_request\<lparr>rq_chunk_cb := None, rq_buffer := bf, rq_bytes_written := 0,
          rq_state := HTTP_SESSION_WRITE\<rparr>) (set_memused m closing_world))
    \<and> (\<exists>k. bf_buf bf = Some (map Some ((chunk_head @ chunk_frame (replicate 2048 (CHR ''x''))) @ [nul])
            @ replicate (Suc k) None)) \<and> bf_length bf = 2160)
   \<and> (\<exists>bf m. hs_request_respond_chunk 0 (x_response 1017) None no_write streaming_world
      = no_write 0 (assign 0 (streaming_request\<lparr>rq_chunk_cb := None, rq_buffer := bf, rq_bytes_written := 0,
          rq_state := HTTP_SESSION_WRITE\<rparr>) (set_memused m streaming_world))
    \<and> bf_buf bf = Some (map Some (butlast (chunk_frame (replicate 1017 (CHR ''x''))) @ [nul]))
    \<and> bf_length bf = 1024)"
proof
  let ?body = "replicate 2048 (CHR ''x'')"
  have n: "length (chunk_head @ chunk_frame ?body) = 2158"
    by (simp add: chunk_frame_def format_sizes crlf_def chunk_head_length)
  have o: "chunk_opens closing_request streaming_request (sv_date (w_server closing_world))
      (x_response 2048) chunk_head"
    using chunk_head_opens closing_facts(8) by simp
  have a: "account_small closing_world streaming_request"
    using closing_facts(7) by (simp add: account_small_def streaming_request_def)
  show "\<exists>bf m. hs_request_respond_chunk 0 (x_response 2048) None no_write closing_world
      = no_write 0 (assign 0 (streaming_request\<lparr>rq_chunk_cb := None, rq_buffer := bf, rq_bytes_written := 0,
          rq_state := HTTP_SESSION_WRITE\<rparr>) (set_memused m closing_world))
    \<and> (\<exists>k. bf_buf bf = Some (map Some ((chunk_head @ chunk_frame ?body) @ [nul])
            @ replicate (Suc k) None)) \<and> bf_length bf = 2160"
    using respond_large_chunk_stray_bytes [where r = 0 and http_write = no_write and cb = None,
        OF closing_facts(1) o x_body [of 2048] _ _ _ a] n
    by (simp add: format_sizes crlf_def chunk_head_length del: replicate_Suc)
next
  let ?body = "replicate 1017 (CHR ''x'')"
  have n: "length (chunk_frame ?body) = 1024"
    by (simp add: chunk_frame_def format_sizes crlf_def)
  show "\<exists>bf m. hs_request_respond_chunk 0 (x_response 1017) None no_write streaming_world
      = no_write 0 (assign 0 (streaming_request\<lparr>rq_chunk_cb := None, rq_buffer := bf, rq_bytes_written := 0,
          rq_state := HTTP_SESSION_WRITE\<rparr>) (set_memused m streaming_world))
    \<and> bf_buf bf = Some (map Some (butlast (chunk_frame ?body) @ [nul])) \<and> bf_length bf = 1024"
    using respond_large_chunk_stray_bytes [where r = 0 and http_write = no_write and cb = None,
        OF streaming_facts(1,2) x_body [of 1017] _ _ _ streaming_facts(3)] n
    by (simp add: format_sizes crlf_def del: replicate_Suc)
qed

section \<open>The end of a chunked response\<close>

lemma respond_chunk_end_sends:
  assumes "deref r w = Inr rq" and "account_small w rq"
    and "length (''0'' @ crlf @ concat (map header_line (rs_headers response)) @ crlf @ crlf) < 1024"
  shows "sends r (rq\<lparr>rq_flags := HTTP_FLAG_CLEAR (rq_flags rq) HTTP_CHUNKED_RESPONSE\<rparr>) http_write w
    ((''0'' @ crlf @ concat (map header_line (rs_headers response)) @ crlf) @ crlf)
    (hs_request_respond_chunk_end r response http_write w)"
proof -
  note init = init_ctx_text [OF assms(2)]
  let ?c = "fst (grwprintf_init 1024 0)" and ?m = "w_memused w + 1024"
  let ?rq = "rq\<lparr>rq_flags := HTTP_FLAG_CLEAR (rq_flags rq) HTTP_CHUNKED_RESPONSE\<rparr>"
  let ?ts = "[''0'' @ crlf] @ map header_line (rs_headers response) @ [crlf, crlf]"
  obtain ctx m where put: "put_all print_to ?ts (?c, ?m) = Inr (ctx, m)"
    "ctx_text (w_memused w) (ctx, m) (concat ?ts)"
    using printer.put_all_appends [OF init(2), of ?ts] init(3) assms(3) by (auto simp: ctx_room_def)
  have "hs_request_respond_chunk_end r response http_write w
      = bindr (put_all print_to ?ts (?c, ?m)) (\<lambda>(ctx, m). http_perform_response r ?rq ctx m http_write w)"
    unfolding hs_request_respond_chunk_end_def assms(1) bindr_simps init(1) prod.case Let_def
    by (simp add: put_all_append print_headers_put_all http_serialize_headers_list_def print_to_def
        bindr_def split: sum.split prod.split)
  then have "hs_request_respond_chunk_end r response http_write w
      = http_perform_response r ?rq ctx m http_write w"
    unfolding put(1) by simp
  moreover have "account_small w ?rq" using assms(2) by (simp add: account_small_def)
  ultimately show ?thesis
    using perform_response_sends [OF put(2)] by simp
qed

text \<open>
  C17. The last chunk. When the whole text fits the initial print buffer (fewer than 1024 bytes),
  the zero chunk and the trailing headers are followed by their empty line, and then by a further
  line break that belongs to no message: it precedes whatever is sent next on the connection.
  The request is no longer in chunked mode.
\<close>

theorem respond_chunk_end_bytes:
  assumes "deref r w = Inr rq" and "account_small w rq"
    and "length (''0'' @ crlf @ concat (map header_line (rs_headers response)) @ crlf @ crlf) < 1024"
  shows "sends r (rq\<lparr>rq_flags := HTTP_FLAG_CLEAR (rq_flags rq) HTTP_CHUNKED_RESPONSE\<rparr>) http_write w
    ((''0'' @ crlf @ concat (map header_line (rs_headers response)) @ crlf) @ crlf)
    (hs_request_respond_chunk_end r response http_write w)"
  using respond_chunk_end_sends [OF assms] .

theorem respond_chunk_end_bytes_witness:
  "sends 0 (streaming_request\<lparr>rq_flags := 0\<rparr>) no_write streaming_world
     ((''0'' @ crlf @ crlf) @ crlf)
     (hs_request_respond_chunk_end 0 hs_response_init no_write streaming_world)"
  using respond_chunk_end_bytes [where r = 0 and response = hs_response_init and http_write = no_write,
      OF streaming_facts(1,3)]
  by (simp add: hs_response_init_def crlf_def streaming_request_def flag_ops flag_consts)

section \<open>Status codes\<close>

text \<open>
  C18. Every response the interface can build has a status with an entry in the table of status
  texts, so that serializing it never reads outside the table.
\<close>

theorem status_in_table:
  "status_ok (hs_response_set_status response code) \<and> status_ok hs_response_init
   \<and> status_text (rs_status (hs_response_set_status response code))
       = Inr (hs_status_text ! nat (rs_status (hs_response_set_status response code)))
   \<and> rs_status (hs_response_set_status response code) = (if 100 \<le> code \<and> code \<le> 599 then code else 500)"
  by (auto simp: status_ok_def hs_response_set_status_def hs_response_init_def status_text_def
      length_status_text)

end
