(* ===== verification/Write_Socket.thy ===== *)
theory Write_Socket
  imports World
begin

text \<open>
  \<^verbatim>\<open>src/src/write_socket.c\<close>: one attempt to write the rest of the response, and the
  classification of its outcome.
\<close>

datatype hs_write_rc_e =
    HS_WRITE_RC_SUCCESS
  | HS_WRITE_RC_SUCCESS_CHUNK
  | HS_WRITE_RC_SUCCESS_CLOSE
  | HS_WRITE_RC_CONTINUE
  | HS_WRITE_RC_SOCKET_ERR

definition HTTP_KEEP_ALIVE_TIMEOUT :: int where "HTTP_KEEP_ALIVE_TIMEOUT = 120"

definition hs_write_socket :: "ptr \<Rightarrow> world \<Rightarrow> (hs_write_rc_e \<times> world) result" where
  "hs_write_socket r w =
     bindr (deref r w) (\<lambda>request.
       bindr (os_write (rq_socket request) (bf_buf (rq_buffer request)) (rq_bytes_written request)
                (bf_length (rq_buffer request) - rq_bytes_written request) w) (\<lambda>(bytes, w).
         let request = (if 0 < bytes
               then request\<lparr>rq_bytes_written := i64 (rq_bytes_written request + bytes)\<rparr> else request);
             rc = (if w_errno w = EPIPE then HS_WRITE_RC_SOCKET_ERR
                   else if rq_bytes_written request \<noteq> bf_length (rq_buffer request)
                   then HS_WRITE_RC_CONTINUE
                   else if HTTP_FLAG_CHECK (rq_flags request) HTTP_CHUNKED_RESPONSE
                   then HS_WRITE_RC_SUCCESS_CHUNK
                   else if HTTP_FLAG_CHECK (rq_flags request) HTTP_KEEP_ALIVE
                   then HS_WRITE_RC_SUCCESS
                   else HS_WRITE_RC_SUCCESS_CLOSE)
         in Inr (rc, assign r request w)))"

end
