(* ===== verification/Write_Props.thy ===== *)
theory Write_Props
  imports Write_Socket Respond_Props
begin

text \<open>
  Writing a response: what one attempt does, and what a series of attempts delivers whatever
  pieces the socket accepts.
\<close>

section \<open>One attempt\<close>

text \<open>The classification of an attempt that has brought the request to \<open>k\<close> bytes.\<close>

definition write_outcome :: "http_request_s \<Rightarrow> errno \<Rightarrow> int \<Rightarrow> hs_write_rc_e" where
  "write_outcome rq err k =
     (if err = EPIPE then HS_WRITE_RC_SOCKET_ERR
      else if k \<noteq> bf_length (rq_buffer rq) then HS_WRITE_RC_CONTINUE
      else if HTTP_FLAG_CHECK (rq_flags rq) HTTP_CHUNKED_RESPONSE then HS_WRITE_RC_SUCCESS_CHUNK
      else if HTTP_FLAG_CHECK (rq_flags rq) HTTP_KEEP_ALIVE then HS_WRITE_RC_SUCCESS
      else HS_WRITE_RC_SUCCESS_CLOSE)"

text \<open>A request in the middle of writing \<open>text\<close>, of which \<open>k\<close> bytes are gone.\<close>

definition writing :: "ptr \<Rightarrow> world \<Rightarrow> http_request_s \<Rightarrow> string \<Rightarrow> nat \<Rightarrow> bool" where
  "writing r w rq text k \<longleftrightarrow>
     deref r w = Inr rq \<and> buffer_holds (rq_buffer rq) text \<and> rq_bytes_written rq = int k
     \<and> k \<le> length text \<and> bf_capacity (rq_buffer rq) < 2147483648"

lemma cells_holds:
  assumes "holds m text" and "k + n \<le> length text" and "m \<noteq> None"
  shows "cells m (int k) (int n) = Inr (map Some (take n (drop k text)))"
proof -
  obtain b where b: "m = Some b" "length text \<le> length b" "take (length text) b = map Some text"
    using assms by (auto simp: holds_def)
  have "take n (drop k b) = take n (drop k (take (length text) b))"
    using assms(2) by (simp add: drop_take min_def)
  then show ?thesis using b assms(2) by (simp add: cells_def take_map drop_map)
qed

lemma os_write_text:
  assumes "buffer_holds bf text" and "k \<le> length text" and "bf_capacity bf < 2147483648"
  obtains n w' where
    "os_write fd (bf_buf bf) (int k) (bf_length bf - int k) w = Inr (n, w')"
    "k + nat n \<le> length text" "n \<le> int (length text)"
    "w_sent w' = (w_sent w)(fd := w_sent w fd @ map Some (take (nat n) (drop k text)))"
    "w_heap w' = w_heap w" "w_server w' = w_server w"
    "w_writes w fd = [] \<longrightarrow> nat n = length text - k"
    "w_writes w' fd = tl (w_writes w fd)"
    "w_errno w' = w_errno w \<or> (\<exists>e. W_Fail e \<in> set (w_writes w fd) \<and> w_errno w' = e)"
proof -
  from assms(1) obtain b where b: "bf_buf bf = Some b" "holds (Some b) text" "bf_length bf = int (length text)"
    "length text \<le> length b" "int (length b) = bf_capacity bf"
    by (rule buffer_holdsE)
  define rest where "rest = length text - k"
  have len: "bf_length bf - int k = int rest" "k + rest = length text" using b(3) assms(2) by (auto simp: rest_def)
  have st: "size_t (int rest) = int rest"
    using b assms(3) len by (intro size_t_id) auto
  show ?thesis
  proof (cases "w_writes w fd")
    case Nil
    have "os_write fd (bf_buf bf) (int k) (bf_length bf - int k) w
        = Inr (int rest, w\<lparr>w_sent := (w_sent w)(fd := w_sent w fd @ map Some (take rest (drop k text)))\<rparr>)"
      using Nil b len st cells_holds [OF b(2), of k rest] by (simp add: os_write_def)
    then show ?thesis by (rule that) (use Nil len in auto)
  next
    case (Cons ev evs)
    show ?thesis
    proof (cases ev)
      case (W_Accept j)
      let ?n = "min (int rest) (max 0 j)"
      have n: "0 \<le> ?n" "k + nat ?n \<le> length text" "?n \<le> int (length text)" "int (nat ?n) = ?n"
        using len by auto
      have "os_write fd (bf_buf bf) (int k) (bf_length bf - int k) w
          = Inr (?n, w\<lparr>w_writes := (w_writes w)(fd := evs),
              w_sent := (w_sent w)(fd := w_sent w fd @ map Some (take (nat ?n) (drop k text)))\<rparr>)"
        using Cons W_Accept b len(1) st cells_holds [OF b(2) n(2)] n(4) by (simp add: os_write_def Let_def)
      then show ?thesis by (rule that) (use Cons n in auto)
    next
      case (W_Fail e)
      have "os_write fd (bf_buf bf) (int k) (bf_length bf - int k) w
          = Inr (- 1, w\<lparr>w_errno := e, w_writes := (w_writes w)(fd := evs)\<rparr>)"
        using Cons W_Fail by (simp add: os_write_def)
      then show ?thesis by (rule that) (use Cons W_Fail assms(2) in auto)
    qed
  qed
qed

lemma write_socket_step:
  assumes "writing r w rq text k"
  obtains w' k' where
    "hs_write_socket r w = Inr (write_outcome rq (w_errno w') (int k'), w')"
    "k \<le> k'" "writing r w' (rq\<lparr>rq_bytes_written := int k'\<rparr>) text k'"
    "w_sent w' (rq_socket rq) = w_sent w (rq_socket rq) @ map Some (take (k' - k) (drop k text))"
    "w_writes w (rq_socket rq) = [] \<longrightarrow> k' = length text"
    "w_writes w' (rq_socket rq) = tl (w_writes w (rq_socket rq))"
    "w_errno w' = w_errno w \<or> (\<exists>e. W_Fail e \<in> set (w_writes w (rq_socket rq)) \<and> w_errno w' = e)"
proof -
  from assms have a: "deref r w = Inr rq" "buffer_holds (rq_buffer rq) text" "rq_bytes_written rq = int k"
    "k \<le> length text" "bf_capacity (rq_buffer rq) < 2147483648"
    by (auto simp: writing_def)
  from os_write_text [OF a(2,4,5), of "rq_socket rq" w] obtain n w' where
    wr: "os_write (rq_socket rq) (bf_buf (rq_buffer rq)) (int k) (bf_length (rq_buffer rq) - int k) w = Inr (n, w')"
    "k + nat n \<le> length text" "n \<le> int (length text)"
    "w_sent w' = (w_sent w)(rq_socket rq := w_sent w (rq_socket rq) @ map Some (take (nat n) (drop k text)))"
    "w_heap w' = w_heap w" "w_writes w (rq_socket rq) = [] \<longrightarrow> nat n = length text - k"
    "w_writes w' (rq_socket rq) = tl (w_writes w (rq_socket rq))"
    "w_errno w' = w_errno w \<or> (\<exists>e. W_Fail e \<in> set (w_writes w (rq_socket rq)) \<and> w_errno w' = e)"
    by metis
  have len: "length text < 2147483648" using a(2,5) by (auto elim!: buffer_holdsE)
  let ?k = "k + nat n"
  let ?rq = "rq\<lparr>rq_bytes_written := int ?k\<rparr>"
  have "(if 0 < n then rq\<lparr>rq_bytes_written := i64 (rq_bytes_written rq + n)\<rparr> else rq) = ?rq"
  proof (cases "0 < n")
    case True
    then have "i64 (int k + n) = int k + n" using wr(2,3) a(4) len by (intro i64_id) auto
    with True a(3) show ?thesis by simp
  next
    case False
    with a(3) show ?thesis by (cases rq) simp
  qed
  then have "hs_write_socket r w = Inr (write_outcome rq (w_errno w') (int ?k), assign r ?rq w')"
    using a(1,3) wr(1) by (simp add: hs_write_socket_def write_outcome_def Let_def)
  moreover have "w_errno (assign r ?rq w') = w_errno w'" by (simp add: assign_def)
  moreover have "writing r (assign r ?rq w') ?rq text ?k"
    using a wr(2) by (simp add: writing_def)
  ultimately show ?thesis
    using that [of "assign r ?rq w'" ?k] wr a(4) by (simp add: assign_def)
qed

text \<open>
  C19. One attempt to write. It hands the socket a further piece of the response, starting where
  the last attempt ended and never past the end, and its result tells the caller truthfully
  whether bytes are left, unless the error variable says \<open>EPIPE\<close>.
\<close>

theorem write_socket_progress:
  assumes "writing r w rq text k"
  shows "\<exists>w' k'. hs_write_socket r w = Inr (write_outcome rq (w_errno w') (int k'), w')
    \<and> k \<le> k' \<and> writing r w' (rq\<lparr>rq_bytes_written := int k'\<rparr>) text k'
    \<and> w_sent w' (rq_socket rq) = w_sent w (rq_socket rq) @ map Some (take (k' - k) (drop k text))"
  using write_socket_step [OF assms] by metis

section \<open>A series of attempts\<close>

text \<open>The attempts on the writable events of a socket, until one does not ask to go on.\<close>

primrec write_loop :: "nat \<Rightarrow> ptr \<Rightarrow> world \<Rightarrow> (hs_write_rc_e \<times> world) result" where
  "write_loop 0 r w = Inl Out_Of_Fuel"
| "write_loop (Suc n) r w =
     bindr (hs_write_socket r w) (\<lambda>(rc, w).
       if rc = HS_WRITE_RC_CONTINUE then write_loop n r w else Inr (rc, w))"

definition no_epipe :: "world \<Rightarrow> int \<Rightarrow> bool" where
  "no_epipe w fd \<longleftrightarrow> w_errno w \<noteq> EPIPE \<and> W_Fail EPIPE \<notin> set (w_writes w fd)"

lemma write_loop_delivers:
  assumes "writing r w rq text k" and "no_epipe w (rq_socket rq)"
    and "length (w_writes w (rq_socket rq)) < n"
  shows "\<exists>w' err. err \<noteq> EPIPE \<and> write_loop n r w = Inr (write_outcome rq err (int (length text)), w')
    \<and> w_sent w' (rq_socket rq) = w_sent w (rq_socket rq) @ map Some (drop k text)"
  using assms
proof (induction n arbitrary: w k rq)
  case 0
  then show ?case by simp
next
  case (Suc n)
  let ?fd = "rq_socket rq"
  obtain w' k' where st: "hs_write_socket r w = Inr (write_outcome rq (w_errno w') (int k'), w')"
    "k \<le> k'" "writing r w' (rq\<lparr>rq_bytes_written := int k'\<rparr>) text k'"
    "w_sent w' ?fd = w_sent w ?fd @ map Some (take (k' - k) (drop k text))"
    "w_writes w ?fd = [] \<longrightarrow> k' = length text" "w_writes w' ?fd = tl (w_writes w ?fd)"
    "w_errno w' = w_errno w \<or> (\<exists>e. W_Fail e \<in> set (w_writes w ?fd) \<and> w_errno w' = e)"
    using write_socket_step [OF Suc.prems(1)] by metis
  have len: "bf_length (rq_buffer rq) = int (length text)"
    using Suc.prems(1) by (auto simp: writing_def elim: buffer_holdsE)
  have err: "w_errno w' \<noteq> EPIPE" using st(7) Suc.prems(2) by (auto simp: no_epipe_def)
  have out: "write_outcome (rq\<lparr>rq_bytes_written := int k'\<rparr>) e j = write_outcome rq e j" for e j
    by (simp add: write_outcome_def)
  show ?case
  proof (cases "k' = length text")
    case True
    then have "write_outcome rq (w_errno w') (int k') \<noteq> HS_WRITE_RC_CONTINUE"
      using len err by (simp add: write_outcome_def)
    with True st err show ?thesis by auto
  next
    case False
    then have cont: "write_outcome rq (w_errno w') (int k') = HS_WRITE_RC_CONTINUE"
      using len err by (simp add: write_outcome_def)
    have ne: "w_writes w ?fd \<noteq> []" using False st(5) by blast
    have "no_epipe w' ?fd"
      using Suc.prems(2) st(6) err by (cases "w_writes w ?fd") (auto simp: no_epipe_def)
    moreover have "length (w_writes w' ?fd) < n"
      using Suc.prems(3) st(6) ne by (cases "w_writes w ?fd") auto
    ultimately obtain w'' e where "e \<noteq> EPIPE"
      "write_loop n r w' = Inr (write_outcome rq e (int (length text)), w'')"
      "w_sent w'' ?fd = w_sent w' ?fd @ map Some (drop k' text)"
      using Suc.IH [OF st(3)] by (auto simp: out)
    moreover have "take (k' - k) (drop k text) @ drop k' text = drop k text"
      using append_take_drop_id [of "k' - k" "drop k text"] st(2) by simp
    ultimately show ?thesis
      using st(1,4) cont by (auto simp flip: map_append)
  qed
qed

text \<open>
  C20. Delivery. As long as the connection is not broken, however the socket splits and delays
  the response, the attempts deliver every byte of it exactly once and in order, after at most
  one attempt more than the socket has refusals and partial acceptances in store; then the
  outcome is a success.
\<close>

theorem write_delivers_response:
  assumes "writing r w rq text 0" and "no_epipe w (rq_socket rq)"
  shows "\<exists>w' rc. write_loop (Suc (length (w_writes w (rq_socket rq)))) r w = Inr (rc, w')
    \<and> rc \<in> {HS_WRITE_RC_SUCCESS, HS_WRITE_RC_SUCCESS_CHUNK, HS_WRITE_RC_SUCCESS_CLOSE}
    \<and> w_sent w' (rq_socket rq) = w_sent w (rq_socket rq) @ map Some text"
proof -
  obtain w' err where l: "err \<noteq> EPIPE"
    "write_loop (Suc (length (w_writes w (rq_socket rq)))) r w
       = Inr (write_outcome rq err (int (length text)), w')"
    "w_sent w' (rq_socket rq) = w_sent w (rq_socket rq) @ map Some text"
    using write_loop_delivers [OF assms, of "Suc (length (w_writes w (rq_socket rq)))"] by auto
  have "bf_length (rq_buffer rq) = int (length text)"
    using assms(1) by (auto simp: writing_def elim: buffer_holdsE)
  with l show ?thesis by (auto simp: write_outcome_def)
qed

text \<open>
  C21. The error variable is read after a write that may have succeeded. When it still says
  \<open>EPIPE\<close> from an earlier call, possibly for another connection, a response that has been
  written completely is reported as a socket error.
\<close>

theorem write_stale_errno:
  assumes "writing r w rq text 0" and "w_errno w = EPIPE" and "w_writes w (rq_socket rq) = []"
  shows "\<exists>w'. hs_write_socket r w = Inr (HS_WRITE_RC_SOCKET_ERR, w')
    \<and> w_sent w' (rq_socket rq) = w_sent w (rq_socket rq) @ map Some text"
proof -
  obtain w' k' where st: "hs_write_socket r w = Inr (write_outcome rq (w_errno w') (int k'), w')"
    "w_sent w' (rq_socket rq) = w_sent w (rq_socket rq) @ map Some (take (k' - 0) (drop 0 text))"
    "w_writes w (rq_socket rq) = [] \<longrightarrow> k' = length text"
    "w_errno w' = w_errno w \<or> (\<exists>e. W_Fail e \<in> set (w_writes w (rq_socket rq)) \<and> w_errno w' = e)"
    using write_socket_step [OF assms(1)] by metis
  with assms show ?thesis by (auto simp: write_outcome_def)
qed

text \<open>A request with a five byte response, on a socket that takes it in three attempts.\<close>

definition answering_request :: http_request_s where
  "answering_request = closing_request\<lparr>rq_buffer := buffer_zero\<lparr>
     bf_buf := Some (map Some ''hello'' @ [None]), bf_capacity := 6, bf_length := 5\<rparr>\<rparr>"

definition answering_world :: "errno \<Rightarrow> write_event list \<Rightarrow> world" where
  "answering_world e evs = sample_world\<lparr>w_heap := (\<lambda>_. Some answering_request), w_next := 1,
     w_errno := e, w_writes := (\<lambda>_. evs)\<rparr>"

lemma answering_writing: "writing r (answering_world e evs) answering_request ''hello'' 0"
  by (simp add: writing_def answering_world_def answering_request_def deref_def buffer_holds_def holds_def
      closing_request_def sample_request_def)

theorem write_socket_progress_witness:
  "\<exists>w' k'. hs_write_socket 0 (answering_world E_None [W_Accept 2])
      = Inr (write_outcome answering_request (w_errno w') (int k'), w')
    \<and> writing 0 w' (answering_request\<lparr>rq_bytes_written := int k'\<rparr>) ''hello'' k'
    \<and> w_sent w' 9 = map Some (take k' ''hello'')"
  using write_socket_progress [OF answering_writing, of 0 E_None "[W_Accept 2]"]
  by (auto simp: answering_world_def sample_world_def answering_request_def closing_request_def
      sample_request_def)

theorem write_delivers_response_witness:
  "\<exists>w' rc. write_loop 3 0 (answering_world E_None [W_Accept 2, W_Fail EAGAIN]) = Inr (rc, w')
    \<and> rc \<in> {HS_WRITE_RC_SUCCESS, HS_WRITE_RC_SUCCESS_CHUNK, HS_WRITE_RC_SUCCESS_CLOSE}
    \<and> w_sent w' 9 = map Some ''hello''"
proof -
  let ?w = "answering_world E_None [W_Accept 2, W_Fail EAGAIN]"
  have f: "rq_socket answering_request = 9" "no_epipe ?w 9" "length (w_writes ?w 9) = 2" "w_sent ?w 9 = []"
    by (simp_all add: answering_request_def closing_request_def sample_request_def no_epipe_def
        answering_world_def sample_world_def)
  show ?thesis
    using write_delivers_response [OF answering_writing, of E_None "[W_Accept 2, W_Fail EAGAIN]" 0]
    unfolding f by (simp only: f(2,3,4) append_Nil simp_thms numeral_3_eq_3 numeral_2_eq_2)
qed

theorem write_stale_errno_witness:
  "\<exists>w'. hs_write_socket 0 (answering_world EPIPE []) = Inr (HS_WRITE_RC_SOCKET_ERR, w')
    \<and> w_sent w' 9 = map Some ''hello''"
  using write_stale_errno [OF answering_writing, of EPIPE "[]" 0]
  by (simp add: answering_world_def sample_world_def answering_request_def closing_request_def
      sample_request_def)

end
