(* ===== verification/Parser_Tokens.thy ===== *)
theory Parser_Tokens
  imports Parser_Run Parser_Grammar
begin

text \<open>
  What the parser makes of a request head. A well-formed head is given by its parts; rendering it
  and parsing the bytes gives the parts back, token by token, together with the body length and
  the coding that the headers announce.
\<close>

section \<open>Steps of the scanner inside a token\<close>

lemma gcode_pos: "gpos_ok g \<Longrightarrow> 0 < gcode g"
  by (cases g) (simp_all add: gpos_ok_def)

lemma byte_step_gstep:
  assumes "gpos_ok g" and "x_cs x = gcode g" and "gstep g c = (g', as)"
  shows "byte_step mv mx pe c x =
    (case run_actions mv mx pe c as (x\<lparr>x_cs := gcode g'\<rparr>) of
       Inl e \<Rightarrow> Inl e
     | Inr (Stop y) \<Rightarrow> Inr (Stop y)
     | Inr (Cont y) \<Rightarrow> if x_cs y = hsh_http_error then Inr (Stop y) else Inr (Cont (y\<lparr>x_p := x_p y + 1\<rparr>)))"
  using assms by (simp add: byte_step_def hsh_trans_gstep)

text \<open>The flags of the parser between two calls: only whether the body is chunked.\<close>

definition chunk_flags :: "bool \<Rightarrow> 8 word" where
  "chunk_flags ch = (if ch then HSH_P_FLAG_CHUNKED else 0)"

text \<open>
  \<open>at bf sq cl ch g p x\<close>: the scanner is at offset \<open>p\<close> of the buffer \<open>bf\<close>, at
  the position \<open>g\<close> of the grammar. \<open>entered ty ix n M x\<close>: it is inside a token.
\<close>

definition at :: "hsh_buffer_s \<Rightarrow> int \<Rightarrow> int \<Rightarrow> bool \<Rightarrow> gpos \<Rightarrow> nat \<Rightarrow> xst \<Rightarrow> bool" where
  "at bf sq cl ch g p x \<longleftrightarrow> x_bf x = bf \<and> x_cs x = gcode g \<and> x_p x = int p \<and> gpos_ok g
     \<and> ps_sequence_id (x_ps x) = sq \<and> ps_content_length (x_ps x) = cl
     \<and> ps_flags (x_ps x) = chunk_flags ch"

definition counting :: "nat \<Rightarrow> nat \<Rightarrow> xst \<Rightarrow> bool" where
  "counting n M x \<longleftrightarrow> ps_limit_count (x_ps x) = int n \<and> ps_limit_max (x_ps x) = int M"

definition entered :: "hsh_token_e \<Rightarrow> nat \<Rightarrow> nat \<Rightarrow> nat \<Rightarrow> xst \<Rightarrow> bool" where
  "entered ty ix n M x \<longleftrightarrow> counting n M x \<and> tk_type (ps_token (x_ps x)) = ty
     \<and> tk_index (ps_token (x_ps x)) = int ix \<and> tk_flags (ps_token (x_ps x)) = 0"

definition token_at :: "hsh_token_e \<Rightarrow> nat \<Rightarrow> nat \<Rightarrow> hsh_token_s" where
  "token_at ty ix n = \<lparr>tk_type = ty, tk_flags = 0, tk_len = int n, tk_index = int ix\<rparr>"

definition emitted :: "hsh_buffer_s \<Rightarrow> int \<Rightarrow> int \<Rightarrow> bool \<Rightarrow> gpos \<Rightarrow> nat \<Rightarrow> hsh_token_s \<Rightarrow> xst \<Rightarrow> bool" where
  "emitted bf sq cl ch g p t x \<longleftrightarrow> x_bf x = bf \<and> x_cs x = gcode g \<and> x_p x = int p \<and> gpos_ok g
     \<and> ps_sequence_id (x_ps x) = sq \<and> ps_content_length (x_ps x) = cl
     \<and> ps_flags (x_ps x) = chunk_flags ch OR HSH_P_FLAG_TOKEN_READY \<and> ps_token (x_ps x) = t"

lemma i16_Suc: "n < 32767 \<Longrightarrow> i16 (int n + 1) = int (Suc n)"
  by (subst i16_id) auto

lemma step_silent:
  assumes "at bf sq cl ch g p x" and "gstep g c = (g', [])" and "gpos_ok g'"
  shows "\<exists>y. byte_step mv mx pe c x = Inr (Cont y) \<and> at bf sq cl ch g' (Suc p) y \<and> x_ps y = x_ps x"
  using assms gcode_pos [of g'] by (auto simp: at_def byte_step_gstep hsh_http_error_def)

lemma step_inc:
  assumes "at bf sq cl ch g p x" and "gstep g c = (g', [A_inc_count])" and "gpos_ok g'"
    and "counting n M x" and "n < M" and "M < 32767"
  shows "\<exists>y. byte_step mv mx pe c x = Inr (Cont y) \<and> at bf sq cl ch g' (Suc p) y \<and> counting (Suc n) M y
    \<and> ps_token (x_ps y) = ps_token (x_ps x)"
  using assms gcode_pos [of g']
  by (auto simp: at_def counting_def byte_step_gstep hsh_http_error_def act_inc_count_def i16_Suc)

lemma step_enter:
  assumes "at bf sq cl ch g p x" and "gstep g c = (g', as)" and "gpos_ok g'" and "int p < 2147483648"
    and "as = [A_method, A_inc_count] \<and> ty = HSH_TOK_METHOD \<and> M = 32 \<and> n = 1
      \<or> as = [A_target, A_inc_count] \<and> ty = HSH_TOK_TARGET \<and> M = 1024 \<and> n = 1
      \<or> as = [A_version] \<and> ty = HSH_TOK_VERSION \<and> M = 16 \<and> n = 0
      \<or> as = [A_reset_count, A_header_key, A_inc_count] \<and> ty = HSH_TOK_HEADER_KEY \<and> M = 256 \<and> n = 1
      \<or> as = [A_header_key, A_reset_count, A_inc_count] \<and> ty = HSH_TOK_HEADER_KEY \<and> M = 256 \<and> n = 1
      \<or> as = [A_header_value, A_inc_count] \<and> ty = HSH_TOK_HEADER_VALUE \<and> M = 4096 \<and> n = 1"
  shows "\<exists>y. byte_step mv mx pe c x = Inr (Cont y) \<and> at bf sq cl ch g' (Suc p) y \<and> entered ty p n M y"
proof -
  have p: "i32 (int p) = int p" using assms(4) by (intro i32_id) auto
  have one: "i16 (0 + 1) = 1" "i16 1 = 1" by (simp_all add: i16_def)
  show ?thesis using assms(5)
    by (elim disjE)
      (use assms(1-3) gcode_pos [of g'] in \<open>auto simp: at_def entered_def counting_def byte_step_gstep
        hsh_http_error_def act_inc_count_def act_reset_count_def HSH_ENTER_TOKEN_def p one Let_def\<close>)
qed

lemma step_emit:
  assumes "at bf sq cl ch g p x" and "gstep g c = (g', [A_emit_token])" and "gpos_ok g'"
    and "entered ty ix n M x" and "ix \<le> p" and "int p < 2147483648"
  shows "\<exists>y. byte_step mv mx pe c x = Inr (Stop y)
    \<and> emitted bf sq cl ch g' (Suc p) (token_at ty ix (p - ix)) y \<and> counting n M y"
proof -
  have "i32 (int p - int ix) = int (p - ix)" using assms(5,6) by (subst i32_id) auto
  then show ?thesis using assms(1-4)
    by (auto simp: at_def entered_def counting_def byte_step_gstep act_emit_token_def emitted_def Let_def
        fbreak_def set_ready_def token_at_def flag_ops intro: hsh_token_s.equality)
qed

text \<open>A segment that is read byte by byte inside a token.\<close>

lemma run_segment:
  assumes "\<And>k x. k < length s \<Longrightarrow> P k x \<Longrightarrow> \<exists>y. byte_step mv mx pe (s ! k) x = Inr (Cont y) \<and> P (Suc k) y"
    and "P 0 x"
  shows "\<exists>y. run_bytes mv mx pe s x = Inr (Cont y) \<and> P (length s) y"
  using assms
proof (induction s arbitrary: x P)
  case Nil
  then show ?case by auto
next
  case (Cons c s)
  from Cons.prems(1) [of 0 x] Cons.prems(2) obtain y where y: "byte_step mv mx pe c x = Inr (Cont y)" "P 1 y"
    by auto
  have "\<exists>z. run_bytes mv mx pe s y = Inr (Cont z) \<and> P (Suc (length s)) z"
    using Cons.prems(1) [of "Suc k" for k] y(2) by (intro Cons.IH [where P = "\<lambda>k. P (Suc k)"]) auto
  with y show ?case by auto
qed

text \<open>The body of a token: bytes that only count.\<close>

lemma run_counting:
  assumes x: "at bf sq cl ch (g 0) p x" "entered ty ix n M x"
    and step: "\<And>k. k < length s \<Longrightarrow> gstep (g k) (s ! k) = (g (Suc k), [A_inc_count]) \<and> gpos_ok (g (Suc k))"
    and lim: "n + length s \<le> M" "M < 32767"
  shows "\<exists>y. run_bytes mv mx pe s x = Inr (Cont y) \<and> at bf sq cl ch (g (length s)) (p + length s) y
    \<and> entered ty ix (n + length s) M y"
proof -
  let ?P = "\<lambda>k y. at bf sq cl ch (g k) (p + k) y \<and> entered ty ix (n + k) M y"
  have "\<exists>y. run_bytes mv mx pe s x = Inr (Cont y) \<and> ?P (length s) y"
  proof (rule run_segment [where P = ?P])
    fix k y assume k: "k < length s" and y: "?P k y"
    then have "n + k < M" using lim by linarith
    have "at bf sq cl ch (g k) (p + k) y" "counting (n + k) M y" using y by (simp_all add: entered_def)
    from step_inc [OF this(1) _ _ this(2), of "s ! k" "g (Suc k)" mv mx pe] step [OF k] lim k
    obtain z where "byte_step mv mx pe (s ! k) y = Inr (Cont z)" "at bf sq cl ch (g (Suc k)) (Suc (p + k)) z"
      "counting (Suc (n + k)) M z" "ps_token (x_ps z) = ps_token (x_ps y)"
      by auto
    with y show "\<exists>z. byte_step mv mx pe (s ! k) y = Inr (Cont z) \<and> ?P (Suc k) z"
      by (auto simp: entered_def)
  qed (use x in simp)
  then show ?thesis by simp
qed

text \<open>A token that is entered on its first byte, counted to its end and emitted at a delimiter.\<close>

lemma run_token:
  assumes x: "at bf sq cl ch g0 p x"
    and first: "gstep g0 c = (g 0, as)" "gpos_ok (g 0)"
    and acts: "as = [A_method, A_inc_count] \<and> ty = HSH_TOK_METHOD \<and> M = 32
      \<or> as = [A_target, A_inc_count] \<and> ty = HSH_TOK_TARGET \<and> M = 1024
      \<or> as = [A_reset_count, A_header_key, A_inc_count] \<and> ty = HSH_TOK_HEADER_KEY \<and> M = 256
      \<or> as = [A_header_key, A_reset_count, A_inc_count] \<and> ty = HSH_TOK_HEADER_KEY \<and> M = 256"
    and step: "\<And>k. k < length s \<Longrightarrow> gstep (g k) (s ! k) = (g (Suc k), [A_inc_count]) \<and> gpos_ok (g (Suc k))"
    and last: "gstep (g (length s)) d = (g', [A_emit_token])" "gpos_ok g'"
    and lim: "Suc (length s) \<le> M" "int p + int (length s) < 2147483647"
  shows "\<exists>y. run_bytes mv mx pe (c # s @ [d]) x = Inr (Stop y)
    \<and> emitted bf sq cl ch g' (p + length s + 2) (token_at ty p (Suc (length s))) y
    \<and> counting (Suc (length s)) M y"
proof -
  have M: "M < 32767" using acts by auto
  have "\<exists>y. byte_step mv mx pe c x = Inr (Cont y) \<and> at bf sq cl ch (g 0) (Suc p) y \<and> entered ty p 1 M y"
    using acts lim(2) by (intro step_enter [OF x first]) auto
  then obtain y where y: "byte_step mv mx pe c x = Inr (Cont y)" "at bf sq cl ch (g 0) (Suc p) y" "entered ty p 1 M y"
    by blast
  obtain z where z: "run_bytes mv mx pe s y = Inr (Cont z)"
    "at bf sq cl ch (g (length s)) (Suc p + length s) z" "entered ty p (1 + length s) M z"
    using run_counting [OF y(2,3) step _ M, of mv mx pe] lim(1) by auto
  have "\<exists>u. byte_step mv mx pe d z = Inr (Stop u)
      \<and> emitted bf sq cl ch g' (Suc (Suc p + length s)) (token_at ty p (Suc p + length s - p)) u
      \<and> counting (1 + length s) M u"
    using lim(2) by (intro step_emit [OF z(2) last z(3)]) auto
  with y z show ?thesis by (auto simp: run_bytes_append)
qed

section \<open>Header keys\<close>

text \<open>What a key announces, and the position behind its first bytes.\<close>

datatype hkind = K_Length | K_Coding | K_Other

definition key_kind :: "string \<Rightarrow> hkind" where
  "key_kind k =
     (if map to_lower k = content_length_name then K_Length
      else if map to_lower k = transfer_encoding_name then K_Coding else K_Other)"

fun after_colon :: "hkind \<Rightarrow> gpos" where
  "after_colon K_Length = G_CL_Colon"
| "after_colon K_Coding = G_TE_Colon"
| "after_colon K_Other = G_Colon"

definition key_pos :: "string \<Rightarrow> gpos" where
  "key_pos u =
     (if length u \<le> 14 \<and> map to_lower u = take (length u) content_length_name then G_CL (length u)
      else if length u \<le> 17 \<and> map to_lower u = take (length u) transfer_encoding_name
      then G_TE (length u) else G_Key)"

lemma name_lengths: "length content_length_name = 14" "length transfer_encoding_name = 17"
  by (simp_all add: content_length_name_def transfer_encoding_name_def)

lemma name_heads: "content_length_name ! 0 = CHR ''c''" "transfer_encoding_name ! 0 = CHR ''t''"
  by (simp_all add: content_length_name_def transfer_encoding_name_def)

lemma prefix_snoc:
  assumes "length u \<le> length name"
  shows "length (u @ [c]) \<le> length name \<and> map f (u @ [c]) = take (length (u @ [c])) name
    \<longleftrightarrow> length u < length name \<and> map f u = take (length u) name \<and> f c = name ! length u"
  using assms by (auto simp: take_Suc_conv_app_nth)

lemma no_common_prefix:
  assumes "u \<noteq> []" and "map to_lower u = take (length u) content_length_name"
  shows "map to_lower u \<noteq> take (length u) transfer_encoding_name"
proof
  assume "map to_lower u = take (length u) transfer_encoding_name"
  with assms have "take (length u) content_length_name ! 0 = take (length u) transfer_encoding_name ! 0" by simp
  with assms(1) show False by (simp add: name_heads)
qed

lemma key_pos_ok: "u \<noteq> [] \<Longrightarrow> gpos_ok (key_pos u)"
  by (cases u) (auto simp: key_pos_def gpos_ok_def)

lemma key_pos_first:
  assumes "\<not> token_excluded c"
  shows "key_start as c = (key_pos [c], as)"
  using assms by (auto simp: key_start_def key_pos_def take_Suc_conv_app_nth name_lengths name_heads)

lemma key_pos_step:
  assumes "u \<noteq> []" and "\<not> token_excluded c"
  shows "gstep (key_pos u) c = (key_pos (u @ [c]), [A_inc_count])"
proof -
  have colon: "c \<noteq> CHR '':''" using assms(2) by (auto simp: token_excluded_def)
  note cl = prefix_snoc [where u = u and name = content_length_name and f = to_lower and c = c, unfolded name_lengths]
  note te = prefix_snoc [where u = u and name = transfer_encoding_name and f = to_lower and c = c, unfolded name_lengths]
  consider (CL) "length u \<le> 14" "map to_lower u = take (length u) content_length_name"
    | (TE) "\<not> (length u \<le> 14 \<and> map to_lower u = take (length u) content_length_name)"
      "length u \<le> 17" "map to_lower u = take (length u) transfer_encoding_name"
    | (Key) "\<not> (length u \<le> 14 \<and> map to_lower u = take (length u) content_length_name)"
      "\<not> (length u \<le> 17 \<and> map to_lower u = take (length u) transfer_encoding_name)"
    by blast
  then show ?thesis
  proof cases
    case CL
    with no_common_prefix [OF assms(1) CL(2)] have "\<not> (length (u @ [c]) \<le> 17
        \<and> map to_lower (u @ [c]) = take (length (u @ [c])) transfer_encoding_name)"
      using te by simp
    moreover have "length (u @ [c]) \<le> 14 \<and> map to_lower (u @ [c]) = take (length (u @ [c])) content_length_name
        \<longleftrightarrow> length u < 14 \<and> to_lower c = content_length_name ! length u"
      using CL by (subst cl) auto
    ultimately have "key_pos (u @ [c]) = (if length u < 14 \<and> to_lower c = content_length_name ! length u
        then G_CL (Suc (length u)) else G_Key)"
      unfolding key_pos_def by (simp only: if_False length_append_singleton)
    moreover have "key_pos u = G_CL (length u)" using CL by (simp add: key_pos_def)
    ultimately show ?thesis using assms(2) colon by (simp add: key_step_def)
  next
    case TE
    have "\<not> (length (u @ [c]) \<le> 14 \<and> map to_lower (u @ [c]) = take (length (u @ [c])) content_length_name)"
      using TE(1) by (auto simp: take_Suc_conv_app_nth name_lengths)
    moreover have "length (u @ [c]) \<le> 17 \<and> map to_lower (u @ [c]) = take (length (u @ [c])) transfer_encoding_name
        \<longleftrightarrow> length u < 17 \<and> to_lower c = transfer_encoding_name ! length u"
      using TE by (subst te) auto
    ultimately have "key_pos (u @ [c]) = (if length u < 17 \<and> to_lower c = transfer_encoding_name ! length u
        then G_TE (Suc (length u)) else G_Key)"
      unfolding key_pos_def by (simp only: if_False length_append_singleton)
    moreover have "key_pos u = G_TE (length u)" using TE unfolding key_pos_def by (simp only: if_False if_True simp_thms)
    ultimately show ?thesis using assms(2) colon by (simp add: key_step_def)
  next
    case Key
    have "\<not> (length (u @ [c]) \<le> 14 \<and> map to_lower (u @ [c]) = take (length (u @ [c])) content_length_name)"
      "\<not> (length (u @ [c]) \<le> 17 \<and> map to_lower (u @ [c]) = take (length (u @ [c])) transfer_encoding_name)"
      using Key by (auto simp: take_Suc_conv_app_nth name_lengths)
    with Key assms colon show ?thesis
      by (simp add: key_pos_def key_step_def del: length_append map_append) simp?
  qed
qed

lemma key_pos_colon:
  assumes "u \<noteq> []"
  shows "gstep (key_pos u) (CHR '':'') = (after_colon (key_kind u), [A_emit_token])"
proof -
  have full: "map to_lower u = name \<longleftrightarrow> length u = length name \<and> map to_lower u = take (length u) name" for name
    using map_eq_imp_length_eq [of to_lower u id name] by auto
  have cl: "key_kind u = K_Length \<longleftrightarrow> length u = 14 \<and> map to_lower u = take (length u) content_length_name"
    unfolding name_lengths(1) [symmetric] full [symmetric] by (simp add: key_kind_def)
  have "content_length_name \<noteq> transfer_encoding_name" using name_lengths by force
  then have te: "key_kind u = K_Coding \<longleftrightarrow> length u = 17 \<and> map to_lower u = take (length u) transfer_encoding_name"
    unfolding name_lengths(2) [symmetric] full [symmetric] by (auto simp: key_kind_def)
  have ne: "map to_lower u = take (length u) content_length_name \<Longrightarrow> map to_lower u \<noteq> take (length u) transfer_encoding_name"
    by (rule no_common_prefix [OF assms])
  show ?thesis
  proof (cases "key_kind u")
    case K_Length
    with cl show ?thesis by (simp add: key_pos_def key_step_def)
  next
    case K_Coding
    with te ne show ?thesis by (auto simp: key_pos_def key_step_def)
  next
    case K_Other
    with cl te show ?thesis by (auto simp: key_pos_def key_step_def)
  qed
qed

section \<open>Header values\<close>

fun ows_pos :: "hkind \<Rightarrow> gpos" where
  "ows_pos K_Length = G_CL_Ows"
| "ows_pos K_Coding = G_TE_Ows"
| "ows_pos K_Other = G_Ows"

fun val_pos :: "hkind \<Rightarrow> string \<Rightarrow> gpos" where
  "val_pos K_Length u = (if list_all is_digit u then G_CL_Digits else G_Value)"
| "val_pos K_Coding u =
     (if length u \<le> 6 \<and> u = take (length u) chunked_name then G_Chunked (length u) else G_Value)"
| "val_pos K_Other u = G_Value"

text \<open>
  What a value adds to the announced length (its leading digits, behind the digits of earlier
  headers, in 64 bit arithmetic) and to the coding (\<open>chunked\<close> as a prefix).
\<close>

definition add_digit :: "int \<Rightarrow> char \<Rightarrow> int" where
  "add_digit cl c = i64 (i64 (cl * 10) + (c_int c - 48))"

fun length_after :: "hkind \<Rightarrow> string \<Rightarrow> int \<Rightarrow> int" where
  "length_after K_Length v cl = foldl add_digit cl (takeWhile is_digit v)"
| "length_after K_Coding v cl = cl"
| "length_after K_Other v cl = cl"

fun chunked_after :: "hkind \<Rightarrow> string \<Rightarrow> bool \<Rightarrow> bool" where
  "chunked_after K_Coding v ch \<longleftrightarrow> ch \<or> take 7 v = chunked_name"
| "chunked_after K_Length v ch \<longleftrightarrow> ch"
| "chunked_after K_Other v ch \<longleftrightarrow> ch"

text \<open>The actions on the byte behind the prefix \<open>u\<close> of a value.\<close>

fun val_acts :: "hkind \<Rightarrow> string \<Rightarrow> char \<Rightarrow> act list" where
  "val_acts K_Length u c = (if list_all is_digit u \<and> is_digit c then [A_content_length_digit] else [])"
| "val_acts K_Coding u c = (if u = take 6 chunked_name \<and> c = chunked_name ! 6 then [A_transfer_encoding] else [])"
| "val_acts K_Other u c = []"

lemma chunked_length: "length chunked_name = 7"
  by (simp add: chunked_name_def)

lemma takeWhile_snoc: "takeWhile P (xs @ [x]) = (if list_all P xs \<and> P x then xs @ [x] else takeWhile P xs)"
  by (induction xs) auto

lemma length_after_snoc:
  "length_after kd (u @ [c]) cl =
     (if A_content_length_digit \<in> set (val_acts kd u c) then add_digit (length_after kd u cl) c else length_after kd u cl)"
  by (cases kd) (auto simp: takeWhile_snoc list_all_iff takeWhile_eq_all_conv [THEN iffD2])

lemma chunked_after_snoc:
  "chunked_after kd (u @ [c]) ch \<longleftrightarrow> chunked_after kd u ch \<or> A_transfer_encoding \<in> set (val_acts kd u c)"
proof (cases kd)
  case K_Coding
  have "chunked_name = take 6 chunked_name @ [chunked_name ! 6]" by (simp add: chunked_name_def)
  then have "u @ [c] = chunked_name \<longleftrightarrow> u = take 6 chunked_name \<and> c = chunked_name ! 6" by (metis append1_eq_conv)
  moreover have "take 7 (u @ [c]) = chunked_name \<longleftrightarrow> take 7 u = chunked_name \<or> u @ [c] = chunked_name"
  proof (cases "7 \<le> length u")
    case True
    have "u @ [c] \<noteq> chunked_name"
    proof
      assume "u @ [c] = chunked_name"
      then have "length (u @ [c]) = 7" by (simp only: chunked_length)
      with True show False by simp
    qed
    with True show ?thesis by simp
  next
    case False
    then have "take 7 u \<noteq> chunked_name" using chunked_length by (metis length_take min.absorb1 nat_le_linear)
    with False show ?thesis by simp
  qed
  ultimately show ?thesis using K_Coding by auto
qed simp_all

lemma val_pos_ok: "u \<noteq> [] \<Longrightarrow> gpos_ok (val_pos kd u)"
  by (cases kd; cases u) (auto simp: gpos_ok_def chunked_length)

lemma val_pos_first:
  assumes "c \<noteq> cr" and "\<not> is_ows c"
  shows "gstep (ows_pos kd) c = (val_pos kd [c], val_acts kd [] c @ [A_header_value, A_inc_count])"
  using assms by (cases kd) (auto simp: chunked_name_def)

lemma val_pos_step:
  assumes "u \<noteq> []" and "c \<noteq> cr" and "c \<noteq> lf"
  shows "gstep (val_pos kd u) c = (val_pos kd (u @ [c]), val_acts kd u c @ [A_inc_count])"
proof (cases kd)
  case K_Length
  with assms show ?thesis by (simp add: expect_def)
next
  case K_Coding
  define A where "A \<longleftrightarrow> u = take (length u) chunked_name"
  have snoc: "length (u @ [c]) \<le> 6 \<and> u @ [c] = take (length (u @ [c])) chunked_name
      \<longleftrightarrow> length u < 6 \<and> A \<and> c = chunked_name ! length u"
    unfolding A_def by (auto simp: take_Suc_conv_app_nth chunked_length)
  have full: "u = take 6 chunked_name \<longleftrightarrow> length u = 6 \<and> A"
    unfolding A_def by (auto simp: chunked_length)
  have "val_pos kd (u @ [c]) = (if length u < 6 \<and> A \<and> c = chunked_name ! length u
      then G_Chunked (Suc (length u)) else G_Value)"
    unfolding K_Coding val_pos.simps snoc by simp
  moreover have "val_pos kd u = (if length u \<le> 6 \<and> A then G_Chunked (length u) else G_Value)"
    by (simp add: K_Coding A_def)
  moreover have "val_acts kd u c = (if length u = 6 \<and> A \<and> c = chunked_name ! 6 then [A_transfer_encoding] else [])"
    unfolding K_Coding val_acts.simps full by simp
  ultimately show ?thesis using assms(2,3) by (auto simp: expect_def)
next
  case K_Other
  with assms show ?thesis by (simp add: expect_def)
qed

lemma val_pos_end: "u \<noteq> [] \<Longrightarrow> gstep (val_pos kd u) cr = (G_Value_Lf, [A_emit_token])"
  by (cases kd) simp_all

text \<open>Reading the value, from its first byte.\<close>

lemma step_value:
  assumes "at bf sq cl ch g p x" and "gstep g c = (g', val_acts kd u c @ acts)" and "gpos_ok g'"
    and "int p < 2147483648"
    and "acts = [A_header_value, A_inc_count] \<and> ix = p \<and> n = 0 \<and> cl = length_after kd u cl0 \<and> ch = chunked_after kd u ch0
      \<or> acts = [A_inc_count] \<and> entered HSH_TOK_HEADER_VALUE ix n 4096 x \<and> n < 4096
         \<and> cl = length_after kd u cl0 \<and> ch = chunked_after kd u ch0"
  shows "\<exists>y. byte_step mv mx pe c x = Inr (Cont y)
    \<and> at bf sq (length_after kd (u @ [c]) cl0) (chunked_after kd (u @ [c]) ch0) g' (Suc p) y
    \<and> entered HSH_TOK_HEADER_VALUE ix (Suc n) 4096 y"
proof -
  have p: "i32 (int p) = int p" using assms(4) by (intro i32_id) auto
  have one: "i16 (0 + 1) = 1" "i16 1 = 1" by (simp_all add: i16_def)
  have fl: "chunk_flags ch OR HSH_P_FLAG_CHUNKED = chunk_flags True" for ch
    by (simp add: chunk_flags_def)
  have "val_acts kd u c = [] \<or> val_acts kd u c = [A_content_length_digit] \<or> val_acts kd u c = [A_transfer_encoding]"
    by (cases kd) auto
  then show ?thesis
    using assms(5) assms(1-3) gcode_pos [OF assms(3)] length_after_snoc [of kd u c cl0] chunked_after_snoc [of kd u c ch0]
    by (elim disjE conjE)
      (auto simp: at_def entered_def counting_def byte_step_gstep hsh_http_error_def act_inc_count_def
        act_content_length_digit_def act_transfer_encoding_def HSH_ENTER_TOKEN_def p one Let_def add_digit_def
        HTTP_FLAG_SET_def fl i16_Suc)
qed

lemma value_nil: "length_after kd [] cl = cl" "chunked_after kd [] ch = ch"
  by (cases kd; simp add: chunked_name_def)+

lemma run_value:
  assumes x: "at bf sq cl ch (ows_pos kd) p x" and v: "v \<noteq> []" "cr \<notin> set v" "lf \<notin> set v" "\<not> is_ows (hd v)"
    and lim: "length v \<le> 4096" "int p + int (length v) < 2147483648"
  shows "\<exists>y. run_bytes mv mx pe (v @ [cr]) x = Inr (Stop y)
    \<and> emitted bf sq (length_after kd v cl) (chunked_after kd v ch) G_Value_Lf (p + length v + 1)
        (token_at HSH_TOK_HEADER_VALUE p (length v)) y
    \<and> counting (length v) 4096 y"
proof -
  let ?P = "\<lambda>k y. k = 0 \<and> y = x \<or> 0 < k
    \<and> at bf sq (length_after kd (take k v) cl) (chunked_after kd (take k v) ch) (val_pos kd (take k v)) (p + k) y
    \<and> entered HSH_TOK_HEADER_VALUE p k 4096 y"
  have "\<exists>y. run_bytes mv mx pe v x = Inr (Cont y) \<and> ?P (length v) y"
  proof (rule run_segment [where P = ?P])
    fix k y assume k: "k < length v" and y: "?P k y"
    let ?u = "take k v" and ?c = "v ! k"
    have u: "take (Suc k) v = ?u @ [?c]" using k by (simp add: take_Suc_conv_app_nth)
    have c: "?c \<noteq> cr" "?c \<noteq> lf" using v k nth_mem [OF k] by metis+
    have ok: "gpos_ok (val_pos kd (?u @ [?c]))" by (rule val_pos_ok) simp
    have p: "int (p + k) < 2147483648" using lim k by linarith
    have "\<exists>z. byte_step mv mx pe ?c y = Inr (Cont z)
      \<and> at bf sq (length_after kd (?u @ [?c]) cl) (chunked_after kd (?u @ [?c]) ch) (val_pos kd (?u @ [?c])) (Suc (p + k)) z
      \<and> entered HSH_TOK_HEADER_VALUE p (Suc k) 4096 z"
    proof (cases "k = 0")
      case True
      with y have "y = x" by simp
      have "\<not> is_ows ?c" using v True by (simp add: hd_conv_nth)
      then have g: "gstep (ows_pos kd) ?c = (val_pos kd (?u @ [?c]), val_acts kd ?u ?c @ [A_header_value, A_inc_count])"
        using val_pos_first [OF c(1), of kd] True by simp
      have p0: "int p < 2147483648" using p by simp
      have "\<exists>z. byte_step mv mx pe ?c x = Inr (Cont z)
        \<and> at bf sq (length_after kd (?u @ [?c]) cl) (chunked_after kd (?u @ [?c]) ch) (val_pos kd (?u @ [?c])) (Suc p) z
        \<and> entered HSH_TOK_HEADER_VALUE p (Suc 0) 4096 z"
        by (rule step_value [OF x g ok p0]) (simp add: True value_nil)
      with True \<open>y = x\<close> show ?thesis by simp
    next
      case False
      with y have y: "at bf sq (length_after kd ?u cl) (chunked_after kd ?u ch) (val_pos kd ?u) (p + k) y"
        "entered HSH_TOK_HEADER_VALUE p k 4096 y" by simp_all
      have "?u \<noteq> []" using False k by auto
      note g = val_pos_step [OF this c, of kd]
      show ?thesis using y(2) k lim
        by (intro step_value [OF y(1) g ok p]) auto
    qed
    with u show "\<exists>z. byte_step mv mx pe ?c y = Inr (Cont z) \<and> ?P (Suc k) z" by auto
  qed simp
  with v(1) obtain y where y: "run_bytes mv mx pe v x = Inr (Cont y)"
    "at bf sq (length_after kd v cl) (chunked_after kd v ch) (val_pos kd v) (p + length v) y"
    "entered HSH_TOK_HEADER_VALUE p (length v) 4096 y" by auto
  have "\<exists>z. byte_step mv mx pe cr y = Inr (Stop z)
    \<and> emitted bf sq (length_after kd v cl) (chunked_after kd v ch) G_Value_Lf (Suc (p + length v))
        (token_at HSH_TOK_HEADER_VALUE p (p + length v - p)) z \<and> counting (length v) 4096 z"
    using lim by (intro step_emit [OF y(2) val_pos_end [OF v(1)] _ y(3)]) (auto simp: gpos_ok_def)
  with y(1) show ?thesis by (auto simp: run_bytes_append)
qed

end
