(* ===== verification/Parser_Roundtrip.thy ===== *)
theory Parser_Roundtrip
  imports Parser_Tokens
begin

text \<open>
  Parsing a rendered request head. Each call of \<open>hsh_parser_exec\<close> is a run over the bytes
  up to the next token; the calls are chained along the head, and the slices of the tokens are
  the parts it was rendered from.
\<close>

section \<open>From the colon to the end of the line\<close>

lemma ows_not_end: "is_ows c \<Longrightarrow> c \<noteq> cr \<and> c \<noteq> lf"
  by (auto simp: is_ows_def cr_def lf_def tab_def)

lemma run_ows:
  assumes x: "at bf sq cl ch (after_colon kd) p x" and ws: "ws \<noteq> []" "list_all is_ows ws"
    and lim: "int p + int (length ws) < 2147483648"
  shows "\<exists>y. run_bytes mv mx pe ws x = Inr (Cont y) \<and> at bf sq cl ch (ows_pos kd) (p + length ws) y"
proof -
  let ?P = "\<lambda>k y. at bf sq cl ch (if k = 0 then after_colon kd else ows_pos kd) (p + k) y"
  have ok: "gpos_ok (ows_pos kd)" by (cases kd) (simp_all add: gpos_ok_def)
  have "\<exists>y. run_bytes mv mx pe ws x = Inr (Cont y) \<and> ?P (length ws) y"
  proof (rule run_segment [where P = ?P])
    fix k y assume k: "k < length ws" and y: "?P k y"
    have c: "is_ows (ws ! k)" using ws k by (simp add: list_all_length)
    show "\<exists>z. byte_step mv mx pe (ws ! k) y = Inr (Cont z) \<and> ?P (Suc k) z"
    proof (cases "k = 0")
      case True
      have "gstep (after_colon kd) (ws ! k) = (ows_pos kd, [])"
        using c by (cases kd) (simp_all add: expect_def)
      from step_silent [OF _ this ok, of bf sq cl ch p y mv mx pe] y True show ?thesis by auto
    next
      case False
      have "gstep (ows_pos kd) (ws ! k) = (ows_pos kd, [A_header_value, A_inc_count])"
        using c ows_not_end [OF c] by (cases kd) simp_all
      from step_enter [OF _ this ok, of bf sq cl ch "p + k" y HSH_TOK_HEADER_VALUE 4096 1 mv mx pe] y False lim k
      show ?thesis by auto
    qed
  qed (use x in simp)
  with ws(1) show ?thesis by simp
qed

lemma step_empty_value:
  assumes "at bf sq cl ch (ows_pos kd) p x" and "int p < 2147483648"
  shows "\<exists>y. byte_step mv mx pe cr x = Inr (Stop y)
    \<and> emitted bf sq cl ch G_Empty_Lf (Suc p) (token_at HSH_TOK_HEADER_VALUE p 0) y \<and> counting 1 4096 y"
proof -
  have p: "i32 (int p) = int p" using assms(2) by (intro i32_id) auto
  have one: "i16 (0 + 1) = 1" "i16 1 = 1" "i32 0 = 0" by (simp_all add: i16_def i32_def)
  have "gstep (ows_pos kd) cr = (G_Empty_Lf, [A_header_value, A_inc_count, A_emit_token])"
    by (cases kd) simp_all
  with assms(1) show ?thesis
    by (auto simp: at_def byte_step_gstep emitted_def counting_def gpos_ok_def HSH_ENTER_TOKEN_def Let_def p one
        act_inc_count_def act_emit_token_def fbreak_def set_ready_def token_at_def flag_ops)
qed

lemma run_field_value:
  assumes x: "at bf sq cl ch (after_colon kd) p x" and ws: "ws \<noteq> []" "list_all is_ows ws"
    and v: "cr \<notin> set v" "lf \<notin> set v" "v \<noteq> [] \<Longrightarrow> \<not> is_ows (hd v)" "length v \<le> 4096"
    and lim: "int p + int (length ws) + int (length v) < 2147483648"
  shows "\<exists>y. run_bytes mv mx pe (ws @ v @ [cr]) x = Inr (Stop y)
    \<and> emitted bf sq (length_after kd v cl) (chunked_after kd v ch) (if v = [] then G_Empty_Lf else G_Value_Lf)
        (p + length ws + length v + 1) (token_at HSH_TOK_HEADER_VALUE (p + length ws) (length v)) y
    \<and> counting (max 1 (length v)) 4096 y"
proof -
  obtain y where y: "run_bytes mv mx pe ws x = Inr (Cont y)" "at bf sq cl ch (ows_pos kd) (p + length ws) y"
    using run_ows [OF x ws, of mv mx pe] lim by auto
  show ?thesis
  proof (cases "v = []")
    case True
    with y lim step_empty_value [OF y(2), of mv mx pe] show ?thesis
      by (auto simp: run_bytes_append value_nil)
  next
    case False
    with y lim run_value [OF y(2) False v(1,2) v(3) v(4), of mv mx pe] show ?thesis
      by (auto simp: run_bytes_append max_def Suc_le_eq)
  qed
qed

section \<open>One call\<close>

definition between :: "hsh_buffer_s \<Rightarrow> int \<Rightarrow> bool \<Rightarrow> gpos \<Rightarrow> hsh_parser_s \<Rightarrow> bool" where
  "between bf cl ch g ps \<longleftrightarrow> gpos_ok g \<and> ps_state ps = gcode g \<and> ps_content_length ps = cl
     \<and> ps_flags ps = chunk_flags ch \<and> ps_sequence_id ps \<noteq> bf_sequence_id bf"

definition limits :: "nat \<Rightarrow> nat \<Rightarrow> hsh_parser_s \<Rightarrow> bool" where
  "limits n M ps \<longleftrightarrow> ps_limit_count ps = int n \<and> ps_limit_max ps = int M"

text \<open>The scanner when the call begins.\<close>

definition entry :: "hsh_parser_s \<Rightarrow> hsh_buffer_s \<Rightarrow> xst" where
  "entry ps bf = \<lparr>x_cs = ps_state ps, x_p = bf_index bf, x_ps = ps, x_bf = bf\<rparr>"

lemma entry_at:
  assumes "between bf cl ch g ps"
  shows "at (bf\<lparr>bf_index := int i\<rparr>) (ps_sequence_id ps) cl ch g i (entry ps (bf\<lparr>bf_index := int i\<rparr>))"
    and "limits n M ps \<Longrightarrow> counting n M (entry ps (bf\<lparr>bf_index := int i\<rparr>))"
  using assms by (simp_all add: between_def at_def entry_def limits_def counting_def)

lemma chunk_flags_simps:
  "\<not> HTTP_FLAG_CHECK (chunk_flags ch) HSH_P_FLAG_DONE"
  "HTTP_FLAG_CHECK (chunk_flags ch OR HSH_P_FLAG_TOKEN_READY) HSH_P_FLAG_TOKEN_READY"
  "HTTP_FLAG_CLEAR (chunk_flags ch OR HSH_P_FLAG_TOKEN_READY) HSH_P_FLAG_TOKEN_READY = chunk_flags ch"
  "HTTP_FLAG_CHECK (chunk_flags ch) HSH_P_FLAG_CHUNKED = ch"
  by (simp_all add: chunk_flags_def flag_ops parser_flags)

lemma scan_stops:
  assumes "holds (bf_buf (x_bf x)) (pre @ seg @ post)" and "x_p x = int (length pre)"
    and "pe = int (length (pre @ seg @ post))" and "run_bytes mv mx pe seg x = Inr (Stop y)"
  shows "scan mv mx pe x = Inr y"
proof -
  obtain c s where seg: "seg = c # s" using assms(4) by (cases seg) auto
  have "scan mv mx pe x = (case run_bytes mv mx pe (take (nat (pe - x_p x)) (drop (nat (x_p x)) (pre @ seg @ post))) x of
      Inl e \<Rightarrow> Inl e | Inr r \<Rightarrow> Inr (ctl_state r))"
    using assms by (intro scan_run_bytes) (auto simp: seg)
  also have "take (nat (pe - x_p x)) (drop (nat (x_p x)) (pre @ seg @ post)) = seg @ post"
    using assms(2,3) by simp
  finally show ?thesis using assms(4) by (simp add: run_bytes_append)
qed

lemma exec_token:
  assumes b: "between bf cl ch g ps"
    and data: "holds (bf_buf bf) (pre @ seg @ post)" "bf_length bf = int (length (pre @ seg @ post))"
      "length (pre @ seg @ post) < 2147483648"
    and run: "run_bytes mv mx (bf_length bf) seg (entry ps (bf\<lparr>bf_index := int (length pre)\<rparr>)) = Inr (Stop y)"
    and em: "emitted (bf\<lparr>bf_index := int (length pre)\<rparr>) (ps_sequence_id ps) cl' ch' g' j t y" "j < 2147483648"
  shows "\<exists>ps'. hsh_parser_exec mv ps (bf\<lparr>bf_index := int (length pre)\<rparr>) mx
      = Inr (t, ps', bf\<lparr>bf_index := int j\<rparr>)
    \<and> between bf cl' ch' g' ps' \<and> ps_sequence_id ps' = ps_sequence_id ps
    \<and> (\<forall>n M. limits n M ps' \<longleftrightarrow> counting n M y)"
proof -
  let ?bf = "bf\<lparr>bf_index := int (length pre)\<rparr>"
  obtain c s where seg: "seg = c # s" using run by (cases seg) auto
  have "gcode g \<noteq> 0" using b gcode_pos [of g] by (simp add: between_def)
  moreover have "scan mv mx (bf_length bf) (entry ps ?bf) = Inr y"
    using data run by (intro scan_stops) (auto simp: entry_def)
  ultimately have sc: "scan_exec mv mx (bf_length bf) (entry ps ?bf) = Inr y"
    using data b by (simp add: scan_exec_def entry_def between_def hsh_http_error_def seg)
  have i: "i32 (x_p y) = int j"
    using em by (subst i32_id) (auto simp: emitted_def)
  show ?thesis using b sc em i
    by (auto simp: hsh_parser_exec_def entry_def between_def chunk_flags_simps emitted_def limits_def counting_def Let_def)
qed

text \<open>Several calls, collecting the tokens.\<close>

primrec parse_tokens ::
    "nat \<Rightarrow> int \<Rightarrow> int \<Rightarrow> hsh_parser_s \<Rightarrow> hsh_buffer_s \<Rightarrow> (hsh_token_s list \<times> hsh_parser_s \<times> hsh_buffer_s) result"
  where
  "parse_tokens 0 mv mx ps bf = Inr ([], ps, bf)"
| "parse_tokens (Suc n) mv mx ps bf =
     bindr (hsh_parser_exec mv ps bf mx) (\<lambda>(t, ps, bf).
       bindr (parse_tokens n mv mx ps bf) (\<lambda>(ts, ps, bf). Inr (t # ts, ps, bf)))"

lemma parse_tokens_append:
  assumes "parse_tokens m mv mx ps bf = Inr (ts, ps', bf')" and "parse_tokens n mv mx ps' bf' = Inr (us, ps'', bf'')"
  shows "parse_tokens (m + n) mv mx ps bf = Inr (ts @ us, ps'', bf'')"
  using assms
proof (induction m arbitrary: ps bf ts)
  case (Suc m)
  then show ?case by (fastforce simp: bindr_Inr_iff)
qed simp

section \<open>The calls along a head\<close>

definition received :: "hsh_buffer_s \<Rightarrow> string \<Rightarrow> bool" where
  "received bf data \<longleftrightarrow> holds (bf_buf bf) data \<and> bf_length bf = int (length data) \<and> length data < 2147483648"

text \<open>A call that consumes \<open>seg\<close> behind \<open>pre\<close> and returns the token \<open>t\<close>.\<close>

definition call_gives ::
    "int \<Rightarrow> hsh_buffer_s \<Rightarrow> hsh_parser_s \<Rightarrow> nat \<Rightarrow> nat \<Rightarrow> hsh_token_s \<Rightarrow> int \<Rightarrow> bool \<Rightarrow> gpos \<Rightarrow> hsh_parser_s \<Rightarrow> bool"
  where
  "call_gives mx bf ps i j t cl ch g ps' \<longleftrightarrow>
     hsh_parser_exec 0 ps (bf\<lparr>bf_index := int i\<rparr>) mx = Inr (t, ps', bf\<lparr>bf_index := int j\<rparr>)
     \<and> between bf cl ch g ps'"

lemma exec_call:
  assumes "between bf cl ch g ps" and "received bf (pre @ seg @ post)" and "j \<le> length (pre @ seg @ post)"
    and "\<And>x. at (bf\<lparr>bf_index := int (length pre)\<rparr>) (ps_sequence_id ps) cl ch g (length pre) x \<Longrightarrow>
      (\<And>n M. limits n M ps \<Longrightarrow> counting n M x) \<Longrightarrow>
      \<exists>y. run_bytes 0 mx (bf_length bf) seg x = Inr (Stop y)
        \<and> emitted (bf\<lparr>bf_index := int (length pre)\<rparr>) (ps_sequence_id ps) cl' ch' g' j t y
        \<and> counting n' M' y"
  shows "\<exists>ps'. call_gives mx bf ps (length pre) j t cl' ch' g' ps' \<and> limits n' M' ps'"
proof -
  from assms(4) [OF entry_at(1) [OF assms(1)] entry_at(2) [OF assms(1)]] obtain y where
    y: "run_bytes 0 mx (bf_length bf) seg (entry ps (bf\<lparr>bf_index := int (length pre)\<rparr>)) = Inr (Stop y)"
    "emitted (bf\<lparr>bf_index := int (length pre)\<rparr>) (ps_sequence_id ps) cl' ch' g' j t y" "counting n' M' y"
    by blast
  have r: "holds (bf_buf bf) (pre @ seg @ post)" "bf_length bf = int (length (pre @ seg @ post))"
    "length (pre @ seg @ post) < 2147483648" "j < 2147483648"
    using assms(2,3) by (simp_all add: received_def)
  from exec_token [OF assms(1) r(1-3) y(1,2) r(4)] y(3) show ?thesis
    unfolding call_gives_def by blast
qed

lemma expect_True: "b \<Longrightarrow> expect b g as = (g, as)"
  by (simp add: expect_def)

lemma alpha_not_space: "is_alpha c \<Longrightarrow> c \<noteq> CHR '' ''"
  by (auto simp: is_alpha_def c_int_Char)

lemma call_method:
  assumes b: "between bf cl ch G_Start ps" and r: "received bf (pre @ m @ CHR '' '' # post)"
    and m: "m \<noteq> []" "list_all is_alpha m" "length m \<le> 32"
  shows "\<exists>ps'. call_gives mx bf ps (length pre) (length pre + length m + 1)
    (token_at HSH_TOK_METHOD (length pre) (length m)) cl ch G_Target_Start ps'"
proof -
  obtain c s where ms: "m = c # s" using m(1) by (cases m) auto
  have len: "length pre + length m < 2147483647" using r by (simp add: received_def)
  have "\<exists>ps'. call_gives mx bf ps (length pre) (length (pre @ m @ '' '')) (token_at HSH_TOK_METHOD (length pre) (length m))
      cl ch G_Target_Start ps' \<and> limits (length m) 32 ps'"
  proof (rule exec_call [OF b])
    show "received bf (pre @ (m @ '' '') @ post)" using r by simp
    show "length (pre @ m @ '' '') \<le> length (pre @ (m @ '' '') @ post)" by simp
    fix x assume x: "at (bf\<lparr>bf_index := int (length pre)\<rparr>) (ps_sequence_id ps) cl ch G_Start (length pre) x"
    have "\<exists>y. run_bytes 0 mx (bf_length bf) (c # s @ [CHR '' '']) x = Inr (Stop y)
        \<and> emitted (bf\<lparr>bf_index := int (length pre)\<rparr>) (ps_sequence_id ps) cl ch G_Target_Start (length pre + length s + 2)
            (token_at HSH_TOK_METHOD (length pre) (Suc (length s))) y \<and> counting (Suc (length s)) 32 y"
      using m ms len alpha_not_space
      by (intro run_token [OF x, where g = "\<lambda>_. G_Method" and as = "[A_method, A_inc_count]"])
        (auto simp: expect_def gpos_ok_def list_all_length)
    then show "\<exists>y. run_bytes 0 mx (bf_length bf) (m @ '' '') x = Inr (Stop y)
        \<and> emitted (bf\<lparr>bf_index := int (length pre)\<rparr>) (ps_sequence_id ps) cl ch G_Target_Start (length (pre @ m @ '' ''))
            (token_at HSH_TOK_METHOD (length pre) (length m)) y \<and> counting (length m) 32 y"
      by (simp add: ms)
  qed
  then show ?thesis by auto
qed

lemma call_target:
  assumes b: "between bf cl ch G_Target_Start ps" and r: "received bf (pre @ t @ CHR '' '' # post)"
    and t: "t \<noteq> []" "CHR '' '' \<notin> set t" "length t \<le> 1024"
  shows "\<exists>ps'. call_gives mx bf ps (length pre) (length pre + length t + 1)
    (token_at HSH_TOK_TARGET (length pre) (length t)) cl ch (G_Version 0) ps'"
proof -
  obtain c s where ts: "t = c # s" using t(1) by (cases t) auto
  have len: "length pre + length t < 2147483647" using r by (simp add: received_def)
  have "\<exists>ps'. call_gives mx bf ps (length pre) (length (pre @ t @ '' '')) (token_at HSH_TOK_TARGET (length pre) (length t))
      cl ch (G_Version 0) ps' \<and> limits (length t) 1024 ps'"
  proof (rule exec_call [OF b])
    show "received bf (pre @ (t @ '' '') @ post)" using r by simp
    show "length (pre @ t @ '' '') \<le> length (pre @ (t @ '' '') @ post)" by simp
    fix x assume x: "at (bf\<lparr>bf_index := int (length pre)\<rparr>) (ps_sequence_id ps) cl ch G_Target_Start (length pre) x"
    have "\<exists>y. run_bytes 0 mx (bf_length bf) (c # s @ [CHR '' '']) x = Inr (Stop y)
        \<and> emitted (bf\<lparr>bf_index := int (length pre)\<rparr>) (ps_sequence_id ps) cl ch (G_Version 0) (length pre + length s + 2)
            (token_at HSH_TOK_TARGET (length pre) (Suc (length s))) y \<and> counting (Suc (length s)) 1024 y"
      using t ts len
      by (intro run_token [OF x, where g = "\<lambda>_. G_Target" and as = "[A_target, A_inc_count]"])
        (auto simp: expect_def gpos_ok_def dest: nth_mem)
    then show "\<exists>y. run_bytes 0 mx (bf_length bf) (t @ '' '') x = Inr (Stop y)
        \<and> emitted (bf\<lparr>bf_index := int (length pre)\<rparr>) (ps_sequence_id ps) cl ch (G_Version 0) (length (pre @ t @ '' ''))
            (token_at HSH_TOK_TARGET (length pre) (length t)) y \<and> counting (length t) 1024 y"
      by (simp add: ts)
  qed
  then show ?thesis by auto
qed

lemma call_version:
  assumes b: "between bf cl ch (G_Version 0) ps" and r: "received bf (pre @ version_name @ d # cr # post)"
    and d: "d = CHR ''0'' \<or> d = CHR ''1''"
  shows "\<exists>ps'. call_gives mx bf ps (length pre) (length pre + 9)
    (token_at HSH_TOK_VERSION (length pre) 8) cl ch G_Version_Lf ps'"
proof -
  let ?p = "length pre" and ?bf = "bf\<lparr>bf_index := int (length pre)\<rparr>" and ?sq = "ps_sequence_id ps"
  have v: "version_name = CHR ''H'' # ''TTP/1.''" by (simp add: version_name_def)
  have len: "int ?p < 2147483639" using r by (simp add: received_def v)
  have "\<exists>ps'. call_gives mx bf ps ?p (length (pre @ version_name @ [d, cr])) (token_at HSH_TOK_VERSION ?p 8)
      cl ch G_Version_Lf ps' \<and> limits 0 16 ps'"
  proof (rule exec_call [OF b])
    show "received bf (pre @ (version_name @ [d, cr]) @ post)" using r by simp
    show "length (pre @ version_name @ [d, cr]) \<le> length (pre @ (version_name @ [d, cr]) @ post)" by simp
    fix x assume x: "at ?bf ?sq cl ch (G_Version 0) ?p x"
    have "\<exists>y. byte_step 0 mx (bf_length bf) (CHR ''H'') x = Inr (Cont y)
        \<and> at ?bf ?sq cl ch (G_Version 1) (Suc ?p) y \<and> entered HSH_TOK_VERSION ?p 0 16 y"
      using len by (intro step_enter [OF x, where as = "[A_version]"]) (auto simp: expect_def v gpos_ok_def)
    then obtain y where y: "byte_step 0 mx (bf_length bf) (CHR ''H'') x = Inr (Cont y)"
      "at ?bf ?sq cl ch (G_Version 1) (Suc ?p) y" "entered HSH_TOK_VERSION ?p 0 16 y" by blast
    let ?g = "\<lambda>k. if k < 6 then G_Version (Suc k) else if k = 6 then G_Version_Digit else G_Version_Cr"
    let ?P = "\<lambda>k z. at ?bf ?sq cl ch (?g k) (Suc ?p + k) z \<and> entered HSH_TOK_VERSION ?p 0 16 z"
    have "\<exists>z. run_bytes 0 mx (bf_length bf) (''TTP/1.'' @ [d]) y = Inr (Cont z) \<and> ?P (length (''TTP/1.'' @ [d])) z"
    proof (rule run_segment [where P = ?P])
      fix k z assume k: "k < length (''TTP/1.'' @ [d])" and z: "?P k z"
      then have "k \<in> {0, 1, 2, 3, 4, 5, 6}" by auto
      then have "gstep (?g k) ((''TTP/1.'' @ [d]) ! k) = (?g (Suc k), [])"
        using d by (elim insertE) (simp_all add: expect_def v)
      moreover have "gpos_ok (?g (Suc k))" using k by (simp add: gpos_ok_def)
      ultimately obtain u where "byte_step 0 mx (bf_length bf) ((''TTP/1.'' @ [d]) ! k) z = Inr (Cont u)"
        "at ?bf ?sq cl ch (?g (Suc k)) (Suc (Suc ?p + k)) u" "x_ps u = x_ps z"
        using step_silent z by meson
      with z show "\<exists>u. byte_step 0 mx (bf_length bf) ((''TTP/1.'' @ [d]) ! k) z = Inr (Cont u) \<and> ?P (Suc k) u"
        by (auto simp: entered_def counting_def)
    qed (use y in simp)
    moreover have "length (''TTP/1.'' @ [d]) = 7" "Suc ?p + 7 = ?p + 8" by simp_all
    ultimately have "\<exists>z. run_bytes 0 mx (bf_length bf) (''TTP/1.'' @ [d]) y = Inr (Cont z)
        \<and> at ?bf ?sq cl ch (?g 7) (?p + 8) z \<and> entered HSH_TOK_VERSION ?p 0 16 z" by (simp only:)
    moreover have "?g 7 = G_Version_Cr" by simp
    ultimately obtain z where z: "run_bytes 0 mx (bf_length bf) (''TTP/1.'' @ [d]) y = Inr (Cont z)"
      "at ?bf ?sq cl ch G_Version_Cr (?p + 8) z" "entered HSH_TOK_VERSION ?p 0 16 z" by (simp only:) blast
    have "\<exists>u. byte_step 0 mx (bf_length bf) cr z = Inr (Stop u)
        \<and> emitted ?bf ?sq cl ch G_Version_Lf (Suc (?p + 8)) (token_at HSH_TOK_VERSION ?p (?p + 8 - ?p)) u \<and> counting 0 16 u"
      using len by (intro step_emit [OF z(2) _ _ z(3)]) (auto simp: expect_def gpos_ok_def)
    then obtain u where u: "byte_step 0 mx (bf_length bf) cr z = Inr (Stop u)"
      "emitted ?bf ?sq cl ch G_Version_Lf (Suc (?p + 8)) (token_at HSH_TOK_VERSION ?p 8) u" "counting 0 16 u" by auto
    have "run_bytes 0 mx (bf_length bf) ((''TTP/1.'' @ [d]) @ [cr]) y = Inr (Stop u)"
      using z(1) u(1) by (simp add: run_bytes_append del: append_assoc append.simps)
    with y(1) have "run_bytes 0 mx (bf_length bf) (version_name @ [d, cr]) x = Inr (Stop u)"
      by (simp add: v)
    moreover have "length (pre @ version_name @ [d, cr]) = Suc (?p + 8)" by (simp add: v)
    ultimately show "\<exists>y. run_bytes 0 mx (bf_length bf) (version_name @ [d, cr]) x = Inr (Stop y)
        \<and> emitted ?bf ?sq cl ch G_Version_Lf (length (pre @ version_name @ [d, cr])) (token_at HSH_TOK_VERSION ?p 8) y
        \<and> counting 0 16 y"
      using u(2,3) by (simp only:) blast
  qed
  moreover have "length (pre @ version_name @ [d, cr]) = ?p + 9" by (simp add: v)
  ultimately show ?thesis by (simp only:) blast
qed

text \<open>
  The positions at which a line ends; the line feed belongs to the next call, which counts it
  behind a value.
\<close>

definition line_end :: "gpos \<Rightarrow> hsh_parser_s \<Rightarrow> bool" where
  "line_end g ps \<longleftrightarrow> g = G_Version_Lf
     \<or> (g = G_Value_Lf \<or> g = G_Empty_Lf) \<and> (\<exists>n<4096. limits n 4096 ps)"

definition line_start :: "gpos \<Rightarrow> gpos" where
  "line_start g = (if g = G_Version_Lf then G_Headers else G_Next)"

lemma step_line_end:
  assumes "at bf sq cl ch g p x" and "line_end g ps" and "\<And>n M. limits n M ps \<Longrightarrow> counting n M x"
  shows "\<exists>y. byte_step mv mx pe lf x = Inr (Cont y) \<and> at bf sq cl ch (line_start g) (Suc p) y"
  using assms(2) unfolding line_end_def
proof (elim disjE conjE exE)
  assume "g = G_Version_Lf"
  with step_silent [OF assms(1), of lf G_Headers mv mx pe] show ?thesis
    by (auto simp: expect_def gpos_ok_def line_start_def)
next
  fix n assume g: "g = G_Value_Lf" "limits n 4096 ps" "n < 4096"
  with step_inc [OF assms(1) _ _ assms(3) [OF g(2)], of lf G_Next mv mx pe] show ?thesis
    by (auto simp: expect_def gpos_ok_def line_start_def)
next
  fix n assume g: "g = G_Empty_Lf" "limits n 4096 ps" "n < 4096"
  with step_inc [OF assms(1) _ _ assms(3) [OF g(2)], of lf G_Next mv mx pe] show ?thesis
    by (auto simp: expect_def gpos_ok_def line_start_def)
qed

lemma call_key:
  assumes b: "between bf cl ch g ps" and r: "received bf (pre @ lf # k @ CHR '':'' # post)" and e: "line_end g ps"
    and k: "k \<noteq> []" "list_all (\<lambda>c. \<not> token_excluded c) k" "hd k \<noteq> cr" "length k \<le> 256"
  shows "\<exists>ps'. call_gives mx bf ps (length pre) (length pre + length k + 2)
    (token_at HSH_TOK_HEADER_KEY (length pre + 1) (length k)) cl ch (after_colon (key_kind k)) ps'"
proof -
  let ?p = "length pre" and ?bf = "bf\<lparr>bf_index := int (length pre)\<rparr>" and ?sq = "ps_sequence_id ps"
  obtain c s where ks: "k = c # s" using k(1) by (cases k) auto
  have len: "int ?p + int (length k) + 2 < 2147483648" using r by (simp add: received_def)
  have "\<exists>ps'. call_gives mx bf ps ?p (length (pre @ lf # k @ '':'')) (token_at HSH_TOK_HEADER_KEY (?p + 1) (length k))
      cl ch (after_colon (key_kind k)) ps' \<and> limits (length k) 256 ps'"
  proof (rule exec_call [OF b])
    show "received bf (pre @ (lf # k @ '':'') @ post)" using r by simp
    show "length (pre @ lf # k @ '':'') \<le> length (pre @ (lf # k @ '':'') @ post)" by simp
    fix x assume x: "at ?bf ?sq cl ch g ?p x" and lm: "\<And>n M. limits n M ps \<Longrightarrow> counting n M x"
    obtain y where y: "byte_step 0 mx (bf_length bf) lf x = Inr (Cont y)" "at ?bf ?sq cl ch (line_start g) (Suc ?p) y"
      using step_line_end [OF x e lm] by blast
    let ?as = "if g = G_Version_Lf then [A_reset_count, A_header_key, A_inc_count] else [A_header_key, A_reset_count, A_inc_count]"
    have "gstep (line_start g) c = (key_pos [c], ?as)"
      using key_pos_first [of c] k ks by (auto simp: line_start_def)
    moreover have "gstep (key_pos (c # take j s)) (s ! j) = (key_pos (c # take (Suc j) s), [A_inc_count])" if "j < length s" for j
    proof -
      have "\<not> token_excluded (s ! j)" using k(2) ks that by (simp add: list_all_iff)
      with key_pos_step [of "c # take j s" "s ! j"] that show ?thesis by (simp add: take_Suc_conv_app_nth)
    qed
    moreover have "gstep (key_pos (c # take (length s) s)) (CHR '':'') = (after_colon (key_kind k), [A_emit_token])"
      using key_pos_colon [of k] by (simp add: ks)
    moreover have "gpos_ok (after_colon (key_kind k))" by (cases "key_kind k") (simp_all add: gpos_ok_def)
    ultimately have "\<exists>z. run_bytes 0 mx (bf_length bf) (c # s @ [CHR '':'']) y = Inr (Stop z)
        \<and> emitted ?bf ?sq cl ch (after_colon (key_kind k)) (Suc ?p + length s + 2)
            (token_at HSH_TOK_HEADER_KEY (Suc ?p) (Suc (length s))) z \<and> counting (Suc (length s)) 256 z"
      using k(4) ks len key_pos_ok
      by (intro run_token [OF y(2), where g = "\<lambda>j. key_pos (c # take j s)" and as = ?as]) auto
    with y(1) show "\<exists>y. run_bytes 0 mx (bf_length bf) (lf # k @ '':'') x = Inr (Stop y)
        \<and> emitted ?bf ?sq cl ch (after_colon (key_kind k)) (length (pre @ lf # k @ '':''))
            (token_at HSH_TOK_HEADER_KEY (?p + 1) (length k)) y \<and> counting (length k) 256 y"
      by (simp add: ks)
  qed
  then show ?thesis by auto
qed

lemma call_value:
  assumes b: "between bf cl ch (after_colon kd) ps" and r: "received bf (pre @ ws @ v @ cr # post)"
    and ws: "ws \<noteq> []" "list_all is_ows ws"
    and v: "cr \<notin> set v" "lf \<notin> set v" "v \<noteq> [] \<Longrightarrow> \<not> is_ows (hd v)" "length v \<le> 4095"
  shows "\<exists>g ps'. call_gives mx bf ps (length pre) (length pre + length ws + length v + 1)
      (token_at HSH_TOK_HEADER_VALUE (length pre + length ws) (length v))
      (length_after kd v cl) (chunked_after kd v ch) g ps'
    \<and> (g = G_Value_Lf \<or> g = G_Empty_Lf) \<and> line_end g ps'"
proof -
  let ?g = "if v = [] then G_Empty_Lf else G_Value_Lf"
  have "\<exists>ps'. call_gives mx bf ps (length pre) (length (pre @ ws @ v @ [cr]))
      (token_at HSH_TOK_HEADER_VALUE (length pre + length ws) (length v))
      (length_after kd v cl) (chunked_after kd v ch) ?g ps' \<and> limits (max 1 (length v)) 4096 ps'"
  proof (rule exec_call [OF b])
    show "received bf (pre @ (ws @ v @ [cr]) @ post)" using r by simp
    show "length (pre @ ws @ v @ [cr]) \<le> length (pre @ (ws @ v @ [cr]) @ post)" by simp
    have len: "int (length pre) + int (length ws) + int (length v) < 2147483648" using r by (simp add: received_def)
    fix x assume x: "at (bf\<lparr>bf_index := int (length pre)\<rparr>) (ps_sequence_id ps) cl ch (after_colon kd) (length pre) x"
    have v4: "length v \<le> 4096" using v(4) by simp
    show "\<exists>y. run_bytes 0 mx (bf_length bf) (ws @ v @ [cr]) x = Inr (Stop y)
        \<and> emitted (bf\<lparr>bf_index := int (length pre)\<rparr>) (ps_sequence_id ps) (length_after kd v cl) (chunked_after kd v ch)
            ?g (length (pre @ ws @ v @ [cr])) (token_at HSH_TOK_HEADER_VALUE (length pre + length ws) (length v)) y
        \<and> counting (max 1 (length v)) 4096 y"
      using run_field_value [OF x ws v(1,2) v(3) v4 len, of 0 mx "bf_length bf"] by (simp add: algebra_simps)
  qed
  then obtain ps' where "call_gives mx bf ps (length pre) (length pre + length ws + length v + 1)
      (token_at HSH_TOK_HEADER_VALUE (length pre + length ws) (length v))
      (length_after kd v cl) (chunked_after kd v ch) ?g ps'" and "limits (max 1 (length v)) 4096 ps'"
    by (auto simp: algebra_simps)
  moreover have "max 1 (length v) < 4096" using v(4) by simp
  moreover have "?g = G_Value_Lf \<or> ?g = G_Empty_Lf" by simp
  ultimately show ?thesis unfolding line_end_def by blast
qed

section \<open>The end of the headers\<close>

text \<open>How the body will be read, decided from its announced length and the room that is left.\<close>

definition head_flags :: "int \<Rightarrow> int \<Rightarrow> int \<Rightarrow> bool \<Rightarrow> 8 word" where
  "head_flags mx after cl ch =
     (if ch then HSH_TOK_FLAG_STREAMED_BODY else if cl = 0 then HSH_TOK_FLAG_NO_BODY
      else if mx - after < cl then HSH_TOK_FLAG_STREAMED_BODY else 0)"

definition body_pos :: "int \<Rightarrow> int \<Rightarrow> int \<Rightarrow> bool \<Rightarrow> gpos" where
  "body_pos mx after cl ch =
     (if ch then G_Ck_Size_Start else if cl = 0 then G_Done else if mx - after < cl then G_Large else G_Small)"

definition head_buffer :: "int \<Rightarrow> int \<Rightarrow> int \<Rightarrow> bool \<Rightarrow> hsh_buffer_s \<Rightarrow> hsh_buffer_s" where
  "head_buffer mx after cl ch bf =
     (let bf = bf\<lparr>bf_after_headers_index := after, bf_index := after\<rparr>
      in if \<not> ch \<and> cl \<noteq> 0 \<and> cl \<le> mx - after \<and> bf_capacity bf < cl + after
         then bf\<lparr>bf_buf := realloc_block (bf_buf bf) (cl + after), bf_capacity := cl + after\<rparr> else bf)"

definition headers_done :: "8 word \<Rightarrow> hsh_token_s" where
  "headers_done fl = \<lparr>tk_type = HSH_TOK_HEADERS_DONE, tk_flags = fl, tk_len = 0, tk_index = 0\<rparr>"

lemma step_done:
  assumes x: "at bf sq cl ch G_Blank p x" and c: "counting n M x" "n < M" "M < 32767"
    and p: "int p < 2147483640" and mx: "0 \<le> mx" "mx < 2147483648" and cl: "0 \<le> cl" "cl < 9223372036854775808"
  shows "\<exists>y. byte_step 0 mx pe lf x = Inr (Stop y) \<and> x_p y = int (Suc p)
    \<and> (x_bf y)\<lparr>bf_index := int (Suc p)\<rparr> = head_buffer mx (int (Suc p)) cl ch bf
    \<and> x_cs y = gcode (body_pos mx (int (Suc p)) cl ch)
    \<and> ps_token (x_ps y) = headers_done (head_flags mx (int (Suc p)) cl ch)
    \<and> ps_content_length (x_ps y) = cl \<and> ps_content_remaining (x_ps y) = cl
    \<and> ps_sequence_id (x_ps y) = sq \<and> ps_flags (x_ps y) = chunk_flags ch OR HSH_P_FLAG_TOKEN_READY"
proof -
  have a: "i32 (1 + int p) = 1 + int p" "i32 (mx - (1 + int p)) = mx - (1 + int p)"
    using p mx by (simp_all add: i32_id)
  have r: "i64 (z + (1 + int p)) = z + (1 + int p)" "i32 (z + (1 + int p)) = z + (1 + int p)"
    if "0 \<le> z" "\<not> mx - (1 + int p) < z" for z
    using that p mx by (simp_all add: i64_id i32_id)
  have f: "HTTP_FLAG_CHECK (chunk_flags ch OR HSH_P_FLAG_TOKEN_READY) HSH_P_FLAG_CHUNKED = ch"
    by (simp add: chunk_flags_def flag_ops parser_flags)
  have g: "gstep G_Blank lf = (G_Done, [A_inc_count, A_done_headers])" by simp
  have i: "i16 (int n + 1) = int n + 1" using c(2,3) by (subst i16_id) auto
  show ?thesis using x c cl(1)
    by (auto simp: at_def counting_def byte_step_gstep [OF _ _ g] act_inc_count_def i)
      (auto simp: act_done_headers_def Let_def a r f fbreak_def set_ready_def token_flag_set_def head_buffer_def
        body_pos_def head_flags_def headers_done_def token_zero_def HTTP_FLAG_SET_def hsh_http_entry_defs add.commute
        simp del: of_nat_Suc)
qed

lemma head_buffer_index: "head_buffer mx after cl ch (bf\<lparr>bf_index := i\<rparr>) = head_buffer mx after cl ch bf"
  by (simp add: head_buffer_def Let_def)

lemma body_pos_ok: "gpos_ok (body_pos mx after cl ch)"
  by (simp add: body_pos_def gpos_ok_def)

lemma call_done:
  assumes b: "between bf cl ch g ps" and r: "received bf (pre @ [lf, cr, lf] @ post)"
    and e: "line_end g ps" "g \<noteq> G_Version_Lf"
    and mx: "0 \<le> mx" "mx < 2147483648" and cl: "0 \<le> cl" "cl < 9223372036854775808"
    and len: "length pre < 2147483600"
  defines "i \<equiv> int (length pre + 3)"
  shows "\<exists>ps'. hsh_parser_exec 0 ps (bf\<lparr>bf_index := int (length pre)\<rparr>) mx
      = Inr (headers_done (head_flags mx i cl ch), ps', head_buffer mx i cl ch bf)
    \<and> between bf cl ch (body_pos mx i cl ch) ps' \<and> ps_content_remaining ps' = cl"
proof -
  let ?p = "length pre" and ?bf = "bf\<lparr>bf_index := int (length pre)\<rparr>" and ?sq = "ps_sequence_id ps"
  let ?pe = "bf_length bf"
  note x = entry_at(1) [OF b, of ?p] entry_at(2) [OF b]
  obtain y where y: "byte_step 0 mx ?pe lf (entry ps ?bf) = Inr (Cont y)" "at ?bf ?sq cl ch (line_start g) (Suc ?p) y"
    using step_line_end [OF x(1) e(1) x(2)] by blast
  have "\<exists>z. byte_step 0 mx ?pe cr y = Inr (Cont z) \<and> at ?bf ?sq cl ch G_Blank (Suc (Suc ?p)) z
      \<and> entered HSH_TOK_HEADER_KEY (Suc ?p) 1 256 z"
    using len e(2)
    by (intro step_enter [OF y(2), where as = "[A_header_key, A_reset_count, A_inc_count]"])
      (auto simp: line_start_def gpos_ok_def)
  then obtain z where z: "byte_step 0 mx ?pe cr y = Inr (Cont z)" "at ?bf ?sq cl ch G_Blank (Suc (Suc ?p)) z"
    "counting 1 256 z" by (auto simp: entered_def)
  have "int (Suc (Suc ?p)) < 2147483640" using len by simp
  from step_done [OF z(2,3) _ _ this mx cl, of ?pe] obtain u where
    u: "byte_step 0 mx ?pe lf z = Inr (Stop u)" "x_p u = i" "(x_bf u)\<lparr>bf_index := i\<rparr> = head_buffer mx i cl ch bf"
      "x_cs u = gcode (body_pos mx i cl ch)" "ps_token (x_ps u) = headers_done (head_flags mx i cl ch)"
      "ps_content_length (x_ps u) = cl" "ps_content_remaining (x_ps u) = cl"
      "ps_sequence_id (x_ps u) = ?sq" "ps_flags (x_ps u) = chunk_flags ch OR HSH_P_FLAG_TOKEN_READY"
    by (auto simp: i_def head_buffer_index numeral_3_eq_3)
  have run: "run_bytes 0 mx ?pe [lf, cr, lf] (entry ps ?bf) = Inr (Stop u)"
    using y(1) z(1) u(1) by simp
  have "scan 0 mx ?pe (entry ps ?bf) = Inr u"
    by (rule scan_stops [where pre = pre and seg = "[lf, cr, lf]" and post = post, OF _ _ _ run])
      (use r in \<open>simp_all add: received_def entry_def\<close>)
  moreover have "gcode g \<noteq> 0" using b gcode_pos [of g] by (simp add: between_def)
  ultimately have sc: "scan_exec 0 mx ?pe (entry ps ?bf) = Inr u"
    using r b by (simp add: scan_exec_def entry_def between_def hsh_http_error_def received_def)
  have "i32 i = i" using len by (simp add: i_def i32_id)
  with b sc u show ?thesis
    by (auto simp: hsh_parser_exec_def entry_def between_def chunk_flags_simps Let_def body_pos_ok)
qed

section \<open>Heads\<close>

record request_head =
  hd_method :: string
  hd_target :: string
  hd_minor :: char
  hd_headers :: "(string \<times> string \<times> string) list"

text \<open>A header is a key, the blanks behind the colon, and a value.\<close>

definition render_header :: "string \<times> string \<times> string \<Rightarrow> string" where
  "render_header h = (case h of (k, ws, v) \<Rightarrow> k @ '':'' @ ws @ v @ crlf)"

definition render_head :: "request_head \<Rightarrow> string" where
  "render_head h = hd_method h @ '' '' @ hd_target h @ '' '' @ ''HTTP/1.'' @ [hd_minor h] @ crlf
     @ concat (map render_header (hd_headers h)) @ crlf"

definition header_ok :: "string \<times> string \<times> string \<Rightarrow> bool" where
  "header_ok h \<longleftrightarrow> (case h of (k, ws, v) \<Rightarrow>
     k \<noteq> [] \<and> list_all (\<lambda>c. \<not> token_excluded c) k \<and> hd k \<noteq> cr \<and> length k \<le> 256
     \<and> ws \<noteq> [] \<and> list_all is_ows ws
     \<and> cr \<notin> set v \<and> lf \<notin> set v \<and> (v \<noteq> [] \<longrightarrow> \<not> is_ows (hd v)) \<and> length v \<le> 4095)"

definition head_ok :: "request_head \<Rightarrow> bool" where
  "head_ok h \<longleftrightarrow> hd_method h \<noteq> [] \<and> list_all is_alpha (hd_method h) \<and> length (hd_method h) \<le> 32
     \<and> hd_target h \<noteq> [] \<and> CHR '' '' \<notin> set (hd_target h) \<and> length (hd_target h) \<le> 1024
     \<and> (hd_minor h = CHR ''0'' \<or> hd_minor h = CHR ''1'')
     \<and> hd_headers h \<noteq> [] \<and> list_all header_ok (hd_headers h)"

definition announced_length :: "(string \<times> string \<times> string) list \<Rightarrow> int \<Rightarrow> int" where
  "announced_length hs cl = foldl (\<lambda>cl (k, ws, v). length_after (key_kind k) v cl) cl hs"

definition announced_chunked :: "(string \<times> string \<times> string) list \<Rightarrow> bool \<Rightarrow> bool" where
  "announced_chunked hs ch = foldl (\<lambda>ch (k, ws, v). chunked_after (key_kind k) v ch) ch hs"

definition slice :: "string \<Rightarrow> hsh_token_s \<Rightarrow> hsh_token_e \<times> string" where
  "slice data t = (tk_type t, take (nat (tk_len t)) (drop (nat (tk_index t)) data))"

definition header_parts :: "(string \<times> string \<times> string) list \<Rightarrow> (hsh_token_e \<times> string) list" where
  "header_parts hs = concat (map (\<lambda>(k, ws, v). [(HSH_TOK_HEADER_KEY, k), (HSH_TOK_HEADER_VALUE, v)]) hs)"

definition head_parts :: "request_head \<Rightarrow> (hsh_token_e \<times> string) list" where
  "head_parts h =
     [(HSH_TOK_METHOD, hd_method h), (HSH_TOK_TARGET, hd_target h),
      (HSH_TOK_VERSION, ''HTTP/1.'' @ [hd_minor h])]
     @ header_parts (hd_headers h) @ [(HSH_TOK_HEADERS_DONE, [])]"

text \<open>The same bytes, cut where the calls cut them: the line feed in front of its line.\<close>

definition header_line :: "string \<times> string \<times> string \<Rightarrow> string" where
  "header_line h = (case h of (k, ws, v) \<Rightarrow> lf # k @ '':'' @ ws @ v @ [cr])"

lemma header_line_simp: "header_line (k, ws, v) = lf # k @ '':'' @ ws @ v @ [cr]"
  by (simp add: header_line_def)

lemma render_lines: "lf # concat (map render_header hs) @ s = concat (map header_line hs) @ lf # s"
  by (induction hs) (auto simp: render_header_def [of "(_, _, _)"] header_line_simp crlf_def)

lemma render_head_lines:
  "render_head h = hd_method h @ '' '' @ hd_target h @ '' '' @ (version_name @ [hd_minor h, cr])
     @ concat (map header_line (hd_headers h)) @ [lf, cr, lf]"
  using render_lines [of "hd_headers h" crlf]
  by (simp add: render_head_def version_name_def crlf_def)

lemma token_at_slice:
  "n = length xs \<Longrightarrow> i = length pre \<Longrightarrow> slice (pre @ xs @ post) (token_at ty i n) = (ty, xs)"
  by (simp add: slice_def token_at_def)

primrec header_tokens :: "nat \<Rightarrow> (string \<times> string \<times> string) list \<Rightarrow> hsh_token_s list" where
  "header_tokens p [] = []"
| "header_tokens p (h # hs) = (case h of (k, ws, v) \<Rightarrow>
     [token_at HSH_TOK_HEADER_KEY (p + 1) (length k), token_at HSH_TOK_HEADER_VALUE (p + length k + 2 + length ws) (length v)]
     @ header_tokens (p + length (header_line h)) hs)"

lemma header_tokens_slices:
  "map (slice (pre @ concat (map header_line hs) @ post)) (header_tokens (length pre) hs) = header_parts hs"
proof (induction hs arbitrary: pre)
  case Nil
  then show ?case by (simp add: header_parts_def)
next
  case (Cons h hs)
  obtain k ws v where h: "h = (k, ws, v)" by (cases h) auto
  let ?data = "pre @ concat (map header_line (h # hs)) @ post"
  have "slice ?data (token_at HSH_TOK_HEADER_KEY (length pre + 1) (length k)) = (HSH_TOK_HEADER_KEY, k)"
    using token_at_slice [of "length k" k "length pre + 1" "pre @ [lf]"] by (simp add: h header_line_simp)
  moreover have "slice ?data (token_at HSH_TOK_HEADER_VALUE (length pre + length k + 2 + length ws) (length v))
      = (HSH_TOK_HEADER_VALUE, v)"
    using token_at_slice [of "length v" v "length pre + length k + 2 + length ws" "pre @ lf # k @ '':'' @ ws"]
    by (simp add: h header_line_simp)
  moreover have "map (slice ?data) (header_tokens (length (pre @ header_line h)) hs) = header_parts hs"
    using Cons.IH [of "pre @ header_line h"] by simp
  ultimately show ?case by (simp add: h header_parts_def)
qed

text \<open>Every token lies inside the text.\<close>

definition in_text :: "string \<Rightarrow> hsh_token_s \<Rightarrow> bool" where
  "in_text data t \<longleftrightarrow> 0 \<le> tk_index t \<and> 0 \<le> tk_len t \<and> tk_index t + tk_len t \<le> int (length data)"

lemma token_at_in_text: "in_text data (token_at ty i n) \<longleftrightarrow> i + n \<le> length data"
  by (auto simp: in_text_def token_at_def)

lemma header_tokens_in_text:
  "list_all (in_text (pre @ concat (map header_line hs) @ post)) (header_tokens (length pre) hs)"
proof (induction hs arbitrary: pre)
  case (Cons h hs)
  obtain k ws v where h: "h = (k, ws, v)" by (cases h) auto
  have "list_all (in_text ((pre @ header_line h) @ concat (map header_line hs) @ post)) (header_tokens (length (pre @ header_line h)) hs)"
    by (rule Cons.IH)
  then show ?case by (simp add: h token_at_in_text header_line_simp)
qed simp

lemma call_gives_tokens:
  "call_gives mx bf ps i j t cl ch g ps' \<Longrightarrow>
     parse_tokens 1 0 mx ps (bf\<lparr>bf_index := int i\<rparr>) = Inr ([t], ps', bf\<lparr>bf_index := int j\<rparr>) \<and> between bf cl ch g ps'"
  by (simp add: call_gives_def)

lemma parse_headers:
  assumes "between bf cl ch g ps" and "line_end g ps" and "received bf (pre @ concat (map header_line hs) @ post)"
    and "list_all header_ok hs"
  shows "\<exists>g' ps'. parse_tokens (2 * length hs) 0 mx ps (bf\<lparr>bf_index := int (length pre)\<rparr>)
      = Inr (header_tokens (length pre) hs, ps', bf\<lparr>bf_index := int (length (pre @ concat (map header_line hs)))\<rparr>)
    \<and> between bf (announced_length hs cl) (announced_chunked hs ch) g' ps' \<and> line_end g' ps'
    \<and> (hs \<noteq> [] \<longrightarrow> g' \<noteq> G_Version_Lf)"
  using assms
proof (induction hs arbitrary: pre cl ch g ps)
  case Nil
  then show ?case by (auto simp: announced_length_def announced_chunked_def)
next
  case (Cons h hs)
  obtain k ws v where h: "h = (k, ws, v)" by (cases h) auto
  let ?rest = "concat (map header_line hs) @ post" and ?p = "length pre"
  have ok: "k \<noteq> []" "list_all (\<lambda>c. \<not> token_excluded c) k" "hd k \<noteq> cr" "length k \<le> 256"
    "ws \<noteq> []" "list_all is_ows ws" "cr \<notin> set v" "lf \<notin> set v" "v \<noteq> [] \<Longrightarrow> \<not> is_ows (hd v)" "length v \<le> 4095"
    using Cons.prems(4) by (auto simp: h header_ok_def [of "(k, ws, v)"])
  have hs: "list_all header_ok hs" using Cons.prems(4) by simp
  have r: "received bf (pre @ lf # k @ CHR '':'' # (ws @ v @ cr # ?rest))"
    using Cons.prems(3) by (simp add: h header_line_simp)
  obtain ps1 where k: "call_gives mx bf ps ?p (?p + length k + 2) (token_at HSH_TOK_HEADER_KEY (?p + 1) (length k))
      cl ch (after_colon (key_kind k)) ps1"
    using call_key [OF Cons.prems(1) r Cons.prems(2) ok(1-4)] by blast
  note k1 = call_gives_tokens [OF k]
  let ?pre = "pre @ lf # k @ '':''"
  have r2: "received bf (?pre @ ws @ v @ cr # ?rest)" using r by simp
  obtain g2 ps2 where v: "call_gives mx bf ps1 (length ?pre) (length ?pre + length ws + length v + 1)
      (token_at HSH_TOK_HEADER_VALUE (length ?pre + length ws) (length v))
      (length_after (key_kind k) v cl) (chunked_after (key_kind k) v ch) g2 ps2"
    and g2: "g2 = G_Value_Lf \<or> g2 = G_Empty_Lf" "line_end g2 ps2"
    using call_value [OF k1 [THEN conjunct2] r2 ok(5-10)] by blast
  note v1 = call_gives_tokens [OF v]
  let ?cl = "length_after (key_kind k) v cl" and ?ch = "chunked_after (key_kind k) v ch"
  let ?pre3 = "pre @ header_line h"
  have len: "length ?pre = ?p + length k + 2" "length ?pre3 = ?p + length k + length ws + length v + 3"
    "length ?pre + length ws + length v + 1 = length ?pre3"
    by (simp_all add: h header_line_simp)
  have r3: "received bf (?pre3 @ ?rest)" using Cons.prems(3) by simp
  obtain g' ps' where t: "parse_tokens (2 * length hs) 0 mx ps2 (bf\<lparr>bf_index := int (length ?pre3)\<rparr>)
      = Inr (header_tokens (length ?pre3) hs, ps', bf\<lparr>bf_index := int (length (?pre3 @ concat (map header_line hs)))\<rparr>)"
    and g': "between bf (announced_length hs ?cl) (announced_chunked hs ?ch) g' ps'" "line_end g' ps'"
      "hs \<noteq> [] \<longrightarrow> g' \<noteq> G_Version_Lf"
    using Cons.IH [OF v1 [THEN conjunct2] g2(2) r3 hs] by blast
  have "parse_tokens (1 + (1 + 2 * length hs)) 0 mx ps (bf\<lparr>bf_index := int ?p\<rparr>)
      = Inr ([token_at HSH_TOK_HEADER_KEY (?p + 1) (length k)]
          @ [token_at HSH_TOK_HEADER_VALUE (length ?pre + length ws) (length v)]
          @ header_tokens (length ?pre3) hs, ps', bf\<lparr>bf_index := int (length (?pre3 @ concat (map header_line hs)))\<rparr>)"
    using k1 v1 t unfolding len(1) [symmetric] len(3)
    by (intro parse_tokens_append) blast+
  moreover have "g' \<noteq> G_Version_Lf" if "hs = []"
  proof -
    from t that have "ps' = ps2" by simp
    with g'(1) v1 have "gcode g' = gcode g2" by (simp add: between_def)
    with g2(1) show ?thesis by auto
  qed
  ultimately show ?case using g'
    by (auto simp: h announced_length_def announced_chunked_def)
qed

lemma parse_head_seq:
  fixes h rest sq
  defines "cl \<equiv> announced_length (hd_headers h) 0" and "ch \<equiv> announced_chunked (hd_headers h) False"
    and "i \<equiv> int (length (render_head h))"
  assumes h: "head_ok h" and r: "received bf (render_head h @ rest)" "bf_index bf = 0" "bf_sequence_id bf \<noteq> sq"
    and mx: "0 \<le> mx" "mx < 2147483648" and cl: "0 \<le> cl" "cl < 9223372036854775808"
    and len: "i < 2147483600"
  shows "\<exists>ts ps'. parse_tokens (4 + 2 * length (hd_headers h)) 0 mx (hsh_parser_init\<lparr>ps_sequence_id := sq\<rparr>) bf
      = Inr (ts @ [headers_done (head_flags mx i cl ch)], ps', head_buffer mx i cl ch bf)
    \<and> map (slice (render_head h @ rest)) ts @ [(HSH_TOK_HEADERS_DONE, [])] = head_parts h
    \<and> list_all (in_text (render_head h @ rest)) ts
    \<and> ps_state ps' = gcode (body_pos mx i cl ch) \<and> ps_content_length ps' = cl \<and> ps_content_remaining ps' = cl
    \<and> between bf cl ch (body_pos mx i cl ch) ps'"
proof -
  let ?m = "hd_method h" and ?t = "hd_target h" and ?d = "hd_minor h" and ?hs = "hd_headers h"
  let ?init = "hsh_parser_init\<lparr>ps_sequence_id := sq\<rparr>"
  let ?ls = "concat (map header_line ?hs)"
  have ok: "?m \<noteq> []" "list_all is_alpha ?m" "length ?m \<le> 32" "?t \<noteq> []" "CHR '' '' \<notin> set ?t" "length ?t \<le> 1024"
    "?d = CHR ''0'' \<or> ?d = CHR ''1''" "?hs \<noteq> []" "list_all header_ok ?hs"
    using h by (auto simp: head_ok_def)
  let ?p1 = "?m @ '' ''" let ?p2 = "?p1 @ ?t @ '' ''" let ?p3 = "?p2 @ version_name @ [?d, cr]" let ?p4 = "?p3 @ ?ls"
  have data: "render_head h = ?p4 @ [lf, cr, lf]" by (simp add: render_head_lines)
  note rec = r(1) [unfolded data]
  have b0: "between bf 0 False G_Start ?init"
    using r(3) by (simp add: between_def hsh_parser_init_def parser_zero_def chunk_flags_def gpos_ok_def hsh_http_start_def)
  have bf0: "bf\<lparr>bf_index := int (length ([] :: string))\<rparr> = bf" using r(2) by simp
  obtain ps1 where c1: "call_gives mx bf ?init (length ([] :: string)) (length ([] :: string) + length ?m + 1)
      (token_at HSH_TOK_METHOD (length ([] :: string)) (length ?m)) 0 False G_Target_Start ps1"
    using call_method [OF b0, where pre = "[]" and post = "?t @ '' '' @ version_name @ [?d, cr] @ ?ls @ [lf, cr, lf] @ rest",
        OF _ ok(1-3)] rec by auto
  obtain ps2 where c2: "call_gives mx bf ps1 (length ?p1) (length ?p1 + length ?t + 1)
      (token_at HSH_TOK_TARGET (length ?p1) (length ?t)) 0 False (G_Version 0) ps2"
    using call_target [OF call_gives_tokens [OF c1, THEN conjunct2], where pre = ?p1
        and post = "version_name @ [?d, cr] @ ?ls @ [lf, cr, lf] @ rest", OF _ ok(4-6)] rec by auto
  obtain ps3 where c3: "call_gives mx bf ps2 (length ?p2) (length ?p2 + 9)
      (token_at HSH_TOK_VERSION (length ?p2) 8) 0 False G_Version_Lf ps3"
    using call_version [OF call_gives_tokens [OF c2, THEN conjunct2], where pre = ?p2
        and post = "?ls @ [lf, cr, lf] @ rest", OF _ ok(7)] rec by auto
  note t = call_gives_tokens [OF c1] call_gives_tokens [OF c2] call_gives_tokens [OF c3]
  have lens: "length ([] :: string) + length ?m + 1 = length ?p1" "length ?p1 + length ?t + 1 = length ?p2"
    "length ?p2 + 9 = length ?p3"
    by (simp_all add: version_name_def)
  have rec3: "received bf (?p3 @ ?ls @ ([lf, cr, lf] @ rest))" using rec by simp
  have e3: "line_end G_Version_Lf ps3" by (simp add: line_end_def)
  obtain g ps4 where t4: "parse_tokens (2 * length ?hs) 0 mx ps3 (bf\<lparr>bf_index := int (length ?p3)\<rparr>)
      = Inr (header_tokens (length ?p3) ?hs, ps4, bf\<lparr>bf_index := int (length ?p4)\<rparr>)"
    and g: "between bf cl ch g ps4" "line_end g ps4" "g \<noteq> G_Version_Lf"
    using parse_headers [OF t(3) [THEN conjunct2] e3 rec3 ok(9), of mx] ok(8) unfolding cl_def ch_def by blast
  have "length ?p4 < 2147483600" "int (length ?p4 + 3) = i"
    using len data by (simp_all add: i_def)
  then obtain ps5 where c5: "hsh_parser_exec 0 ps4 (bf\<lparr>bf_index := int (length ?p4)\<rparr>) mx
      = Inr (headers_done (head_flags mx i cl ch), ps5, head_buffer mx i cl ch bf)"
    "between bf cl ch (body_pos mx i cl ch) ps5" "ps_content_remaining ps5 = cl"
    using call_done [OF g(1) _ g(2,3) mx cl, where pre = ?p4 and post = rest] rec by auto
  let ?t1 = "token_at HSH_TOK_METHOD (length ([] :: string)) (length ?m)"
  let ?t2 = "token_at HSH_TOK_TARGET (length ?p1) (length ?t)" and ?t3 = "token_at HSH_TOK_VERSION (length ?p2) 8"
  let ?ts = "[?t1] @ [?t2] @ [?t3] @ header_tokens (length ?p3) ?hs"
  have "parse_tokens 1 0 mx ps4 (bf\<lparr>bf_index := int (length ?p4)\<rparr>)
      = Inr ([headers_done (head_flags mx i cl ch)], ps5, head_buffer mx i cl ch bf)"
    using c5(1) by simp
  then have "parse_tokens (1 + (1 + (1 + (2 * length ?hs + 1)))) 0 mx ?init (bf\<lparr>bf_index := int (length ([] :: string))\<rparr>)
      = Inr ([?t1] @ [?t2] @ [?t3] @ header_tokens (length ?p3) ?hs @ [headers_done (head_flags mx i cl ch)],
          ps5, head_buffer mx i cl ch bf)"
    using t(1,2,3) t4 unfolding lens by (intro parse_tokens_append) blast+
  then have "parse_tokens (4 + 2 * length ?hs) 0 mx (hsh_parser_init\<lparr>ps_sequence_id := sq\<rparr>) bf
      = Inr (?ts @ [headers_done (head_flags mx i cl ch)], ps5, head_buffer mx i cl ch bf)"
    unfolding bf0 by (simp add: numeral_eq_Suc)
  moreover have "slice (render_head h @ rest) ?t1 = (HSH_TOK_METHOD, ?m)"
    using token_at_slice [of "length ?m" ?m 0 "[]"] by (simp add: data)
  moreover have "slice (render_head h @ rest) ?t2 = (HSH_TOK_TARGET, ?t)"
    using token_at_slice [of "length ?t" ?t "length ?p1" ?p1] by (simp add: data)
  moreover have "slice (render_head h @ rest) ?t3 = (HSH_TOK_VERSION, ''HTTP/1.'' @ [?d])"
    using token_at_slice [of 8 "version_name @ [?d]" "length ?p2" ?p2] by (simp add: data version_name_def)
  moreover have "map (slice (render_head h @ rest)) (header_tokens (length ?p3) ?hs) = header_parts ?hs"
    using header_tokens_slices [of ?p3 ?hs "[lf, cr, lf] @ rest"] by (simp add: data)
  moreover have "list_all (in_text (render_head h @ rest)) ?ts"
    using header_tokens_in_text [of ?p3 ?hs "[lf, cr, lf] @ rest"] by (simp add: data token_at_in_text version_name_def)
  ultimately show ?thesis using c5(2,3)
    by (intro exI [of _ ?ts] exI [of _ ps5]) (simp add: head_parts_def between_def)
qed

lemma parse_head_body:
  fixes h rest
  defines "cl \<equiv> announced_length (hd_headers h) 0" and "ch \<equiv> announced_chunked (hd_headers h) False"
    and "i \<equiv> int (length (render_head h))"
  assumes h: "head_ok h" and r: "received bf (render_head h @ rest)" "bf_index bf = 0" "bf_sequence_id bf \<noteq> 0"
    and mx: "0 \<le> mx" "mx < 2147483648" and cl: "0 \<le> cl" "cl < 9223372036854775808"
    and len: "i < 2147483600"
  shows "\<exists>ts ps'. parse_tokens (4 + 2 * length (hd_headers h)) 0 mx hsh_parser_init bf
      = Inr (ts @ [headers_done (head_flags mx i cl ch)], ps', head_buffer mx i cl ch bf)
    \<and> map (slice (render_head h @ rest)) ts @ [(HSH_TOK_HEADERS_DONE, [])] = head_parts h
    \<and> ps_state ps' = gcode (body_pos mx i cl ch) \<and> ps_content_length ps' = cl \<and> ps_content_remaining ps' = cl"
proof -
  have "hsh_parser_init\<lparr>ps_sequence_id := 0\<rparr> = hsh_parser_init"
    by (simp add: hsh_parser_init_def parser_zero_def)
  then show ?thesis
    using parse_head_seq [OF h r mx] cl len unfolding cl_def ch_def i_def by fastforce
qed

text \<open>
  C25. Parsing inverts rendering. For every well-formed request head within the token limits, in a
  buffer that holds it from the start with anything behind, the calls of \<open>hsh_parser_exec\<close>
  return one token for each part, in order, whose slices of the buffer are the parts; the last
  one ends the headers. The parser then knows the length and the coding that the headers
  announce, and has chosen how to read the body: in chunks, not at all, streamed because it does
  not fit below the maximal capacity, or in one piece after growing the buffer to hold it.
\<close>

theorem parse_render:
  fixes h rest
  defines "cl \<equiv> announced_length (hd_headers h) 0" and "ch \<equiv> announced_chunked (hd_headers h) False"
    and "i \<equiv> int (length (render_head h))"
  assumes h: "head_ok h" and r: "received bf (render_head h @ rest)" "bf_index bf = 0" "bf_sequence_id bf \<noteq> 0"
    and mx: "0 \<le> mx" "mx < 2147483648" and cl: "0 \<le> cl" "cl < 9223372036854775808"
    and len: "i < 2147483600"
  shows "\<exists>ts ps'. parse_tokens (4 + 2 * length (hd_headers h)) 0 mx hsh_parser_init bf
      = Inr (ts @ [headers_done (head_flags mx i cl ch)], ps', head_buffer mx i cl ch bf)
    \<and> map (slice (render_head h @ rest)) ts @ [(HSH_TOK_HEADERS_DONE, [])] = head_parts h
    \<and> ps_state ps' = gcode (body_pos mx i cl ch) \<and> ps_content_length ps' = cl \<and> ps_content_remaining ps' = cl"
  using parse_head_body [OF h r mx] cl len unfolding cl_def ch_def i_def by blast

section \<open>An instance\<close>

definition posted_head :: request_head where
  "posted_head = \<lparr>hd_method = ''POST'', hd_target = ''/a?b=c'', hd_minor = CHR ''1'',
     hd_headers = [(''Host'', '' '', ''x.y''), (''content-length'', ''  '', ''5'')]\<rparr>"

definition head_bytes :: hsh_buffer_s where
  "head_bytes = buffer_zero\<lparr>bf_buf := Some (map Some (render_head posted_head @ ''he'') @ replicate 4 None),
     bf_capacity := int (length (render_head posted_head)) + 6,
     bf_length := int (length (render_head posted_head @ ''he'')), bf_sequence_id := 1\<rparr>"

lemma head_bytes_facts:
  "head_ok posted_head" "received head_bytes (render_head posted_head @ ''he'')"
  "bf_index head_bytes = 0" "bf_sequence_id head_bytes \<noteq> 0"
  "announced_length (hd_headers posted_head) 0 = 5" "announced_chunked (hd_headers posted_head) False = False"
  "int (length (render_head posted_head)) = 55"
proof -
  show "head_ok posted_head" by code_simp
  show "announced_length (hd_headers posted_head) 0 = 5" by code_simp
  show "announced_chunked (hd_headers posted_head) False = False" by code_simp
  show l: "int (length (render_head posted_head)) = 55" by code_simp
  then show "received head_bytes (render_head posted_head @ ''he'')"
    by (simp add: received_def head_bytes_def holds_def)
qed (simp_all add: head_bytes_def buffer_zero_def)

theorem parse_render_witness:
  "\<exists>ts ps'. parse_tokens 8 0 8388608 hsh_parser_init head_bytes
      = Inr (ts @ [headers_done 0], ps', head_buffer 8388608 55 5 False head_bytes)
    \<and> map (slice (render_head posted_head @ ''he'')) ts =
        [(HSH_TOK_METHOD, ''POST''), (HSH_TOK_TARGET, ''/a?b=c''), (HSH_TOK_VERSION, ''HTTP/1.1''),
         (HSH_TOK_HEADER_KEY, ''Host''), (HSH_TOK_HEADER_VALUE, ''x.y''),
         (HSH_TOK_HEADER_KEY, ''content-length''), (HSH_TOK_HEADER_VALUE, ''5'')]
    \<and> ps_state ps' = gcode G_Small \<and> ps_content_length ps' = 5"
  using parse_render [OF head_bytes_facts(1-4), of 8388608, unfolded head_bytes_facts(5-7)]
  by (auto simp: head_parts_def header_parts_def posted_head_def head_flags_def body_pos_def)

end
