(* ===== verification/Parser_Chunks.thy ===== *)
theory Parser_Chunks
  imports Parser_Roundtrip Respond_Props
begin

text \<open>
  Numbers and chunked bodies. The decimal and hexadecimal texts that the response side prints
  are read back by the parser's digit actions, and a chunked body framed the way the response
  side frames it is parsed into its chunks when it has been received as a whole.
\<close>

section \<open>Numbers\<close>

lemma c_int_digit_char:
  "n < 10 \<Longrightarrow> c_int (digit_char n) = 48 + int n"
  "10 \<le> n \<Longrightarrow> n < 16 \<Longrightarrow> c_int (digit_char n) = 55 + int n"
  by (simp_all add: digit_char_def c_int_def Let_def of_nat_of_char [where 'a = int, symmetric])

lemma digit_char_is_digit: "n < 10 \<Longrightarrow> is_digit (digit_char n)"
  by (simp add: is_digit_def c_int_digit_char)

lemma digit_char_is_xdigit: "n < 16 \<Longrightarrow> is_xdigit (digit_char n)"
  by (cases "n < 10") (simp_all add: is_xdigit_def is_digit_def c_int_digit_char)

lemma chunk_digit_char: "n < 16 \<Longrightarrow> chunk_digit (digit_char n) = Some (int n)"
  by (cases "n < 10") (simp_all add: chunk_digit_def c_int_digit_char c_int_Char Let_def)

definition add_hex :: "int \<Rightarrow> char \<Rightarrow> int" where
  "add_hex cl c = (case chunk_digit c of None \<Rightarrow> cl | Some d \<Rightarrow> i64 (i64 (cl * 16) + d))"

lemma format_base_ne: "format_base b n \<noteq> []"
  by (subst format_base.simps) simp

lemma format_base_digits:
  assumes "2 \<le> b"
  shows "list_all (\<lambda>c. \<exists>d<b. c = digit_char d) (format_base b n)"
proof (induction n rule: less_induct)
  case (less n)
  show ?case
  proof (cases "n < b")
    case True
    then show ?thesis by (subst format_base.simps) auto
  next
    case False
    with assms less.IH [of "n div b"] have "list_all (\<lambda>c. \<exists>d<b. c = digit_char d) (format_base b (n div b))"
      by simp
    with False assms show ?thesis
      by (subst format_base.simps) (auto intro!: exI [of _ "n mod b"])
  qed
qed

lemma fold_format:
  assumes "\<And>acc d. 0 \<le> acc \<Longrightarrow> d < b \<Longrightarrow> acc * int b + int d < 9223372036854775808 \<Longrightarrow>
      f acc (digit_char d) = acc * int b + int d"
    and "2 \<le> b" and "int n < 9223372036854775808"
  shows "foldl f 0 (format_base b n) = int n"
  using assms(3)
proof (induction n rule: less_induct)
  case (less n)
  show ?case
  proof (cases "n < b")
    case True
    with assms(1) [of 0 n] assms(2) less.prems show ?thesis by (subst format_base.simps) simp
  next
    case False
    have "int (n div b) < 9223372036854775808" using less.prems div_le_dividend [of n b] by linarith
    with False have "foldl f 0 (format_base b (n div b)) = int (n div b)"
      using assms(2) by (intro less.IH) auto
    moreover have "int (n div b) * int b + int (n mod b) = int n"
      by (metis div_mult_mod_eq of_nat_add of_nat_mult)
    moreover have "n mod b < b" using assms(2) by simp
    ultimately show ?thesis using assms(1) [of "int (n div b)" "n mod b"] False assms(2) less.prems
      by (subst format_base.simps) simp
  qed
qed

lemma digits_read:
  assumes "0 \<le> n" and "n < 9223372036854775808" and "s \<noteq> [] \<Longrightarrow> \<not> is_digit (hd s)"
  shows "length_after K_Length (format_d n @ s) 0 = n"
proof -
  have dig: "\<forall>c\<in>set (format_base 10 (nat n)). is_digit c"
    using format_base_digits [of 10 "nat n"] digit_char_is_digit by (force simp: list_all_iff)
  have "takeWhile is_digit s = []" using assms(3) by (cases s) auto
  with dig have tw: "takeWhile is_digit (format_d n @ s) = format_base 10 (nat n)"
    using assms(1) by (simp add: format_d_def takeWhile_append2)
  have "foldl add_digit 0 (format_base 10 (nat n)) = int (nat n)"
  proof (rule fold_format)
    fix acc :: int and d :: nat
    assume "0 \<le> acc" "d < 10" "acc * int 10 + int d < 9223372036854775808"
    then show "add_digit acc (digit_char d) = acc * int 10 + int d"
      by (simp add: add_digit_def c_int_digit_char i64_id)
  qed (use assms in auto)
  then show ?thesis using assms(1) by (simp add: tw)
qed

lemma announced_length_other:
  "list_all (\<lambda>(k, ws, v). key_kind k \<noteq> K_Length) hs \<Longrightarrow> announced_length hs cl = cl"
proof (induction hs arbitrary: cl)
  case Nil
  then show ?case by (simp add: announced_length_def)
next
  case (Cons h hs)
  obtain k ws v where h: "h = (k, ws, v)" by (cases h) auto
  with Cons.prems have "length_after (key_kind k) v cl = cl" by (cases "key_kind k") auto
  with Cons h show ?case by (simp add: announced_length_def)
qed

text \<open>
  C26. The parser reads the length that a client prints. A head with one
  \<^verbatim>\<open>Content-Length\<close> header (its name in any case), whose value is the decimal text of
  \<open>n\<close> up to 63 bits, leaves the parser with the body length \<open>n\<close>; whatever follows the
  digits in the value is ignored.
\<close>

theorem content_length_read:
  assumes h: "head_ok h" "hd_headers h = hs @ (k, ws, format_d n @ s) # hs'"
    and k: "map to_lower k = ''content-length''" "list_all (\<lambda>(k, ws, v). key_kind k \<noteq> K_Length) (hs @ hs')"
    and n: "0 \<le> n" "n < 9223372036854775808" "s = [] \<or> \<not> is_digit (hd s)"
    and r: "received bf (render_head h @ rest)" "bf_index bf = 0" "bf_sequence_id bf \<noteq> 0"
    and mx: "0 \<le> mx" "mx < 2147483648" and len: "length (render_head h) < 2147483600"
  shows "\<exists>ts ps' bf'. parse_tokens (4 + 2 * length (hd_headers h)) 0 mx hsh_parser_init bf = Inr (ts, ps', bf')
    \<and> ps_content_length ps' = n"
proof -
  have kind: "key_kind k = K_Length" using k(1) by (simp add: key_kind_def content_length_name_def)
  have "announced_length (xs @ ys) cl = announced_length ys (announced_length xs cl)" for xs ys cl
    by (simp add: announced_length_def)
  moreover have "announced_length ((k, ws, v) # ys) cl = announced_length ys (length_after (key_kind k) v cl)" for v ys cl
    by (simp add: announced_length_def)
  ultimately have "announced_length (hd_headers h) 0 = n"
    using k(2) n digits_read [OF n(1,2), of s] by (auto simp: h(2) kind announced_length_other)
  with parse_head_body [OF h(1) r mx] n len show ?thesis by fastforce
qed

theorem content_length_read_witness:
  "\<exists>ts ps' bf'. parse_tokens 8 0 8388608 hsh_parser_init head_bytes = Inr (ts, ps', bf') \<and> ps_content_length ps' = 5"
proof -
  have "format_d 5 = ''5''" by code_simp
  then have "hd_headers posted_head = [(''Host'', '' '', ''x.y'')] @ (''content-length'', ''  '', format_d 5 @ []) # []"
    by (simp add: posted_head_def)
  moreover have "map to_lower ''content-length'' = ''content-length''" by code_simp
  moreover have "list_all (\<lambda>(k, ws, v). key_kind k \<noteq> K_Length) ([(''Host'', '' '', ''x.y'')] @ [])" by code_simp
  moreover have "length (render_head posted_head) < 2147483600" using head_bytes_facts(7) by simp
  ultimately show ?thesis
    using content_length_read [OF head_bytes_facts(1), of _ _ _ 5 "[]" _ head_bytes _ 8388608] head_bytes_facts(2-4)
    by (fastforce simp: posted_head_def)
qed

lemma chunk_size_read:
  assumes "int n < 4294967296"
  shows "foldl add_hex 0 (format_X (int n)) = int n"
proof -
  have "foldl add_hex 0 (format_base 16 n) = int n"
  proof (rule fold_format)
    fix acc :: int and d :: nat
    assume "0 \<le> acc" "d < 16" "acc * int 16 + int d < 9223372036854775808"
    then show "add_hex acc (digit_char d) = acc * int 16 + int d"
      by (simp add: add_hex_def chunk_digit_char i64_id)
  qed (use assms in auto)
  with assms show ?thesis by (simp add: format_X_def)
qed

section \<open>Chunks\<close>

text \<open>
  The first chunk and the later ones are read at different positions of the grammar; a later
  one begins with the line break behind its predecessor.
\<close>

record chunk_pos =
  cp_entry :: gpos
  cp_lead :: string
  cp_start :: gpos
  cp_size :: gpos
  cp_size_lf :: gpos
  cp_body :: gpos
  cp_data :: gpos
  cp_zero :: gpos
  cp_zero_lf :: gpos
  cp_final :: gpos

definition first_chunk :: chunk_pos where
  "first_chunk = \<lparr>cp_entry = G_Ck_Size_Start, cp_lead = [], cp_start = G_Ck_Size_Start, cp_size = G_Ck_Size,
     cp_size_lf = G_Ck_Size_Lf, cp_body = G_Ck_Body, cp_data = G_Ck_Data, cp_zero = G_Ck_Only_Zero,
     cp_zero_lf = G_Ck_Only_Zero_Cr, cp_final = G_Ck_Only_Final\<rparr>"

definition later_chunk :: chunk_pos where
  "later_chunk = \<lparr>cp_entry = G_End_Cr, cp_lead = crlf, cp_start = G_End_Size_Start, cp_size = G_End_Size,
     cp_size_lf = G_End_Size_Lf, cp_body = G_End_Body, cp_data = G_End_Data, cp_zero = G_End_Zero_Cr,
     cp_zero_lf = G_End_Zero_Lf, cp_final = G_End_Final\<rparr>"

definition chunk_pos_ok :: "chunk_pos \<Rightarrow> bool" where
  "chunk_pos_ok q \<longleftrightarrow> q = first_chunk \<or> q = later_chunk"

lemmas chunk_pos_defs = chunk_pos_ok_def first_chunk_def later_chunk_def

lemma step_size:
  assumes "at bf sq cl ch g p x" and "gstep g c = (g', as)" and "gpos_ok g'"
    and "as = [A_chunk_start, A_chunk_size] \<and> cl' = add_hex 0 c \<or> as = [A_chunk_size] \<and> cl' = add_hex cl c"
  shows "\<exists>y. byte_step mv mx pe c x = Inr (Cont y) \<and> at bf sq cl' ch g' (Suc p) y"
  using assms(4) assms(1-3) gcode_pos [OF assms(3)]
  by (elim disjE conjE)
    (auto simp: at_def byte_step_gstep hsh_http_error_def act_chunk_start_def act_chunk_size_def add_hex_def Let_def
      split: option.splits)

lemma xdigit_not_cr: "is_xdigit c \<Longrightarrow> c \<noteq> cr"
  by (auto simp: is_xdigit_def is_digit_def cr_def c_int_Char)

lemma run_lead:
  assumes "at bf sq cl ch (cp_entry q) p x" and "chunk_pos_ok q"
  shows "\<exists>y. run_bytes mv mx pe (cp_lead q) x = Inr (Cont y) \<and> at bf sq cl ch (cp_start q) (p + length (cp_lead q)) y"
proof (cases "q = first_chunk")
  case True
  with assms(1) show ?thesis by (auto simp: first_chunk_def)
next
  case False
  with assms have q: "q = later_chunk" by (simp add: chunk_pos_ok_def)
  with assms(1) have "at bf sq cl ch G_End_Cr p x" by (simp add: later_chunk_def)
  from step_silent [OF this, of cr G_End_Lf mv mx pe] obtain y where
    y: "byte_step mv mx pe cr x = Inr (Cont y)" "at bf sq cl ch G_End_Lf (Suc p) y"
    by (auto simp: expect_def gpos_ok_def)
  from step_silent [OF y(2), of lf G_End_Size_Start mv mx pe] y(1) q show ?thesis
    by (auto simp: expect_def gpos_ok_def later_chunk_def crlf_def)
qed

lemma run_size:
  assumes x: "at bf sq cl ch (cp_start q) p x" and q: "chunk_pos_ok q"
    and s: "s \<noteq> []" "list_all is_xdigit s" "hd s \<noteq> CHR ''0''"
  shows "\<exists>y. run_bytes mv mx pe (s @ crlf) x = Inr (Cont y)
    \<and> at bf sq (foldl add_hex 0 s) ch (cp_body q) (p + length s + 2) y"
proof -
  let ?P = "\<lambda>k y. k = 0 \<and> y = x \<or> 0 < k \<and> at bf sq (foldl add_hex 0 (take k s)) ch (cp_size q) (p + k) y"
  have ok: "gpos_ok (cp_size q)" "gpos_ok (cp_size_lf q)" "gpos_ok (cp_body q)"
    using q by (auto simp: chunk_pos_defs gpos_ok_def)
  have "\<exists>y. run_bytes mv mx pe s x = Inr (Cont y) \<and> ?P (length s) y"
  proof (rule run_segment [where P = ?P])
    fix k y assume k: "k < length s" and y: "?P k y"
    have c: "is_xdigit (s ! k)" using s k by (simp add: list_all_length)
    have u: "foldl add_hex 0 (take (Suc k) s) = add_hex (foldl add_hex 0 (take k s)) (s ! k)"
      using k by (simp add: take_Suc_conv_app_nth)
    show "\<exists>z. byte_step mv mx pe (s ! k) y = Inr (Cont z) \<and> ?P (Suc k) z"
    proof (cases "k = 0")
      case True
      with s have "gstep (cp_start q) (s ! k) = (cp_size q, [A_chunk_start, A_chunk_size])"
        using q by (auto simp: chunk_pos_defs hd_conv_nth)
      from step_size [OF x this ok(1), of "add_hex 0 (s ! k)" mv mx pe] True y u show ?thesis by auto
    next
      case False
      with y have y: "at bf sq (foldl add_hex 0 (take k s)) ch (cp_size q) (p + k) y" by simp
      have "gstep (cp_size q) (s ! k) = (cp_size q, [A_chunk_size])"
        using q c xdigit_not_cr [OF c] by (auto simp: chunk_pos_defs expect_def)
      from step_size [OF y this ok(1), of "foldl add_hex 0 (take (Suc k) s)" mv mx pe] u show ?thesis by auto
    qed
  qed simp
  with s(1) obtain y where y: "run_bytes mv mx pe s x = Inr (Cont y)"
    "at bf sq (foldl add_hex 0 s) ch (cp_size q) (p + length s) y" by auto
  have "gstep (cp_size q) cr = (cp_size_lf q, [])" "gstep (cp_size_lf q) lf = (cp_body q, [])"
    using q by (auto simp: chunk_pos_defs expect_def)
  note g = this
  from step_silent [OF y(2) g(1) ok(2), of mv mx pe] obtain z where
    z: "byte_step mv mx pe cr y = Inr (Cont z)" "at bf sq (foldl add_hex 0 s) ch (cp_size_lf q) (Suc (p + length s)) z"
    by auto
  from step_silent [OF z(2) g(2) ok(3), of mv mx pe] y(1) z(1) show ?thesis
    by (auto simp: run_bytes_append crlf_def)
qed

text \<open>The first byte of a chunk that has been received completely: it is delivered at once.\<close>

lemma step_chunk:
  assumes x: "at bf sq (int n) ch (cp_body q) p x" and q: "chunk_pos_ok q"
    and n: "0 < n" "int p + int n - 1 \<le> pe" "int p + int n < 2147483648"
  shows "\<exists>y. byte_step mv mx pe c x = Inr (Stop y)
    \<and> emitted bf sq (int n) ch G_End_Cr (p + n) (token_at HSH_TOK_BODY p n) y"
proof -
  have p: "i32 (int p) = int p" "i32 (int n) = int n" using n by (simp_all add: i32_id)
  have g: "gstep (cp_body q) c = (cp_data q, [A_body, A_chunk_read])"
    using q by (auto simp: chunk_pos_defs)
  show ?thesis using x n
    by (auto simp: at_def byte_step_gstep [OF _ _ g] act_body_def act_chunk_read_def Let_def p fbreak_def emitted_def
        set_ready_def token_at_def flag_ops hsh_http_entry_defs gpos_ok_def)
qed

lemma format_base_hd:
  assumes "0 < n" and "2 \<le> b" and "b \<le> 16"
  shows "hd (format_base b n) \<noteq> CHR ''0''"
  using assms(1)
proof (induction n rule: less_induct)
  case (less n)
  have digit: "digit_char d \<noteq> CHR ''0''" if "0 < d" "d < 16" for d
  proof
    assume "digit_char d = CHR ''0''"
    then have "c_int (digit_char d) = 48" by (simp add: c_int_Char)
    with that show False by (cases "d < 10") (simp_all add: c_int_digit_char)
  qed
  show ?case
  proof (cases "n < b")
    case True
    with less.prems assms(3) digit [of n] show ?thesis by (subst format_base.simps) simp
  next
    case False
    with assms(2) less.IH [of "n div b"] have "hd (format_base b (n div b)) \<noteq> CHR ''0''"
      by (simp add: div_greater_zero_iff)
    with False assms(2) format_base_ne [of b "n div b"] show ?thesis by (subst format_base.simps) simp
  qed
qed

lemma format_X_digits:
  assumes "0 < n" and "int n < 4294967296"
  shows "format_X (int n) \<noteq> []" and "list_all is_xdigit (format_X (int n))" and "hd (format_X (int n)) \<noteq> CHR ''0''"
proof -
  have f: "format_X (int n) = format_base 16 n" using assms by (simp add: format_X_def)
  show "format_X (int n) \<noteq> []" "hd (format_X (int n)) \<noteq> CHR ''0''"
    using format_base_ne format_base_hd [of n 16] assms(1) by (simp_all add: f)
  show "list_all is_xdigit (format_X (int n))"
    using format_base_digits [of 16 n] digit_char_is_xdigit by (auto simp: f list_all_iff)
qed

lemma exec_call_plain:
  assumes "between bf cl ch g ps" and "received bf (pre @ seg @ post)" and "j \<le> length (pre @ seg @ post)"
    and "\<And>x. at (bf\<lparr>bf_index := int (length pre)\<rparr>) (ps_sequence_id ps) cl ch g (length pre) x \<Longrightarrow>
      \<exists>y. run_bytes 0 mx (bf_length bf) seg x = Inr (Stop y)
        \<and> emitted (bf\<lparr>bf_index := int (length pre)\<rparr>) (ps_sequence_id ps) cl' ch' g' j t y"
  shows "\<exists>ps'. call_gives mx bf ps (length pre) j t cl' ch' g' ps'"
proof -
  from assms(4) [OF entry_at(1) [OF assms(1)]] obtain y where
    y: "run_bytes 0 mx (bf_length bf) seg (entry ps (bf\<lparr>bf_index := int (length pre)\<rparr>)) = Inr (Stop y)"
    "emitted (bf\<lparr>bf_index := int (length pre)\<rparr>) (ps_sequence_id ps) cl' ch' g' j t y"
    by blast
  have r: "holds (bf_buf bf) (pre @ seg @ post)" "bf_length bf = int (length (pre @ seg @ post))"
    "length (pre @ seg @ post) < 2147483648" "j < 2147483648"
    using assms(2,3) by (simp_all add: received_def)
  from exec_token [OF assms(1) r(1-3) y(1,2) r(4)] show ?thesis
    unfolding call_gives_def by blast
qed

lemma call_chunk:
  assumes b: "between bf cl ch (cp_entry q) ps" and q: "chunk_pos_ok q"
    and r: "received bf (pre @ cp_lead q @ format_X (int (length body)) @ crlf @ body @ post)"
    and body: "body \<noteq> []"
  shows "\<exists>ps'. call_gives mx bf ps (length pre)
      (length (pre @ cp_lead q @ format_X (int (length body)) @ crlf) + length body)
      (token_at HSH_TOK_BODY (length (pre @ cp_lead q @ format_X (int (length body)) @ crlf)) (length body))
      (int (length body)) ch G_End_Cr ps'"
proof -
  let ?n = "length body" and ?lead = "cp_lead q" and ?bf = "bf\<lparr>bf_index := int (length pre)\<rparr>"
  let ?hex = "format_X (int ?n)" and ?pe = "bf_length bf" and ?sq = "ps_sequence_id ps"
  let ?i = "length (pre @ ?lead @ ?hex @ crlf)"
  obtain c s where cs: "body = c # s" using body by (cases body) auto
  have tot: "?i + ?n + length post < 2147483648" "?pe = int (?i + ?n + length post)"
    using r by (simp_all add: received_def)
  have n: "0 < ?n" "int ?n < 4294967296" using tot(1) body by auto
  note hex = format_X_digits [OF n] chunk_size_read [OF n(2)]
  show ?thesis
  proof (rule exec_call_plain [OF b])
    show "received bf (pre @ (?lead @ ?hex @ crlf @ [c]) @ (s @ post))" using r by (simp add: cs)
    show "?i + ?n \<le> length (pre @ (?lead @ ?hex @ crlf @ [c]) @ (s @ post))" by (simp add: cs)
    fix x assume x: "at ?bf ?sq cl ch (cp_entry q) (length pre) x"
    obtain y where y: "run_bytes 0 mx ?pe ?lead x = Inr (Cont y)" "at ?bf ?sq cl ch (cp_start q) (length pre + length ?lead) y"
      using run_lead [OF x q] by blast
    obtain z where z: "run_bytes 0 mx ?pe (?hex @ crlf) y = Inr (Cont z)"
      "at ?bf ?sq (int ?n) ch (cp_body q) (length pre + length ?lead + length ?hex + 2) z"
      using run_size [OF y(2) q hex(1-3), of 0 mx ?pe] hex(4) by auto
    have i: "length pre + length ?lead + length ?hex + 2 = ?i" by (simp add: crlf_def)
    have "int ?i + int ?n - 1 \<le> ?pe" "int ?i + int ?n < 2147483648" using tot by simp_all
    from step_chunk [OF z(2) [unfolded i] q n(1) this, of 0 mx c] obtain u where
      u: "byte_step 0 mx ?pe c z = Inr (Stop u)"
        "emitted ?bf ?sq (int ?n) ch G_End_Cr (?i + ?n) (token_at HSH_TOK_BODY ?i ?n) u" by blast
    have "run_bytes 0 mx ?pe (?lead @ (?hex @ crlf) @ [c]) x = Inr (Stop u)"
      using y(1) z(1) u(1) by (simp add: run_bytes_append [of _ _ _ ?lead] run_bytes_append [of _ _ _ "?hex @ crlf"]
          del: append_assoc)
    with u(2) show "\<exists>y. run_bytes 0 mx ?pe (?lead @ ?hex @ crlf @ [c]) x = Inr (Stop y)
        \<and> emitted ?bf ?sq (int ?n) ch G_End_Cr (?i + ?n) (token_at HSH_TOK_BODY ?i ?n) y"
      by auto
  qed
qed

text \<open>The last chunk, of size zero.\<close>

definition final_chunk :: hsh_token_s where
  "final_chunk = \<lparr>tk_type = HSH_TOK_BODY, tk_flags = HSH_TOK_FLAG_BODY_FINAL, tk_len = 0, tk_index = 0\<rparr>"

lemma call_final:
  assumes b: "between bf cl ch (cp_entry q) ps" and q: "chunk_pos_ok q"
    and r: "received bf (pre @ cp_lead q @ ''0'' @ crlf @ post)"
  shows "\<exists>ps'. hsh_parser_exec 0 ps (bf\<lparr>bf_index := int (length pre)\<rparr>) mx
      = Inr (final_chunk, ps', bf\<lparr>bf_index := int (length (pre @ cp_lead q @ ''0'' @ crlf))\<rparr>)
    \<and> HTTP_FLAG_CHECK (ps_flags ps') HSH_P_FLAG_DONE"
proof -
  let ?lead = "cp_lead q" and ?bf = "bf\<lparr>bf_index := int (length pre)\<rparr>"
  let ?pe = "bf_length bf" and ?sq = "ps_sequence_id ps" and ?p = "length pre + length (cp_lead q)"
  note x = entry_at(1) [OF b, of "length pre"]
  obtain y where y: "run_bytes 0 mx ?pe ?lead (entry ps ?bf) = Inr (Cont y)" "at ?bf ?sq cl ch (cp_start q) ?p y"
    using run_lead [OF x q] by blast
  have g: "gstep (cp_start q) (CHR ''0'') = (cp_zero q, [])" "gstep (cp_zero q) cr = (cp_zero_lf q, [])"
    "gstep (cp_zero_lf q) lf = (cp_final q, [A_end_stream])"
    "gpos_ok (cp_zero q)" "gpos_ok (cp_zero_lf q)"
    using q by (auto simp: chunk_pos_defs expect_def gpos_ok_def)
  from step_silent [OF y(2) g(1,4), of 0 mx ?pe] obtain z where
    z: "byte_step 0 mx ?pe (CHR ''0'') y = Inr (Cont z)" "at ?bf ?sq cl ch (cp_zero q) (Suc ?p) z" by blast
  from step_silent [OF z(2) g(2,5), of 0 mx ?pe] obtain u where
    u: "byte_step 0 mx ?pe cr z = Inr (Cont u)" "at ?bf ?sq cl ch (cp_zero_lf q) (Suc (Suc ?p)) u" by blast
  have len: "int ?p + 3 < 2147483648" using r by (simp add: received_def crlf_def)
  obtain v where v: "byte_step 0 mx ?pe lf u = Inr (Stop v)" "x_p v = int ?p + 3" "x_bf v = ?bf"
    "ps_token (x_ps v) = final_chunk" "ps_flags (x_ps v) = (chunk_flags ch OR HSH_P_FLAG_TOKEN_READY) OR HSH_P_FLAG_DONE"
    using u(2) by (auto simp: at_def byte_step_gstep [OF _ _ g(3)] act_end_stream_def Let_def fbreak_def set_ready_def
        set_done_def final_chunk_def flag_ops)
  have "run_bytes 0 mx ?pe (?lead @ ''0'' @ crlf) (entry ps ?bf) = Inr (Stop v)"
    using y(1) z(1) u(1) v(1) by (simp add: run_bytes_append crlf_def)
  note run = this
  have "scan 0 mx ?pe (entry ps ?bf) = Inr v"
    by (rule scan_stops [where pre = pre and seg = "?lead @ ''0'' @ crlf" and post = post, OF _ _ _ run])
      (use r in \<open>simp_all add: received_def entry_def\<close>)
  moreover have "gcode (cp_entry q) \<noteq> 0" using b gcode_pos [of "cp_entry q"] by (simp add: between_def)
  ultimately have sc: "scan_exec 0 mx ?pe (entry ps ?bf) = Inr v"
    using r b by (simp add: scan_exec_def entry_def between_def hsh_http_error_def received_def)
  have fl: "HTTP_FLAG_CHECK (ps_flags (x_ps v)) HSH_P_FLAG_TOKEN_READY"
    "HTTP_FLAG_CHECK (HTTP_FLAG_CLEAR (ps_flags (x_ps v)) HSH_P_FLAG_TOKEN_READY) HSH_P_FLAG_DONE"
    by (simp_all add: v(5) chunk_flags_def flag_ops parser_flags)
  have i: "i32 (int ?p + 3) = int ?p + 3" using len by (simp add: i32_id)
  show ?thesis using b sc v(2-4) fl i
    by (auto simp: hsh_parser_exec_def entry_def between_def chunk_flags_simps Let_def crlf_def)
qed

section \<open>Chunked bodies\<close>

text \<open>The same bytes, cut where the calls cut them.\<close>

primrec chunk_lines :: "string \<Rightarrow> string list \<Rightarrow> string" where
  "chunk_lines lead [] = lead @ ''0'' @ crlf"
| "chunk_lines lead (b # bs) = lead @ format_X (int (length b)) @ crlf @ b @ chunk_lines crlf bs"

lemma chunk_lines_lead: "chunk_lines lead bs = lead @ chunk_lines [] bs"
  by (cases bs) simp_all

lemma chunk_lines_frames: "concat (map chunk_frame bs) @ ''0'' @ crlf = chunk_lines [] bs"
  by (induction bs) (simp_all add: chunk_frame_def chunk_lines_lead [of crlf])

lemma parse_chunk_lines:
  assumes "between bf cl ch (cp_entry q) ps" and "chunk_pos_ok q"
    and "received bf (pre @ chunk_lines (cp_lead q) bs @ post)" and "list_all (\<lambda>b. b \<noteq> []) bs"
  shows "\<exists>ts ps'. parse_tokens (length bs + 1) 0 mx ps (bf\<lparr>bf_index := int (length pre)\<rparr>)
      = Inr (ts @ [final_chunk], ps', bf\<lparr>bf_index := int (length (pre @ chunk_lines (cp_lead q) bs))\<rparr>)
    \<and> map (slice (pre @ chunk_lines (cp_lead q) bs @ post)) ts = map (Pair HSH_TOK_BODY) bs
    \<and> HTTP_FLAG_CHECK (ps_flags ps') HSH_P_FLAG_DONE"
  using assms
proof (induction bs arbitrary: pre cl q ps)
  case Nil
  then obtain ps' where "hsh_parser_exec 0 ps (bf\<lparr>bf_index := int (length pre)\<rparr>) mx
      = Inr (final_chunk, ps', bf\<lparr>bf_index := int (length (pre @ cp_lead q @ ''0'' @ crlf))\<rparr>)"
    "HTTP_FLAG_CHECK (ps_flags ps') HSH_P_FLAG_DONE"
    using call_final [OF Nil.prems(1,2), of pre post mx] by auto
  then show ?case by (intro exI [of _ "[]"] exI [of _ ps']) simp
next
  case (Cons b bs)
  let ?head = "pre @ cp_lead q @ format_X (int (length b)) @ crlf"
  let ?rest = "chunk_lines crlf bs"
  have r: "received bf (pre @ cp_lead q @ format_X (int (length b)) @ crlf @ b @ (?rest @ post))"
    using Cons.prems(3) by simp
  have "b \<noteq> []" using Cons.prems(4) by simp
  from call_chunk [OF Cons.prems(1,2) r this, of mx] obtain ps1 where
    c: "call_gives mx bf ps (length pre) (length ?head + length b) (token_at HSH_TOK_BODY (length ?head) (length b))
      (int (length b)) ch G_End_Cr ps1" by blast
  note c1 = call_gives_tokens [OF c]
  have len: "length ?head + length b = length (?head @ b)" by simp
  have later: "cp_entry later_chunk = G_End_Cr" "cp_lead later_chunk = crlf" "chunk_pos_ok later_chunk"
    by (simp_all add: later_chunk_def chunk_pos_ok_def)
  have r2: "received bf ((?head @ b) @ chunk_lines (cp_lead later_chunk) bs @ post)" using r later by simp
  have b2: "between bf (int (length b)) ch (cp_entry later_chunk) ps1" using c1 later by simp
  have ne: "list_all (\<lambda>b. b \<noteq> []) bs" using Cons.prems(4) by simp
  from Cons.IH [OF b2 later(3) r2 ne] obtain ts ps' where
    t: "parse_tokens (length bs + 1) 0 mx ps1 (bf\<lparr>bf_index := int (length (?head @ b))\<rparr>)
      = Inr (ts @ [final_chunk], ps', bf\<lparr>bf_index := int (length ((?head @ b) @ ?rest))\<rparr>)"
      "map (slice ((?head @ b) @ ?rest @ post)) ts = map (Pair HSH_TOK_BODY) bs"
      "HTTP_FLAG_CHECK (ps_flags ps') HSH_P_FLAG_DONE"
    unfolding later(2) by blast
  let ?t = "token_at HSH_TOK_BODY (length ?head) (length b)"
  have data: "pre @ chunk_lines (cp_lead q) (b # bs) = (?head @ b) @ ?rest" by simp
  have "parse_tokens (1 + (length bs + 1)) 0 mx ps (bf\<lparr>bf_index := int (length pre)\<rparr>)
      = Inr ([?t] @ (ts @ [final_chunk]), ps', bf\<lparr>bf_index := int (length ((?head @ b) @ ?rest))\<rparr>)"
    by (rule parse_tokens_append [OF c1 [THEN conjunct1, unfolded len] t(1)])
  moreover have "slice ((?head @ b) @ ?rest @ post) ?t = (HSH_TOK_BODY, b)"
    using token_at_slice [of "length b" b "length ?head" ?head] by simp
  moreover have "pre @ chunk_lines (cp_lead q) (b # bs) @ post = (?head @ b) @ ?rest @ post" by simp
  moreover have "length (b # bs) + 1 = 1 + (length bs + 1)" by simp
  moreover have "?t # ts @ [final_chunk] = [?t] @ (ts @ [final_chunk])" by simp
  ultimately have "parse_tokens (length (b # bs) + 1) 0 mx ps (bf\<lparr>bf_index := int (length pre)\<rparr>)
      = Inr ((?t # ts) @ [final_chunk], ps', bf\<lparr>bf_index := int (length (pre @ chunk_lines (cp_lead q) (b # bs)))\<rparr>)
    \<and> map (slice (pre @ chunk_lines (cp_lead q) (b # bs) @ post)) (?t # ts) = map (Pair HSH_TOK_BODY) (b # bs)"
    using t(2) data by (simp only: list.map append_Cons)
  with t(3) show ?case by blast
qed

text \<open>
  C27. A chunked body that has been received as a whole is parsed into its chunks. The chunks are
  framed by \<open>chunk_frame\<close>, the form in which the response side sends them, and closed by
  the zero chunk: each call returns one chunk, in order and unchanged, then comes the empty final
  token, the parser is done, and the cursor is behind the zero chunk.
\<close>

theorem parse_chunks:
  assumes "between bf cl True G_Ck_Size_Start ps"
    and "received bf (pre @ concat (map chunk_frame bs) @ ''0'' @ crlf @ post)" and "list_all (\<lambda>b. b \<noteq> []) bs"
  shows "\<exists>ts ps'. parse_tokens (length bs + 1) 0 mx ps (bf\<lparr>bf_index := int (length pre)\<rparr>)
      = Inr (ts @ [final_chunk], ps',
          bf\<lparr>bf_index := int (length (pre @ concat (map chunk_frame bs) @ ''0'' @ crlf))\<rparr>)
    \<and> map (slice (pre @ concat (map chunk_frame bs) @ ''0'' @ crlf @ post)) ts = map (Pair HSH_TOK_BODY) bs
    \<and> HTTP_FLAG_CHECK (ps_flags ps') HSH_P_FLAG_DONE"
proof -
  have first: "cp_entry first_chunk = G_Ck_Size_Start" "cp_lead first_chunk = []" "chunk_pos_ok first_chunk"
    by (simp_all add: first_chunk_def chunk_pos_ok_def)
  have data: "concat (map chunk_frame bs) @ ''0'' @ crlf @ p = chunk_lines [] bs @ p" for p
    using chunk_lines_frames [of bs] by (metis append_assoc)
  have "between bf cl True (cp_entry first_chunk) ps"
    "received bf (pre @ chunk_lines (cp_lead first_chunk) bs @ post)"
    using assms(1,2) unfolding first data by simp_all
  from parse_chunk_lines [OF this(1) first(3) this(2) assms(3), of mx]
  show ?thesis unfolding first data chunk_lines_frames .
qed

definition chunked_parser :: "int \<Rightarrow> gpos \<Rightarrow> hsh_parser_s" where
  "chunked_parser cl g = hsh_parser_init\<lparr>ps_state := gcode g, ps_flags := HSH_P_FLAG_CHUNKED, ps_content_length := cl\<rparr>"

lemma chunked_parser_between:
  assumes "gpos_ok g" and "bf_sequence_id bf \<noteq> 0"
  shows "between bf cl True g (chunked_parser cl g)"
  using assms by (simp add: between_def chunked_parser_def hsh_parser_init_def parser_zero_def chunk_flags_def)

definition holding :: "string \<Rightarrow> hsh_buffer_s" where
  "holding data = buffer_zero\<lparr>bf_buf := Some (map Some data @ replicate 64 None),
     bf_capacity := int (length data) + 64, bf_length := int (length data), bf_sequence_id := 1\<rparr>"

lemma holding_received: "length data < 2147483648 \<Longrightarrow> received (holding data) data"
  by (simp add: received_def holding_def holds_def)

lemma two_chunks: "concat (map chunk_frame [''ab'', ''c'']) = ''2'' @ crlf @ ''ab'' @ crlf @ ''1'' @ crlf @ ''c'' @ crlf"
  by code_simp

theorem parse_chunks_witness:
  "\<exists>ts ps'. parse_tokens 3 0 8388608 (chunked_parser 0 G_Ck_Size_Start)
        (holding (''2'' @ crlf @ ''ab'' @ crlf @ ''1'' @ crlf @ ''c'' @ crlf @ ''0'' @ crlf))
      = Inr (ts @ [final_chunk], ps',
          (holding (''2'' @ crlf @ ''ab'' @ crlf @ ''1'' @ crlf @ ''c'' @ crlf @ ''0'' @ crlf))\<lparr>bf_index := 16\<rparr>)
    \<and> map (slice (''2'' @ crlf @ ''ab'' @ crlf @ ''1'' @ crlf @ ''c'' @ crlf @ ''0'' @ crlf)) ts
      = [(HSH_TOK_BODY, ''ab''), (HSH_TOK_BODY, ''c'')]"
proof -
  let ?s = "concat (map chunk_frame [''ab'', ''c'']) @ ''0'' @ crlf"
  have s: "?s = ''2'' @ crlf @ ''ab'' @ crlf @ ''1'' @ crlf @ ''c'' @ crlf @ ''0'' @ crlf"
    by (simp only: two_chunks append_assoc)
  have "length ?s = 16" unfolding s by (simp add: crlf_def)
  then have "received (holding ?s) ([] @ concat (map chunk_frame [''ab'', ''c'']) @ ''0'' @ crlf @ [])"
    using holding_received [of ?s] by simp
  moreover have "between (holding ?s) 0 True G_Ck_Size_Start (chunked_parser 0 G_Ck_Size_Start)"
    by (rule chunked_parser_between) (simp_all add: gpos_ok_def holding_def)
  ultimately have "\<exists>ts ps'. parse_tokens (length [''ab'', ''c''] + 1) 0 8388608 (chunked_parser 0 G_Ck_Size_Start)
        ((holding ?s)\<lparr>bf_index := int (length ([] :: string))\<rparr>)
      = Inr (ts @ [final_chunk], ps', (holding ?s)\<lparr>bf_index := int (length ([] @ ?s))\<rparr>)
    \<and> map (slice ([] @ ?s @ [])) ts = map (Pair HSH_TOK_BODY) [''ab'', ''c'']
    \<and> HTTP_FLAG_CHECK (ps_flags ps') HSH_P_FLAG_DONE"
    using parse_chunks [of "holding ?s" 0 "chunked_parser 0 G_Ck_Size_Start" "[]" "[''ab'', ''c'']" "[]" 8388608]
    by (simp only: append_Nil append_Nil2 append_assoc list_all_iff) simp
  moreover have "(holding ?s)\<lparr>bf_index := int (length ([] :: string))\<rparr> = holding ?s"
    by (simp add: holding_def buffer_zero_def)
  moreover have "length [''ab'', ''c''] + 1 = 3" "int (length ([] @ ?s)) = 16"
    using \<open>length ?s = 16\<close> by simp_all
  ultimately show ?thesis unfolding s
    by (simp only: append_Nil append_Nil2 list.map) (elim exE conjE, intro exI conjI, assumption+)
qed











end
