(* ===== verification/Connection.thy ===== *)
theory Connection
  imports World
begin

text \<open>
  \<^verbatim>\<open>src/src/connection.c\<close>: accepting a connection, allocating its request, and
  terminating it. The two builds watch a connection differently: with epoll each request has a
  timer descriptor of its own, with kqueue the timer is a filter on its socket.
\<close>

definition hs_delete_events_kqueue :: "http_request_s \<Rightarrow> world \<Rightarrow> world" where
  "hs_delete_events_kqueue request w = os_log (Kevent (rq_socket request) EVFILT_TIMER EV_DELETE) w"

definition hs_delete_events :: "http_request_s \<Rightarrow> world \<Rightarrow> world" where
  "hs_delete_events request w =
     (case w_build w of
        KQUEUE \<Rightarrow> hs_delete_events_kqueue request w
      | EPOLL \<Rightarrow>
          os_log (Close (rq_timerfd request))
            (os_log (Epoll_Del (rq_timerfd request)) (os_log (Epoll_Del (rq_socket request)) w)))"

definition hs_add_timer_event_kqueue :: "ptr \<Rightarrow> world \<Rightarrow> world result" where
  "hs_add_timer_event_kqueue r w =
     bindr (deref r w) (\<lambda>request.
       Inr (os_log (Kevent (rq_socket request) EVFILT_TIMER EV_ADD_ENABLE) w))"

definition hs_add_timer_event :: "ptr \<Rightarrow> io_cb option \<Rightarrow> world \<Rightarrow> world result" where
  "hs_add_timer_event r timer_cb w =
     (case w_build w of
        KQUEUE \<Rightarrow> hs_add_timer_event_kqueue r w
      | EPOLL \<Rightarrow>
          bindr (modify r (\<lambda>rq. rq\<lparr>rq_timer_handler := timer_cb\<rparr>) w) (\<lambda>w.
            bindr (deref r w) (\<lambda>request.
              let w = os_log (Epoll_Add (rq_socket request)) w;
                  (tfd, w) = os_new_fd w;
                  w = os_log (Timerfd_Create tfd) w;
                  w = os_log (Epoll_Add tfd) w
              in modify r (\<lambda>rq. rq\<lparr>rq_timerfd := tfd\<rparr>) w)))"

text \<open>Freeing the request takes it out of the heap: each later access through the pointer is a fault.\<close>

definition hs_request_terminate_connection :: "ptr \<Rightarrow> world \<Rightarrow> world result" where
  "hs_request_terminate_connection r w =
     bindr (deref r w) (\<lambda>request.
       let w = hs_delete_events request w;
           w = os_log (Close (rq_socket request)) w;
           (bf, memused) = hs_buffer_free (rq_buffer request) (w_memused w);
           w = set_memused memused w
       in Inr (w\<lparr>w_heap := (w_heap w)(r := None)\<rparr>))"

definition hs_token_array_init :: "int \<Rightarrow> hs_token_array_s" where
  "hs_token_array_init capacity =
     \<lparr>ta_buf = malloc_block capacity, ta_capacity = capacity, ta_size = 0\<rparr>"

definition hs_request_init :: "int \<Rightarrow> io_cb \<Rightarrow> http_request_s" where
  "hs_request_init sock io_callback =
     \<lparr>rq_handler = io_callback, rq_timer_handler = None, rq_chunk_cb = None, rq_data = 0,
      rq_buffer = buffer_zero, rq_parser = parser_zero, rq_tokens = hs_token_array_init 32,
      rq_state = HTTP_SESSION_INIT, rq_socket = sock, rq_timerfd = 0,
      rq_timeout = HTTP_REQUEST_TIMEOUT, rq_bytes_written = 0, rq_flags = HTTP_AUTOMATIC\<rparr>"

text \<open>A new request goes to the next unused address; \<open>None\<close> is the \<open>NULL\<close> that is returned without a connection.\<close>

definition hs_server_accept_connection :: "io_cb \<Rightarrow> io_cb option \<Rightarrow> world \<Rightarrow> (ptr option \<times> world) result" where
  "hs_server_accept_connection io_callback timer_cb w =
     (let (sock, accepts) = (case w_accepts w of [] \<Rightarrow> (- 1, []) | s # ss \<Rightarrow> (s, ss));
          w = os_log (Accept sock) (w\<lparr>w_accepts := accepts\<rparr>)
      in if 0 < sock
         then let w = os_log (Set_Nonblock sock) w;
                  r = w_next w;
                  w = assign r (hs_request_init sock io_callback) (w\<lparr>w_next := Suc r\<rparr>)
              in bindr (hs_add_timer_event r timer_cb w) (\<lambda>w. Inr (Some r, w))
         else Inr (None, w))"

end
