(* ===== verification/Server.thy ===== *)
theory Server
  imports World Clock
begin

text \<open>
  \<^verbatim>\<open>src/src/server.c\<close>, in both builds: creating the server, listening, and
  waiting for events. The event loop calls the handler that is stored where the event's data
  pointer points. The outcome of \<open>bind\<close>, the time in seconds that
  \<open>time\<close> returns and the events that \<open>epoll_wait\<close> reports come from outside and are arguments.
\<close>

text \<open>\<open>htons\<close>: the argument is converted to 16 bits, and its high byte comes first.\<close>

definition htons :: "int \<Rightarrow> 8 word \<times> 8 word" where
  "htons n = (word_of_int (n div 256), word_of_int n)"

definition INADDR_ANY :: "32 word" where "INADDR_ANY = 0"

text \<open>
  \<open>ipaddr\<close> is what \<open>inet_addr\<close> makes of the address that the user gives, \<open>None\<close> for the
  null pointer. The address structure is the one of the server.
\<close>

definition hs_bind_localhost :: "32 word option \<Rightarrow> int \<Rightarrow> bool \<Rightarrow> int \<Rightarrow> world \<Rightarrow> world result" where
  "hs_bind_localhost ipaddr port bind_ok s w =
     (let addr = \<lparr>sin_family = AF_INET,
            sin_addr = (case ipaddr of None \<Rightarrow> INADDR_ANY | Some a \<Rightarrow> a),
            sin_port = htons port\<rparr>;
          w = w\<lparr>w_server := (w_server w)\<lparr>sv_addr := addr\<rparr>\<rparr>;
          w = os_log (Bind s addr) w
      in if bind_ok then Inr w else Inl Process_Exit)"

definition hs_server_init_events_kqueue :: "http_server_s \<Rightarrow> world \<Rightarrow> http_server_s \<times> world" where
  "hs_server_init_events_kqueue serv w =
     (let (loop, w) = os_new_fd w
      in (serv\<lparr>sv_loop := loop\<rparr>, os_log (Kevent 1 EVFILT_TIMER EV_ADD_ENABLE) (os_log Kqueue_Create w)))"

definition hs_server_init_events :: "io_cb option \<Rightarrow> http_server_s \<Rightarrow> world \<Rightarrow> http_server_s \<times> world" where
  "hs_server_init_events timer_cb serv w =
     (case w_build w of
        KQUEUE \<Rightarrow> hs_server_init_events_kqueue serv w
      | EPOLL \<Rightarrow>
             (let (loop, w) = os_new_fd w;
                  w = os_log Epoll_Create w;
                  serv = serv\<lparr>sv_loop := loop, sv_timer_handler := timer_cb\<rparr>;
                  (tfd, w) = os_new_fd w;
                  w = os_log (Timerfd_Create tfd) w;
                  w = os_log (Epoll_Add tfd) w
              in (serv\<lparr>sv_timerfd := tfd\<rparr>, w)))"

definition hs_add_server_sock_events_kqueue :: "world \<Rightarrow> world" where
  "hs_add_server_sock_events_kqueue w =
     os_log (Kevent (sv_socket (w_server w)) EVFILT_READ EV_ADD_CLEAR) w"

definition hs_add_server_sock_events :: "world \<Rightarrow> world" where
  "hs_add_server_sock_events w =
     (case w_build w of
        KQUEUE \<Rightarrow> hs_add_server_sock_events_kqueue w
      | EPOLL \<Rightarrow> os_log (Epoll_Add (sv_socket (w_server w))) w)"

definition hs_server_listen_on_addr :: "32 word option \<Rightarrow> bool \<Rightarrow> world \<Rightarrow> world result" where
  "hs_server_listen_on_addr ipaddr bind_ok w =
     (let w = os_log Ignore_Sigpipe w;
          (s, w) = os_new_fd w;
          w = os_log (Socket_Create s) w;
          w = w\<lparr>w_server := (w_server w)\<lparr>sv_socket := s\<rparr>\<rparr>;
          w = os_log (Set_Reuseport s) w
      in bindr (hs_bind_localhost ipaddr (sv_port (w_server w)) bind_ok s w) (\<lambda>w.
           let w = w\<lparr>w_server := (w_server w)\<lparr>sv_len := 16\<rparr>\<rparr>
           in Inr (hs_add_server_sock_events (os_log (Listen s) (os_log (Set_Nonblock s) w)))))"

text \<open>\<open>now\<close> is what \<open>time\<close> returns.\<close>

definition hs_generate_date_time :: "int \<Rightarrow> http_server_s \<Rightarrow> http_server_s" where
  "hs_generate_date_time now serv = serv\<lparr>sv_date := date_line (gmtime now)\<rparr>"

text \<open>\<open>serv\<close> is the content of the fresh block: fields that are not set keep it.\<close>

definition hs_server_init ::
    "http_server_s \<Rightarrow> int \<Rightarrow> fnptr \<Rightarrow> io_cb \<Rightarrow> io_cb option \<Rightarrow> int \<Rightarrow> world \<Rightarrow> world"
  where
  "hs_server_init serv port handler accept_cb epoll_timer_cb now w =
     (let serv = serv\<lparr>sv_port := port, sv_memused := 0, sv_handler := accept_cb\<rparr>;
          (serv, w) = hs_server_init_events epoll_timer_cb serv w;
          serv = hs_generate_date_time now serv;
          serv = serv\<lparr>sv_request_handler := handler\<rparr>
      in w\<lparr>w_server := serv\<rparr>)"

section \<open>Events\<close>

text \<open>
  What an event is about; the clock comes with the server's timer. The data pointer of an epoll
  event points at one of the two handlers of the server or of a request. With kqueue it points
  at the server or the request itself, which has one handler for all its events.
\<close>

datatype event =
    Ev_Server_Socket
  | Ev_Server_Timer int
  | Ev_Request ptr
  | Ev_Request_Timer ptr

definition event_handler_kqueue :: "event \<Rightarrow> world \<Rightarrow> io_cb result" where
  "event_handler_kqueue ev w =
     (case ev of
        Ev_Server_Socket \<Rightarrow> Inr (sv_handler (w_server w))
      | Ev_Server_Timer now \<Rightarrow> Inr (sv_handler (w_server w))
      | Ev_Request r \<Rightarrow> bindr (deref r w) (\<lambda>rq. Inr (rq_handler rq))
      | Ev_Request_Timer r \<Rightarrow> bindr (deref r w) (\<lambda>rq. Inr (rq_handler rq)))"

definition event_handler_epoll :: "event \<Rightarrow> world \<Rightarrow> io_cb result" where
  "event_handler_epoll ev w =
     (case ev of
        Ev_Server_Socket \<Rightarrow> Inr (sv_handler (w_server w))
      | Ev_Server_Timer now \<Rightarrow>
          (case sv_timer_handler (w_server w) of None \<Rightarrow> Inl Null_Pointer | Some h \<Rightarrow> Inr h)
      | Ev_Request r \<Rightarrow> bindr (deref r w) (\<lambda>rq. Inr (rq_handler rq))
      | Ev_Request_Timer r \<Rightarrow> bindr (deref r w) (\<lambda>rq.
          case rq_timer_handler rq of None \<Rightarrow> Inl Null_Pointer | Some h \<Rightarrow> Inr h))"

definition event_handler :: "event \<Rightarrow> world \<Rightarrow> io_cb result" where
  "event_handler ev w =
     (case w_build w of KQUEUE \<Rightarrow> event_handler_kqueue ev w | EPOLL \<Rightarrow> event_handler_epoll ev w)"

type_synonym handlers = "io_cb \<Rightarrow> event \<Rightarrow> world \<Rightarrow> world result"

definition handle_event :: "handlers \<Rightarrow> event \<Rightarrow> world \<Rightarrow> world result" where
  "handle_event run ev w = bindr (event_handler ev w) (\<lambda>h. run h ev w)"

text \<open>One non-blocking poll; \<open>None\<close> means that \<open>epoll_wait\<close> reported no event or failed.\<close>

definition hs_server_poll_events :: "handlers \<Rightarrow> event option \<Rightarrow> world \<Rightarrow> world result" where
  "hs_server_poll_events run ev w =
     (case ev of None \<Rightarrow> Inr w | Some ev \<Rightarrow> handle_event run ev w)"

text \<open>The loop never returns; \<open>event_loop run evs\<close> is the loop up to the events \<open>evs\<close>.\<close>

primrec event_loop :: "handlers \<Rightarrow> event list \<Rightarrow> world \<Rightarrow> world result" where
  "event_loop run [] w = Inr w"
| "event_loop run (ev # evs) w = bindr (handle_event run ev w) (event_loop run evs)"

lemma event_loop_append: "event_loop run (xs @ ys) v = bindr (event_loop run xs v) (event_loop run ys)"
proof (induction xs arbitrary: v)
  case (Cons x xs)
  then show ?case by (cases "handle_event run x v") simp_all
qed simp

definition hs_server_run_event_loop :: "handlers \<Rightarrow> 32 word option \<Rightarrow> bool \<Rightarrow> event list \<Rightarrow> world \<Rightarrow> world result" where
  "hs_server_run_event_loop run ipaddr bind_ok evs w =
     bindr (hs_server_listen_on_addr ipaddr bind_ok w) (event_loop run evs)"

end
