(* ===== verification/Io_Events.thy ===== *)
theory Io_Events
  imports Read_Socket Write_Socket Respond Connection Server
begin

text \<open>
  \<^verbatim>\<open>src/src/io_events.c\<close>: what happens on an event, and the cycle of reading a request
  and writing a response. The functions of the file call each other and the user's callbacks
  recursively. Each is defined here over the functions it calls, as arguments; the recursion is
  closed in \<open>Api\<close>, where the user's code comes in.
\<close>

definition HTTP_REQUEST_BUF_SIZE :: int where "HTTP_REQUEST_BUF_SIZE = 1024"
definition HTTP_MAX_REQUEST_BUF_SIZE :: int where "HTTP_MAX_REQUEST_BUF_SIZE = 8388608"
definition HTTP_MAX_TOTAL_EST_MEM_USAGE :: int where "HTTP_MAX_TOTAL_EST_MEM_USAGE = 4294967296"

definition read_opts :: hs_read_opts_s where
  "read_opts = \<lparr>op_max_request_buf_capacity = HTTP_MAX_REQUEST_BUF_SIZE, op_eof_rc = 0,
     op_initial_request_buf_capacity = HTTP_REQUEST_BUF_SIZE\<rparr>"

section \<open>Reading and writing\<close>

definition hs_read_socket_and_handle_return_code :: "callback \<Rightarrow> req_fn \<Rightarrow> req_fn" where
  "hs_read_socket_and_handle_return_code call begin_write request w =
     bindr (hs_read_request_and_exec_user_cb call request read_opts w) (\<lambda>(rc, w).
       case rc of
         HS_READ_RC_PARSE_ERR \<Rightarrow> hs_request_respond_error request 400 ''Bad Request'' begin_write w
       | HS_READ_RC_SOCKET_ERR \<Rightarrow> hs_request_terminate_connection request w
       | HS_READ_RC_SUCCESS \<Rightarrow> Inr w)"

text \<open>\<open>_hs_buffer_free(&request->buffer, &request->server->memused)\<close>.\<close>

definition request_buffer_free :: "ptr \<Rightarrow> world \<Rightarrow> world result" where
  "request_buffer_free request w =
     bindr (deref request w) (\<lambda>rq.
       let (bf, memused) = hs_buffer_free (rq_buffer rq) (w_memused w)
       in Inr (assign request (rq\<lparr>rq_buffer := bf\<rparr>) (set_memused memused w)))"

definition hs_write_socket_and_handle_return_code :: "callback \<Rightarrow> req_fn \<Rightarrow> req_fn" where
  "hs_write_socket_and_handle_return_code call begin_read request w =
     bindr (hs_write_socket request w) (\<lambda>(rc, w).
       bindr (modify request (\<lambda>rq. rq\<lparr>rq_timeout :=
                if rc = HS_WRITE_RC_SUCCESS then HTTP_KEEP_ALIVE_TIMEOUT else HTTP_REQUEST_TIMEOUT\<rparr>) w) (\<lambda>w.
         bindr (if rc \<noteq> HS_WRITE_RC_CONTINUE then request_buffer_free request w else Inr w) (\<lambda>w.
           case rc of
             HS_WRITE_RC_SUCCESS_CLOSE \<Rightarrow> hs_request_terminate_connection request w
           | HS_WRITE_RC_SOCKET_ERR \<Rightarrow> hs_request_terminate_connection request w
           | HS_WRITE_RC_SUCCESS \<Rightarrow> begin_read request w
           | HS_WRITE_RC_SUCCESS_CHUNK \<Rightarrow> exec_chunk_cb call request w
           | HS_WRITE_RC_CONTINUE \<Rightarrow> Inr w)))"

definition hs_add_write_event_kqueue :: "ptr \<Rightarrow> world \<Rightarrow> world result" where
  "hs_add_write_event_kqueue request w =
     bindr (deref request w) (\<lambda>rq. Inr (
       os_log (Kevent (rq_socket rq) EVFILT_READ EV_DISABLE)
         (os_log (Kevent (rq_socket rq) EVFILT_WRITE EV_ADD_CLEAR) w)))"

definition hs_add_write_event :: "ptr \<Rightarrow> world \<Rightarrow> world result" where
  "hs_add_write_event request w =
     (case w_build w of
        KQUEUE \<Rightarrow> hs_add_write_event_kqueue request w
      | EPOLL \<Rightarrow> bindr (deref request w) (\<lambda>rq. Inr (os_log (Epoll_Mod_Write (rq_socket rq)) w)))"

definition hs_request_begin_write :: "req_fn \<Rightarrow> req_fn" where
  "hs_request_begin_write write_socket_and_handle_return_code request w =
     bindr (modify request (\<lambda>rq. rq\<lparr>rq_state := HTTP_SESSION_WRITE\<rparr>) w) (\<lambda>w.
       bindr (hs_add_write_event request w) (\<lambda>w.
         write_socket_and_handle_return_code request w))"

definition hs_add_read_event_kqueue :: "ptr \<Rightarrow> world \<Rightarrow> world result" where
  "hs_add_read_event_kqueue request w =
     bindr (deref request w) (\<lambda>rq. Inr (os_log (Kevent (rq_socket rq) EVFILT_READ EV_ADD_ENABLE) w))"

definition hs_add_read_event :: "ptr \<Rightarrow> world \<Rightarrow> world result" where
  "hs_add_read_event request w =
     (case w_build w of
        KQUEUE \<Rightarrow> hs_add_read_event_kqueue request w
      | EPOLL \<Rightarrow> bindr (deref request w) (\<lambda>rq. Inr (os_log (Epoll_Mod_Read (rq_socket rq)) w)))"

definition hs_request_begin_read :: "req_fn \<Rightarrow> req_fn" where
  "hs_request_begin_read read_socket_and_handle_return_code request w =
     bindr (modify request (\<lambda>rq. rq\<lparr>rq_state := HTTP_SESSION_READ\<rparr>) w) (\<lambda>w.
       bindr (hs_add_read_event request w) (\<lambda>w.
         read_socket_and_handle_return_code request w))"

section \<open>Accepting\<close>

text \<open>
  The loop ends when \<open>accept\<close> fails. Only \<open>accept\<close> consumes the script of its results,
  so one round for each of them and a last one are enough.
\<close>

primrec accept_loop :: "nat \<Rightarrow> req_fn \<Rightarrow> req_fn \<Rightarrow> io_cb \<Rightarrow> io_cb option \<Rightarrow> world \<Rightarrow> world result" where
  "accept_loop 0 begin_write begin_read on_client on_timer w = Inl Out_Of_Fuel"
| "accept_loop (Suc n) begin_write begin_read on_client on_timer w =
     bindr (hs_server_accept_connection on_client on_timer w) (\<lambda>(request, w).
       case request of
         None \<Rightarrow> Inr w
       | Some r \<Rightarrow>
           bindr (if w_memused w > HTTP_MAX_TOTAL_EST_MEM_USAGE
                  then hs_request_respond_error r 503 ''Service Unavailable'' begin_write w
                  else begin_read r w) (\<lambda>w.
             accept_loop n begin_write begin_read on_client on_timer w))"

definition hs_accept_and_begin_request_cycle :: "req_fn \<Rightarrow> req_fn \<Rightarrow> io_cb \<Rightarrow> io_cb option \<Rightarrow> world \<Rightarrow> world result" where
  "hs_accept_and_begin_request_cycle begin_write begin_read on_client on_timer w =
     accept_loop (Suc (length (w_accepts w))) begin_write begin_read on_client on_timer w"

section \<open>Event handlers\<close>

definition hs_on_epoll_client_connection_event :: "req_fn \<Rightarrow> req_fn \<Rightarrow> req_fn" where
  "hs_on_epoll_client_connection_event read_socket write_socket request w =
     bindr (deref request w) (\<lambda>rq.
       case rq_state rq of
         HTTP_SESSION_READ \<Rightarrow> read_socket request w
       | HTTP_SESSION_WRITE \<Rightarrow> write_socket request w
       | _ \<Rightarrow> Inr w)"

text \<open>The expiration count read from the timer goes to a local variable that is not used.\<close>

definition hs_on_epoll_request_timer_event :: req_fn where
  "hs_on_epoll_request_timer_event request w =
     bindr (modify request (\<lambda>rq. rq\<lparr>rq_timeout := i32 (rq_timeout rq - 1)\<rparr>) w) (\<lambda>w.
       bindr (deref request w) (\<lambda>rq.
         if rq_timeout rq = 0 then hs_request_terminate_connection request w else Inr w))"

definition hs_on_epoll_server_connection_event :: "req_fn \<Rightarrow> req_fn \<Rightarrow> world \<Rightarrow> world result" where
  "hs_on_epoll_server_connection_event begin_write begin_read w =
     hs_accept_and_begin_request_cycle begin_write begin_read On_Client_Connection (Some On_Request_Timer) w"

definition hs_on_epoll_server_timer_event :: "int \<Rightarrow> world \<Rightarrow> world result" where
  "hs_on_epoll_server_timer_event now w = Inr (w\<lparr>w_server := hs_generate_date_time now (w_server w)\<rparr>)"

section \<open>Event handlers of the kqueue build\<close>

text \<open>Timer and socket events come to the same handler, with the filter that fired.\<close>

definition hs_on_kqueue_client_connection_event :: "req_fn \<Rightarrow> req_fn \<Rightarrow> kqueue_filter \<Rightarrow> req_fn" where
  "hs_on_kqueue_client_connection_event read_socket write_socket filt request w =
     (if filt = EVFILT_TIMER then
        bindr (modify request (\<lambda>rq. rq\<lparr>rq_timeout := i32 (rq_timeout rq - 1)\<rparr>) w) (\<lambda>w.
          bindr (deref request w) (\<lambda>rq.
            if rq_timeout rq = 0 then hs_request_terminate_connection request w else Inr w))
      else
        bindr (deref request w) (\<lambda>rq.
          if rq_state rq = HTTP_SESSION_READ then read_socket request w
          else if rq_state rq = HTTP_SESSION_WRITE then write_socket request w
          else Inr w))"

definition hs_on_kqueue_server_event :: "req_fn \<Rightarrow> req_fn \<Rightarrow> kqueue_filter \<Rightarrow> int \<Rightarrow> world \<Rightarrow> world result" where
  "hs_on_kqueue_server_event begin_write begin_read filt now w =
     (if filt = EVFILT_TIMER then Inr (w\<lparr>w_server := hs_generate_date_time now (w_server w)\<rparr>)
      else hs_accept_and_begin_request_cycle begin_write begin_read On_Kqueue_Client None w)"

end
