(* ===== verification/Api.thy ===== *)
theory Api
  imports Io_Events
begin

text \<open>
  \<^verbatim>\<open>src/src/api.c\<close>, the interface to the user's code, and the recursion between that
  code and the server.

  The user's code is a parameter: \<open>user f r w\<close> is what the callback \<open>f\<close> does when it is
  called for the request \<open>r\<close> in the state \<open>w\<close>, a sequence of calls of the interface
  each of which may depend on the state it is made in. Calls that only look are not listed:
  their results are functions of the state.
\<close>

section \<open>Calls of the interface\<close>

definition http_request_has_flag :: "http_request_s \<Rightarrow> 8 word \<Rightarrow> bool" where
  "http_request_has_flag request flag = HTTP_FLAG_CHECK (rq_flags request) flag"

definition http_request_free_buffer :: req_fn where
  "http_request_free_buffer request w = request_buffer_free request w"

definition http_request_userdata :: "http_request_s \<Rightarrow> nat" where
  "http_request_userdata request = rq_data request"

definition http_request_set_userdata :: "ptr \<Rightarrow> nat \<Rightarrow> world \<Rightarrow> world result" where
  "http_request_set_userdata request data w = modify request (\<lambda>rq. rq\<lparr>rq_data := data\<rparr>) w"

definition http_server_set_userdata :: "nat \<Rightarrow> world \<Rightarrow> world" where
  "http_server_set_userdata data w = w\<lparr>w_server := (w_server w)\<lparr>sv_data := data\<rparr>\<rparr>"

definition http_request_server_userdata :: "world \<Rightarrow> nat" where
  "http_request_server_userdata w = sv_data (w_server w)"

definition http_server_loop :: "world \<Rightarrow> int" where
  "http_server_loop w = sv_loop (w_server w)"

definition http_request_connection :: "ptr \<Rightarrow> 8 word \<Rightarrow> world \<Rightarrow> world result" where
  "http_request_connection request directive w =
     modify request (\<lambda>rq. hs_request_set_keep_alive_flag rq directive) w"

definition http_request_method :: "http_request_s \<Rightarrow> http_string_s result" where
  "http_request_method request = hs_get_token_string request HSH_TOK_METHOD"

definition http_request_target :: "http_request_s \<Rightarrow> http_string_s result" where
  "http_request_target request = hs_get_token_string request HSH_TOK_TARGET"

definition http_request_body :: "http_request_s \<Rightarrow> http_string_s result" where
  "http_request_body request = hs_get_token_string request HSH_TOK_BODY"

definition http_request_header :: "http_request_s \<Rightarrow> string \<Rightarrow> http_string_s result" where
  "http_request_header request key = hs_request_header request key"

definition http_request_iterate_headers ::
    "http_request_s \<Rightarrow> int \<Rightarrow> ((http_string_s \<times> http_string_s) option \<times> int) result"
  where
  "http_request_iterate_headers request iter = hs_request_iterate_headers request iter"

definition http_request_chunk :: "http_request_s \<Rightarrow> http_string_s result" where
  "http_request_chunk request = hs_request_chunk request"

definition http_response_init :: http_response_s where
  "http_response_init = hs_response_init"

definition http_response_header :: "http_response_s \<Rightarrow> string \<Rightarrow> string \<Rightarrow> http_response_s" where
  "http_response_header response key val = hs_response_set_header response key val"

definition http_response_status :: "http_response_s \<Rightarrow> int \<Rightarrow> http_response_s" where
  "http_response_status response status = hs_response_set_status response status"

definition http_response_body :: "http_response_s \<Rightarrow> char block option \<Rightarrow> int \<Rightarrow> http_response_s" where
  "http_response_body response body len = hs_response_set_body response body len"

definition http_respond :: "req_fn \<Rightarrow> ptr \<Rightarrow> http_response_s \<Rightarrow> world \<Rightarrow> world result" where
  "http_respond begin_write request response w = hs_request_respond request response begin_write w"

definition http_respond_chunk ::
    "req_fn \<Rightarrow> ptr \<Rightarrow> http_response_s \<Rightarrow> fnptr option \<Rightarrow> world \<Rightarrow> world result"
  where
  "http_respond_chunk begin_write request response cb w =
     hs_request_respond_chunk request response cb begin_write w"

definition http_respond_chunk_end :: "req_fn \<Rightarrow> ptr \<Rightarrow> http_response_s \<Rightarrow> world \<Rightarrow> world result" where
  "http_respond_chunk_end begin_write request response w =
     hs_request_respond_chunk_end request response begin_write w"

definition http_request_read_chunk :: "req_fn \<Rightarrow> ptr \<Rightarrow> fnptr option \<Rightarrow> world \<Rightarrow> world result" where
  "http_request_read_chunk begin_read request chunk_cb w =
     bindr (modify request (\<lambda>rq. rq\<lparr>rq_state := HTTP_SESSION_READ, rq_chunk_cb := chunk_cb\<rparr>) w)
       (begin_read request)"

definition http_server_init :: "http_server_s \<Rightarrow> int \<Rightarrow> fnptr \<Rightarrow> int \<Rightarrow> world \<Rightarrow> world" where
  "http_server_init serv port handler now w =
     (case w_build w of
        KQUEUE \<Rightarrow> hs_server_init serv port handler On_Kqueue_Server None now w
      | EPOLL \<Rightarrow> hs_server_init serv port handler On_Server_Connection (Some On_Server_Timer) now w)"

section \<open>The user's code\<close>

datatype api_call =
    Respond http_response_s
  | Respond_Chunk http_response_s "fnptr option"
  | Respond_Chunk_End http_response_s
  | Read_Chunk "fnptr option"
  | Free_Buffer
  | Set_Connection "8 word"
  | Set_Userdata nat
  | Server_Set_Userdata nat

text \<open>A program is done, or makes a call for a request and goes on in the state it finds then.\<close>

datatype prog = Return | Call api_call ptr "world \<Rightarrow> prog"

type_synonym user_code = "fnptr \<Rightarrow> ptr \<Rightarrow> world \<Rightarrow> prog"

definition run_call :: "req_fn \<Rightarrow> req_fn \<Rightarrow> api_call \<Rightarrow> req_fn" where
  "run_call begin_write begin_read c request w =
     (case c of
        Respond response \<Rightarrow> http_respond begin_write request response w
      | Respond_Chunk response cb \<Rightarrow> http_respond_chunk begin_write request response cb w
      | Respond_Chunk_End response \<Rightarrow> http_respond_chunk_end begin_write request response w
      | Read_Chunk cb \<Rightarrow> http_request_read_chunk begin_read request cb w
      | Free_Buffer \<Rightarrow> http_request_free_buffer request w
      | Set_Connection directive \<Rightarrow> http_request_connection request directive w
      | Set_Userdata data \<Rightarrow> http_request_set_userdata request data w
      | Server_Set_Userdata data \<Rightarrow> Inr (http_server_set_userdata data w))"

primrec run_prog :: "req_fn \<Rightarrow> req_fn \<Rightarrow> prog \<Rightarrow> world \<Rightarrow> world result" where
  "run_prog begin_write begin_read Return w = Inr w"
| "run_prog begin_write begin_read (Call c request k) w =
     bindr (run_call begin_write begin_read c request w) (\<lambda>w. run_prog begin_write begin_read (k w) w)"

section \<open>The request cycle\<close>

text \<open>
  The entry points of the recursion: the handlers of a readable and of a writable socket, and a
  user callback. The fuel is the depth of the C call stack, counted in these three; running out
  of it is the fault \<open>Out_Of_Fuel\<close>.
\<close>

datatype entry = E_Read | E_Write | E_Call fnptr

primrec request_cycle :: "user_code \<Rightarrow> nat \<Rightarrow> entry \<Rightarrow> req_fn" where
  "request_cycle user 0 = (\<lambda>e request w. Inl Out_Of_Fuel)"
| "request_cycle user (Suc n) = (\<lambda>e request w.
     let call = (\<lambda>f. request_cycle user n (E_Call f));
         begin_write = hs_request_begin_write (request_cycle user n E_Write);
         begin_read = hs_request_begin_read (request_cycle user n E_Read)
     in case e of
          E_Read \<Rightarrow> hs_read_socket_and_handle_return_code call begin_write request w
        | E_Write \<Rightarrow> hs_write_socket_and_handle_return_code call begin_read request w
        | E_Call f \<Rightarrow> run_prog begin_write begin_read (user f request w) w)"

text \<open>The event handlers, as the event loop calls them.\<close>

definition run_handler :: "user_code \<Rightarrow> nat \<Rightarrow> handlers" where
  "run_handler user n h ev w =
     (let read_socket = request_cycle user n E_Read;
          write_socket = request_cycle user n E_Write;
          begin_write = hs_request_begin_write write_socket;
          begin_read = hs_request_begin_read read_socket
      in case (h, ev) of
           (On_Server_Connection, Ev_Server_Socket) \<Rightarrow>
             hs_on_epoll_server_connection_event begin_write begin_read w
         | (On_Server_Timer, Ev_Server_Timer now) \<Rightarrow> hs_on_epoll_server_timer_event now w
         | (On_Client_Connection, Ev_Request r) \<Rightarrow>
             hs_on_epoll_client_connection_event read_socket write_socket r w
         | (On_Request_Timer, Ev_Request_Timer r) \<Rightarrow> hs_on_epoll_request_timer_event r w
         | (On_Kqueue_Server, Ev_Server_Socket) \<Rightarrow>
             hs_on_kqueue_server_event begin_write begin_read EVFILT_READ 0 w
         | (On_Kqueue_Server, Ev_Server_Timer now) \<Rightarrow>
             hs_on_kqueue_server_event begin_write begin_read EVFILT_TIMER now w
         | (On_Kqueue_Client, Ev_Request r) \<Rightarrow>
             hs_on_kqueue_client_connection_event read_socket write_socket EVFILT_READ r w
         | (On_Kqueue_Client, Ev_Request_Timer r) \<Rightarrow>
             hs_on_kqueue_client_connection_event read_socket write_socket EVFILT_TIMER r w
         | _ \<Rightarrow> Inl Null_Pointer)"

definition http_server_poll :: "user_code \<Rightarrow> nat \<Rightarrow> event option \<Rightarrow> world \<Rightarrow> world result" where
  "http_server_poll user n ev w = hs_server_poll_events (run_handler user n) ev w"

definition http_server_listen :: "user_code \<Rightarrow> nat \<Rightarrow> bool \<Rightarrow> event list \<Rightarrow> world \<Rightarrow> world result" where
  "http_server_listen user n bind_ok evs w =
     hs_server_run_event_loop (run_handler user n) None bind_ok evs w"

definition http_server_listen_poll :: "bool \<Rightarrow> world \<Rightarrow> world result" where
  "http_server_listen_poll bind_ok w = hs_server_listen_on_addr None bind_ok w"

definition http_server_listen_addr_poll :: "32 word \<Rightarrow> bool \<Rightarrow> world \<Rightarrow> world result" where
  "http_server_listen_addr_poll ipaddr bind_ok w = hs_server_listen_on_addr (Some ipaddr) bind_ok w"

definition http_server_listen_addr ::
    "user_code \<Rightarrow> nat \<Rightarrow> 32 word \<Rightarrow> bool \<Rightarrow> event list \<Rightarrow> world \<Rightarrow> world result" where
  "http_server_listen_addr user n ipaddr bind_ok evs w =
     hs_server_run_event_loop (run_handler user n) (Some ipaddr) bind_ok evs w"

end
