(* ===== verification/Cycle_Invariants.thy ===== *)
theory Cycle_Invariants
  imports Api
begin

text \<open>
  Invariants of the whole server, for every program of the user and every environment. The
  locale \<open>world_invariant\<close> states what an invariant has to survive (changing a request without
  its identity, the environment moving on, registering for events, accepting, terminating); the
  lemmas inside lift it once through every function of the request cycle to the event loop.
\<close>

section \<open>The contract\<close>

text \<open>The parts of a request that are fixed when its connection is accepted.\<close>

definition same_identity :: "http_request_s \<Rightarrow> http_request_s \<Rightarrow> bool" where
  "same_identity rq rq' \<longleftrightarrow>
     rq_handler rq' = rq_handler rq \<and> rq_timer_handler rq' = rq_timer_handler rq
     \<and> rq_socket rq' = rq_socket rq \<and> rq_timerfd rq' = rq_timerfd rq"

lemma same_identity_trans: "same_identity a b \<Longrightarrow> same_identity b c \<Longrightarrow> same_identity a c"
  by (simp add: same_identity_def)

lemma same_identity_buffer: "same_identity rq (rq\<lparr>rq_buffer := bf\<rparr>)"
  by (simp add: same_identity_def)

lemma detect_same_identity:
  assumes "hs_request_detect_keep_alive_flag rq = Inr rq'"
  shows "same_identity rq rq'"
proof -
  obtain str where str: "hs_get_token_string rq HSH_TOK_VERSION = Inr str"
    using assms by (auto simp: hs_request_detect_keep_alive_flag_def bindr_Inr_iff)
  show ?thesis
  proof (cases "st_buf str")
    case None
    with str assms show ?thesis by (simp add: hs_request_detect_keep_alive_flag_def same_identity_def)
  next
    case (Some off)
    show ?thesis using assms
      unfolding hs_request_detect_keep_alive_flag_def str bindr_simps Some option.case Let_def bindr_Inr_iff
      by (elim exE conjE) (clarsimp simp: same_identity_def split: if_split_asm)
  qed
qed

lemma serialize_same_identity:
  "http_serialize_headers date rq response ctx m = Inr (rq', response', ctx', m') \<Longrightarrow> same_identity rq rq'"
proof -
  assume "http_serialize_headers date rq response ctx m = Inr (rq', response', ctx', m')"
  then have "(if HTTP_FLAG_CHECK (rq_flags rq) HTTP_AUTOMATIC
      then hs_request_detect_keep_alive_flag rq else Inr rq) = Inr rq'"
    by (auto simp: http_serialize_headers_def bindr_Inr_iff Let_def split del: if_split)
  then show ?thesis
    using detect_same_identity by (cases "HTTP_FLAG_CHECK (rq_flags rq) HTTP_AUTOMATIC")
      (auto simp: same_identity_def)
qed

text \<open>Worlds that agree on the requests, on the log and on the handlers of the server.\<close>

definition same_core :: "world \<Rightarrow> world \<Rightarrow> bool" where
  "same_core w w' \<longleftrightarrow> w_build w' = w_build w \<and> w_heap w' = w_heap w \<and> w_next w' = w_next w \<and> w_calls w' = w_calls w
     \<and> sv_handler (w_server w') = sv_handler (w_server w)
     \<and> sv_timer_handler (w_server w') = sv_timer_handler (w_server w)"

lemma same_core_refl [simp]: "same_core w w"
  by (simp add: same_core_def)

lemma same_core_trans: "same_core w w' \<Longrightarrow> same_core w' w'' \<Longrightarrow> same_core w w''"
  by (simp add: same_core_def)

lemma same_core_set_memused [simp]: "same_core w (set_memused m w)"
  by (simp add: same_core_def set_memused_def)

lemma same_core_os_read: "os_read fd m off n w = Inr (k, m', w') \<Longrightarrow> same_core w w'"
  by (auto simp: os_read_def same_core_def Let_def hs_simps split: if_splits list.splits read_event.splits)

lemma same_core_os_write: "os_write fd m off n w = Inr (k, w') \<Longrightarrow> same_core w w'"
  by (auto simp: os_write_def same_core_def Let_def hs_simps split: list.splits write_event.splits)

lemma same_core_read_loop: "hs_read_loop bf fd mx w = Inr (k, bf', w') \<Longrightarrow> same_core w w'"
proof (induction bf fd mx w rule: hs_read_loop.induct)
  case (1 bf fd mx w)
  obtain j m w1 where rd: "os_read fd (bf_buf bf) (bf_length bf) (bf_capacity bf - bf_length bf) w = Inr (j, m, w1)"
    using "1.prems" by (subst (asm) hs_read_loop.simps) (auto split: sum.splits)
  define bf1 where "bf1 = bf\<lparr>bf_buf := m\<rparr>"
  define bf2 where "bf2 = (if 0 < j then bf1\<lparr>bf_length := i32 (bf_length bf1 + j)\<rparr> else bf1)"
  obtain bf3 m3 where gr: "hs_buffer_grow bf2 (w_memused w1) mx = (bf3, m3)" by (meson surj_pair)
  have unf: "hs_read_loop bf fd mx w = (if 0 < j \<and> bf_capacity bf3 < mx
      then hs_read_loop bf3 fd mx (set_memused m3 w1) else Inr (j, bf3, set_memused m3 w1))"
    by (subst hs_read_loop.simps)
       (simp only: rd sum.case prod.case Let_def bf1_def [symmetric] bf2_def [symmetric] gr)
  have core: "same_core w (set_memused m3 w1)"
    using same_core_os_read [OF rd] same_core_set_memused same_core_trans by blast
  show ?case
  proof (cases "0 < j \<and> bf_capacity bf3 < mx")
    case True
    then have "same_core (set_memused m3 w1) w'"
      using "1.IH" [OF rd refl refl bf1_def bf2_def gr [symmetric] refl refl True] "1.prems" unf by simp
    with core same_core_trans show ?thesis by blast
  next
    case False
    with "1.prems" unf core show ?thesis by auto
  qed
qed

lemma same_core_read_into_buffer: "hs_read_into_buffer bf fd mx w = Inr (k, bf', w') \<Longrightarrow> same_core w w'"
  by (auto simp: hs_read_into_buffer_def hs_simps dest: same_core_read_loop)

text \<open>The calls that change what is watched on a descriptor, and the handlers of each build.\<close>

fun watches :: "os_call \<Rightarrow> bool" where
  "watches (Epoll_Mod_Read fd) = True"
| "watches (Epoll_Mod_Write fd) = True"
| "watches (Kevent fd filt flags) = True"
| "watches _ = False"

fun client_handler :: "build \<Rightarrow> io_cb" where
  "client_handler EPOLL = On_Client_Connection"
| "client_handler KQUEUE = On_Kqueue_Client"

fun client_timer_handler :: "build \<Rightarrow> io_cb option" where
  "client_timer_handler EPOLL = Some On_Request_Timer"
| "client_timer_handler KQUEUE = None"

fun handlers_of :: "build \<Rightarrow> io_cb set" where
  "handlers_of EPOLL = {On_Server_Connection, On_Server_Timer, On_Client_Connection, On_Request_Timer}"
| "handlers_of KQUEUE = {On_Kqueue_Server, On_Kqueue_Client}"

text \<open>A function on a request keeps a property of the world whenever it returns.\<close>

definition keeps :: "(world \<Rightarrow> bool) \<Rightarrow> req_fn \<Rightarrow> bool" where
  "keeps I f \<longleftrightarrow> (\<forall>r w w'. I w \<longrightarrow> f r w = Inr w' \<longrightarrow> I w')"

lemma keepsI: "(\<And>r w w'. I w \<Longrightarrow> f r w = Inr w' \<Longrightarrow> I w') \<Longrightarrow> keeps I f"
  by (simp add: keeps_def)

lemma keepsD: "keeps I f \<Longrightarrow> f r w = Inr w' \<Longrightarrow> I w \<Longrightarrow> I w'"
  by (simp add: keeps_def)

lemma deref_same_core: "same_core w w' \<Longrightarrow> deref r w' = deref r w"
  by (simp add: same_core_def deref_def)

text \<open>The kqueue handler of a request is the two epoll handlers in one.\<close>

lemma kqueue_client_event:
  "hs_on_kqueue_client_connection_event f g EVFILT_TIMER = hs_on_epoll_request_timer_event"
  "hs_on_kqueue_client_connection_event f g EVFILT_READ = hs_on_epoll_client_connection_event f g"
proof -
  have "(if st = HTTP_SESSION_READ then x else if st = HTTP_SESSION_WRITE then y else z)
      = (case st of HTTP_SESSION_READ \<Rightarrow> x | HTTP_SESSION_WRITE \<Rightarrow> y | _ \<Rightarrow> z)"
    for st and x y z :: "world result" by (cases st) simp_all
  then show "hs_on_kqueue_client_connection_event f g EVFILT_READ = hs_on_epoll_client_connection_event f g"
    by (simp add: fun_eq_iff hs_on_kqueue_client_connection_event_def hs_on_epoll_client_connection_event_def)
qed (simp add: fun_eq_iff hs_on_kqueue_client_connection_event_def hs_on_epoll_request_timer_event_def)

locale world_invariant =
  fixes b :: build and I :: "world \<Rightarrow> bool"
  assumes on_assign: "I w \<Longrightarrow> deref r w = Inr rq \<Longrightarrow> same_identity rq rq' \<Longrightarrow> I (assign r rq' w)"
    and on_core: "I w \<Longrightarrow> same_core w w' \<Longrightarrow> I w'"
    and on_watch: "I w \<Longrightarrow> watches c \<Longrightarrow> I (os_log c w)"
    and on_terminate: "I w \<Longrightarrow> hs_request_terminate_connection r w = Inr w' \<Longrightarrow> I w'"
    and on_accept: "I w \<Longrightarrow>
      hs_server_accept_connection (client_handler b) (client_timer_handler b) w = Inr (x, w') \<Longrightarrow> I w'"
    and on_build: "I w \<Longrightarrow> w_build w = b"
    and on_handler: "I w \<Longrightarrow> event_handler ev w = Inr h \<Longrightarrow> h \<in> handlers_of b"
begin

lemma on_modify:
  assumes "modify r f w = Inr w'" and "I w" and "\<And>rq. same_identity rq (f rq)"
  shows "I w'"
  using assms on_assign by (auto simp: modify_def bindr_Inr_iff)

lemma on_update:
  assumes "I w" and "same_core w w1" and "deref r w = Inr rq" and "same_identity rq rq'"
  shows "I (assign r rq' w1)"
  using assms on_core on_assign deref_same_core by metis

lemma on_push_token: "push_token r t w = Inr w' \<Longrightarrow> I w \<Longrightarrow> I w'"
  using on_assign by (auto simp: push_token_def bindr_Inr_iff same_identity_def)

lemma on_exec_callback:
  assumes "hs_exec_callback call cb r w = Inr w'" and "I w" and "\<And>f. keeps I (call f)"
  shows "I w'"
proof -
  from assms(1) obtain w1 f where m: "modify r (\<lambda>rq. rq\<lparr>rq_state := HTTP_SESSION_NOP\<rparr>) w = Inr w1"
    and c: "call f r w1 = Inr w'"
    by (auto simp: hs_exec_callback_def bindr_Inr_iff split: option.splits)
  have "I w1" by (rule on_modify [OF m assms(2)]) (simp add: same_identity_def)
  with c show ?thesis by (rule keepsD [OF assms(3)])
qed

lemma on_request_handler: "exec_request_handler call r w = Inr w' \<Longrightarrow> I w \<Longrightarrow> (\<And>f. keeps I (call f)) \<Longrightarrow> I w'"
  unfolding exec_request_handler_def by (rule on_exec_callback)

lemma on_chunk_cb: "exec_chunk_cb call r w = Inr w' \<Longrightarrow> I w \<Longrightarrow> (\<And>f. keeps I (call f)) \<Longrightarrow> I w'"
  by (auto simp: exec_chunk_cb_def bindr_Inr_iff intro: on_exec_callback)

lemma on_handle_token:
  assumes "handle_token call r t w = Inr (rc, w')" and "I w" and "\<And>f. keeps I (call f)"
  shows "I w'"
proof (cases "tk_type t")
  case HSH_TOK_HEADERS_DONE
  then obtain w1 where p: "push_token r t w = Inr w1" using assms(1)
    by (auto simp: handle_token_def bindr_Inr_iff)
  note I1 = on_push_token [OF p assms(2)]
  show ?thesis
  proof (cases "HTTP_FLAG_CHECK (tk_flags t) HSH_TOK_FLAG_STREAMED_BODY
      \<or> HTTP_FLAG_CHECK (tk_flags t) HSH_TOK_FLAG_NO_BODY")
    case False
    with HSH_TOK_HEADERS_DONE p assms(1) I1 show ?thesis by (simp add: handle_token_def)
  next
    case True
    with HSH_TOK_HEADERS_DONE p assms(1) obtain w2 where
      m: "modify r (\<lambda>rq. rq\<lparr>rq_flags := HTTP_FLAG_SET (rq_flags rq) HTTP_FLG_STREAMED\<rparr>) w1 = Inr w2"
      and e: "exec_request_handler call r w2 = Inr w'"
      by (auto simp: handle_token_def bindr_Inr_iff)
    have "I w2" by (rule on_modify [OF m I1]) (simp add: same_identity_def)
    then show ?thesis by (rule on_request_handler [OF e]) (rule assms(3))
  qed
next
  case HSH_TOK_BODY
  then obtain w1 where p: "push_token r t w = Inr w1" using assms(1)
    by (auto simp: handle_token_def bindr_Inr_iff)
  note I1 = on_push_token [OF p assms(2)]
  consider (handler) "exec_request_handler call r w1 = Inr w'"
    | (final) w2 w3 where "exec_chunk_cb call r w1 = Inr w2"
        "push_token r (token_zero\<lparr>tk_type := HSH_TOK_BODY\<rparr>) w2 = Inr w3" "exec_chunk_cb call r w3 = Inr w'"
    | (chunk) "exec_chunk_cb call r w1 = Inr w'"
    using assms(1) HSH_TOK_BODY p by (auto simp: handle_token_def bindr_Inr_iff split: if_splits)
  then show ?thesis
  proof cases
    case handler
    then show ?thesis by (rule on_request_handler) (rule I1, rule assms(3))
  next
    case final
    have "I w2" by (rule on_chunk_cb [OF final(1) I1 assms(3)])
    then have "I w3" by (rule on_push_token [OF final(2)])
    then show ?thesis by (rule on_chunk_cb [OF final(3) _ assms(3)])
  next
    case chunk
    then show ?thesis by (rule on_chunk_cb) (rule I1, rule assms(3))
  qed
qed (use assms on_push_token in \<open>auto simp: handle_token_def bindr_Inr_iff\<close>)

lemma on_parse_loop:
  assumes "parse_loop n call r mx w = Inr (rc, w')" and "I w" and "\<And>f. keeps I (call f)"
  shows "I w'"
  using assms(1,2)
proof (induction n arbitrary: w)
  case 0
  then show ?case by simp
next
  case (Suc n)
  then obtain t w1 rc1 w2 where t: "parse_token mx r w = Inr (t, w1)"
    and h: "handle_token call r t w1 = Inr (rc1, w2)"
    and k: "(case rc1 of Some x \<Rightarrow> Inr (x, w2) | None \<Rightarrow> parse_loop n call r mx w2) = Inr (rc, w')"
    by (auto simp: bindr_Inr_iff)
  have "I w1" using t Suc.prems(2) on_assign by (auto simp: parse_token_def bindr_Inr_iff same_identity_def)
  then have "I w2" by (rule on_handle_token [OF h _ assms(3)])
  with k Suc.IH show ?case by (cases rc1) auto
qed

lemma on_read_request:
  assumes "hs_read_request_and_exec_user_cb call r opts w = Inr (rc, w')" and "I w"
    and "\<And>f. keeps I (call f)"
  shows "I w'"
proof -
  from assms(1) obtain rq where rq: "deref r w = Inr rq"
    by (auto simp: hs_read_request_and_exec_user_cb_def bindr_Inr_iff)
  obtain rq1 w1 where st: "(if bf_buf (rq_buffer (rq\<lparr>rq_state := HTTP_SESSION_READ, rq_timeout := HTTP_REQUEST_TIMEOUT\<rparr>)) = None
      then let (bf, memused) = hs_buffer_init (op_initial_request_buf_capacity opts) (w_memused w)
           in ((rq\<lparr>rq_state := HTTP_SESSION_READ, rq_timeout := HTTP_REQUEST_TIMEOUT\<rparr>)\<lparr>rq_buffer := bf, rq_parser := hsh_parser_init\<rparr>,
               set_memused memused w)
      else (rq\<lparr>rq_state := HTTP_SESSION_READ, rq_timeout := HTTP_REQUEST_TIMEOUT\<rparr>, w)) = (rq1, w1)"
    by (meson surj_pair)
  have c1: "same_core w w1" "same_identity rq rq1"
    using st by (auto simp: same_identity_def Let_def split: if_splits prod.splits)
  obtain eof w2 where rd: "(if hs_buffer_requires_read (rq_buffer rq1)
      then bindr (hs_read_into_buffer (rq_buffer rq1) (rq_socket rq1) (op_max_request_buf_capacity opts) w1)
             (\<lambda>(bytes, bf, w). Inr (bytes = op_eof_rc opts, assign r (rq1\<lparr>rq_buffer := bf\<rparr>) w))
      else Inr (False, assign r rq1 w1)) = Inr (eof, w2)"
    and k: "(if eof then Inr (HS_READ_RC_SOCKET_ERR, w2)
      else hs_parse_buffer_and_exec_user_cb call r (i32 (op_max_request_buf_capacity opts)) w2) = Inr (rc, w')"
    using assms(1) unfolding hs_read_request_and_exec_user_cb_def rq bindr_simps Let_def [of "rq\<lparr>rq_state := _, rq_timeout := _\<rparr>"] st
    by (auto simp: bindr_Inr_iff)
  have "I w2"
  proof (cases "hs_buffer_requires_read (rq_buffer rq1)")
    case False
    with rd show ?thesis using on_update [OF assms(2) c1(1) rq c1(2)] by simp
  next
    case True
    with rd obtain bytes bf w3 where
      "hs_read_into_buffer (rq_buffer rq1) (rq_socket rq1) (op_max_request_buf_capacity opts) w1 = Inr (bytes, bf, w3)"
      "w2 = assign r (rq1\<lparr>rq_buffer := bf\<rparr>) w3"
      by (auto simp: bindr_Inr_iff)
    with c1 show ?thesis
      using on_update [OF assms(2) _ rq] same_core_read_into_buffer same_core_trans
      by (metis (no_types, lifting) same_identity_buffer same_identity_trans)
  qed
  with k show ?thesis
    by (auto simp: hs_parse_buffer_and_exec_user_cb_def bindr_Inr_iff split: if_splits
        intro: on_parse_loop [OF _ _ assms(3)])
qed

lemma on_buffer_free:
  assumes "request_buffer_free r w = Inr w'" and "I w"
  shows "I w'"
proof -
  from assms(1) obtain rq where rq: "deref r w = Inr rq"
    by (auto simp: request_buffer_free_def bindr_Inr_iff)
  obtain bf m where "hs_buffer_free (rq_buffer rq) (w_memused w) = (bf, m)" by (meson surj_pair)
  with assms(1) rq have "w' = assign r (rq\<lparr>rq_buffer := bf\<rparr>) (set_memused m w)"
    by (simp add: request_buffer_free_def)
  with on_update [OF assms(2) same_core_set_memused rq same_identity_buffer] show ?thesis by simp
qed

lemma on_write_socket: "hs_write_socket r w = Inr (rc, w') \<Longrightarrow> I w \<Longrightarrow> I w'"
  using on_update same_core_os_write
  by (auto simp: hs_write_socket_def bindr_Inr_iff same_identity_def Let_def)

lemma on_perform_response:
  assumes "http_perform_response r rq' ctx m http_write w = Inr w'" and "I w"
    and "deref r w = Inr rq" and "same_identity rq rq'" and "keeps I http_write"
  shows "I w'"
proof -
  obtain bf m' where "hs_buffer_free (rq_buffer rq') m = (bf, m')" by (meson surj_pair)
  moreover define rq'' where "rq'' = rq'\<lparr>rq_buffer := bf\<lparr>bf_buf := gw_buf ctx, bf_length := gw_size ctx,
      bf_capacity := gw_capacity ctx\<rparr>, rq_bytes_written := 0, rq_state := HTTP_SESSION_WRITE\<rparr>"
  ultimately have h: "http_write r (assign r rq'' (set_memused m' w)) = Inr w'" and "same_identity rq' rq''"
    using assms(1) by (simp_all add: http_perform_response_def same_identity_def)
  then have "I (assign r rq'' (set_memused m' w))"
    using on_update [OF assms(2) same_core_set_memused assms(3)] assms(4) same_identity_trans by blast
  then show ?thesis by (rule keepsD [OF assms(5) h])
qed

lemma on_respond:
  assumes "hs_request_respond r response http_write w = Inr w'" and "I w" and "keeps I http_write"
  shows "I w'"
proof -
  from assms(1) obtain rq where rq: "deref r w = Inr rq"
    by (auto simp: hs_request_respond_def bindr_Inr_iff)
  obtain ctx m where i: "grwprintf_init HTTP_RESPONSE_BUF_SIZE (w_memused w) = (ctx, m)" by (meson surj_pair)
  obtain rq' response' ctx1 m1 ctx2 m2 where
    s: "http_serialize_headers (sv_date (w_server w)) rq response ctx m = Inr (rq', response', ctx1, m1)"
    and p: "http_perform_response r rq' ctx2 m2 http_write w = Inr w'"
    using assms(1) by (auto simp: hs_request_respond_def rq i bindr_Inr_iff)
  show ?thesis by (rule on_perform_response [OF p assms(2) rq serialize_same_identity [OF s] assms(3)])
qed

lemma on_respond_chunk:
  assumes "hs_request_respond_chunk r response cb http_write w = Inr w'" and "I w" and "keeps I http_write"
  shows "I w'"
proof -
  from assms(1) obtain rq where rq: "deref r w = Inr rq"
    by (auto simp: hs_request_respond_chunk_def bindr_Inr_iff)
  obtain ctx m where i: "grwprintf_init HTTP_RESPONSE_BUF_SIZE (w_memused w) = (ctx, m)" by (meson surj_pair)
  obtain rq' response' ctx1 m1 ctx2 m2 where
    s: "(if \<not> HTTP_FLAG_CHECK (rq_flags rq) HTTP_CHUNKED_RESPONSE
         then let request = rq\<lparr>rq_flags := HTTP_FLAG_SET (rq_flags rq) HTTP_CHUNKED_RESPONSE\<rparr>;
                  response = hs_response_set_header response ''Transfer-Encoding'' ''chunked''
              in http_serialize_headers (sv_date (w_server w)) request response ctx m
         else Inr (rq, response, ctx, m)) = Inr (rq', response', ctx1, m1)"
    and p: "http_perform_response r (rq'\<lparr>rq_chunk_cb := cb\<rparr>) ctx2 m2 http_write w = Inr w'"
    using assms(1) unfolding hs_request_respond_chunk_def rq i
    by (auto simp: bindr_Inr_iff simp del: if_not_P if_P split del: if_split)
  have "same_identity rq rq'"
    using s serialize_same_identity [of "sv_date (w_server w)"
        "rq\<lparr>rq_flags := HTTP_FLAG_SET (rq_flags rq) HTTP_CHUNKED_RESPONSE\<rparr>"]
    by (fastforce simp: Let_def same_identity_def split: if_splits)
  then have "same_identity rq (rq'\<lparr>rq_chunk_cb := cb\<rparr>)" by (simp add: same_identity_def)
  then show ?thesis by (rule on_perform_response [OF p assms(2) rq _ assms(3)])
qed

lemma on_respond_chunk_end:
  assumes "hs_request_respond_chunk_end r response http_write w = Inr w'" and "I w" and "keeps I http_write"
  shows "I w'"
proof -
  from assms(1) obtain rq where rq: "deref r w = Inr rq"
    by (auto simp: hs_request_respond_chunk_end_def bindr_Inr_iff)
  obtain ctx m where i: "grwprintf_init HTTP_RESPONSE_BUF_SIZE (w_memused w) = (ctx, m)" by (meson surj_pair)
  let ?rq = "rq\<lparr>rq_flags := HTTP_FLAG_CLEAR (rq_flags rq) HTTP_CHUNKED_RESPONSE\<rparr>"
  obtain ctx2 m2 where p: "http_perform_response r ?rq ctx2 m2 http_write w = Inr w'"
    using assms(1) by (auto simp: hs_request_respond_chunk_end_def rq i bindr_Inr_iff)
  have "same_identity rq ?rq" by (simp add: same_identity_def)
  then show ?thesis by (rule on_perform_response [OF p assms(2) rq _ assms(3)])
qed

lemma on_respond_error:
  "hs_request_respond_error r code msg http_write w = Inr w' \<Longrightarrow> I w \<Longrightarrow> keeps I http_write \<Longrightarrow> I w'"
  unfolding hs_request_respond_error_def Let_def by (rule on_respond)

lemma keeps_begin_write:
  assumes "keeps I f"
  shows "keeps I (hs_request_begin_write f)"
proof (rule keepsI)
  fix r w w' assume I: "I w" and b: "hs_request_begin_write f r w = Inr w'"
  then obtain w1 w2 where m: "modify r (\<lambda>rq. rq\<lparr>rq_state := HTTP_SESSION_WRITE\<rparr>) w = Inr w1"
    and a: "hs_add_write_event r w1 = Inr w2" and k: "f r w2 = Inr w'"
    by (auto simp: hs_request_begin_write_def bindr_Inr_iff)
  have "I w1" by (rule on_modify [OF m I]) (simp add: same_identity_def)
  with a have "I w2" by (cases "w_build w1") (auto simp: hs_add_write_event_def hs_add_write_event_kqueue_def bindr_Inr_iff intro!: on_watch)
  with keepsD [OF assms k] show "I w'" .
qed

lemma keeps_begin_read:
  assumes "keeps I f"
  shows "keeps I (hs_request_begin_read f)"
proof (rule keepsI)
  fix r w w' assume I: "I w" and b: "hs_request_begin_read f r w = Inr w'"
  then obtain w1 w2 where m: "modify r (\<lambda>rq. rq\<lparr>rq_state := HTTP_SESSION_READ\<rparr>) w = Inr w1"
    and a: "hs_add_read_event r w1 = Inr w2" and k: "f r w2 = Inr w'"
    by (auto simp: hs_request_begin_read_def bindr_Inr_iff)
  have "I w1" by (rule on_modify [OF m I]) (simp add: same_identity_def)
  with a have "I w2" by (cases "w_build w1") (auto simp: hs_add_read_event_def hs_add_read_event_kqueue_def bindr_Inr_iff intro!: on_watch)
  with keepsD [OF assms k] show "I w'" .
qed

lemma keeps_read_handler:
  assumes "\<And>f. keeps I (call f)" and "keeps I begin_write"
  shows "keeps I (hs_read_socket_and_handle_return_code call begin_write)"
proof (rule keepsI)
  fix r w w' assume I: "I w" and h: "hs_read_socket_and_handle_return_code call begin_write r w = Inr w'"
  then obtain rc w1 where rd: "hs_read_request_and_exec_user_cb call r read_opts w = Inr (rc, w1)"
    by (auto simp: hs_read_socket_and_handle_return_code_def bindr_Inr_iff)
  have "I w1" by (rule on_read_request [OF rd I assms(1)])
  with rd h assms(2) show "I w'"
    by (cases rc) (auto simp: hs_read_socket_and_handle_return_code_def intro: on_respond_error on_terminate)
qed

lemma keeps_write_handler:
  assumes "\<And>f. keeps I (call f)" and "keeps I begin_read"
  shows "keeps I (hs_write_socket_and_handle_return_code call begin_read)"
proof (rule keepsI)
  fix r w w' assume I: "I w" and h: "hs_write_socket_and_handle_return_code call begin_read r w = Inr w'"
  then obtain rc w1 w2 w3 where wr: "hs_write_socket r w = Inr (rc, w1)"
    and m: "modify r (\<lambda>rq. rq\<lparr>rq_timeout :=
        if rc = HS_WRITE_RC_SUCCESS then HTTP_KEEP_ALIVE_TIMEOUT else HTTP_REQUEST_TIMEOUT\<rparr>) w1 = Inr w2"
    and f: "(if rc \<noteq> HS_WRITE_RC_CONTINUE then request_buffer_free r w2 else Inr w2) = Inr w3"
    and k: "(case rc of
             HS_WRITE_RC_SUCCESS_CLOSE \<Rightarrow> hs_request_terminate_connection r w3
           | HS_WRITE_RC_SOCKET_ERR \<Rightarrow> hs_request_terminate_connection r w3
           | HS_WRITE_RC_SUCCESS \<Rightarrow> begin_read r w3
           | HS_WRITE_RC_SUCCESS_CHUNK \<Rightarrow> exec_chunk_cb call r w3
           | HS_WRITE_RC_CONTINUE \<Rightarrow> Inr w3) = Inr w'"
    by (auto simp: hs_write_socket_and_handle_return_code_def bindr_Inr_iff split del: if_split)
  have "I w1" by (rule on_write_socket [OF wr I])
  then have "I w2" by (rule on_modify [OF m]) (simp add: same_identity_def)
  then have "I w3" using f on_buffer_free by (auto split: if_splits)
  with k show "I w'"
    by (cases rc) (auto intro: on_terminate keepsD [OF assms(2)] on_chunk_cb assms(1))
qed

lemma on_run_call:
  assumes "run_call begin_write begin_read c r w = Inr w'" and "I w"
    and "keeps I begin_write" and "keeps I begin_read"
  shows "I w'"
proof (cases c)
  case (Read_Chunk cb)
  with assms(1) obtain w1 where m: "modify r (\<lambda>rq. rq\<lparr>rq_state := HTTP_SESSION_READ, rq_chunk_cb := cb\<rparr>) w = Inr w1"
    and k: "begin_read r w1 = Inr w'"
    by (auto simp: run_call_def http_request_read_chunk_def bindr_Inr_iff)
  have "I w1" by (rule on_modify [OF m assms(2)]) (simp add: same_identity_def)
  with k show ?thesis by (rule keepsD [OF assms(4)])
next
  case (Set_Connection d)
  with assms(1) have m: "modify r (\<lambda>rq. hs_request_set_keep_alive_flag rq d) w = Inr w'"
    by (simp add: run_call_def http_request_connection_def)
  show ?thesis
    by (rule on_modify [OF m assms(2)]) (simp add: same_identity_def hs_request_set_keep_alive_flag_def Let_def)
next
  case (Set_Userdata d)
  with assms(1) have m: "modify r (\<lambda>rq. rq\<lparr>rq_data := d\<rparr>) w = Inr w'"
    by (simp add: run_call_def http_request_set_userdata_def)
  show ?thesis by (rule on_modify [OF m assms(2)]) (simp add: same_identity_def)
next
  case (Server_Set_Userdata d)
  then have "same_core w w'"
    using assms(1) by (auto simp: run_call_def http_server_set_userdata_def same_core_def)
  with assms(2) show ?thesis by (rule on_core)
qed (use assms in \<open>auto simp: run_call_def http_respond_def http_respond_chunk_def
      http_respond_chunk_end_def http_request_free_buffer_def
      intro: on_respond on_respond_chunk on_respond_chunk_end on_buffer_free\<close>)

lemma on_run_prog:
  assumes "run_prog begin_write begin_read p w = Inr w'" and "I w"
    and "keeps I begin_write" and "keeps I begin_read"
  shows "I w'"
  using assms(1,2)
proof (induction p arbitrary: w)
  case Return
  then show ?case by simp
next
  case (Call c r k)
  then obtain w1 where "run_call begin_write begin_read c r w = Inr w1"
    and "run_prog begin_write begin_read (k w1) w1 = Inr w'"
    by (auto simp: bindr_Inr_iff)
  with Call show ?case using on_run_call assms(3,4) by blast
qed

lemma keeps_request_cycle: "keeps I (request_cycle user n e)"
proof (induction n arbitrary: e)
  case 0
  then show ?case by (simp add: keeps_def)
next
  case (Suc n)
  note bw = keeps_begin_write [OF Suc.IH [of E_Write]] and br = keeps_begin_read [OF Suc.IH [of E_Read]]
  show ?case
  proof (cases e)
    case E_Read
    then show ?thesis
      using keeps_read_handler [of "\<lambda>f. request_cycle user n (E_Call f)", OF Suc.IH bw]
      by (simp add: keeps_def)
  next
    case E_Write
    then show ?thesis
      using keeps_write_handler [of "\<lambda>f. request_cycle user n (E_Call f)", OF Suc.IH br]
      by (simp add: keeps_def)
  next
    case (E_Call f)
    show ?thesis
    proof (rule keepsI)
      fix r w w' assume "I w" and "request_cycle user (Suc n) e r w = Inr w'"
      then show "I w'"
        using on_run_prog [OF _ _ bw br, of "user f r w" w w'] by (simp add: E_Call Let_def)
    qed
  qed
qed

text \<open>The functions that the event loop calls.\<close>

lemma on_accept_loop:
  assumes "accept_loop n begin_write begin_read (client_handler b) (client_timer_handler b) w = Inr w'"
    and "I w" and "keeps I begin_write" and "keeps I begin_read"
  shows "I w'"
  using assms(1,2)
proof (induction n arbitrary: w)
  case 0
  then show ?case by simp
next
  case (Suc n)
  then obtain x w1 where a: "hs_server_accept_connection (client_handler b) (client_timer_handler b) w = Inr (x, w1)"
    by (auto simp: bindr_Inr_iff)
  note I1 = on_accept [OF Suc.prems(2) a]
  show ?case
  proof (cases x)
    case None
    with Suc.prems a I1 show ?thesis by simp
  next
    case (Some r)
    with Suc.prems a obtain w2 where
      k: "(if w_memused w1 > HTTP_MAX_TOTAL_EST_MEM_USAGE
           then hs_request_respond_error r 503 ''Service Unavailable'' begin_write w1
           else begin_read r w1) = Inr w2"
      and l: "accept_loop n begin_write begin_read (client_handler b) (client_timer_handler b) w2 = Inr w'"
      by (auto simp: bindr_Inr_iff split del: if_split)
    have "I w2" using k I1 on_respond_error keepsD [OF assms(4)] assms(3)
      by (auto split: if_splits)
    with l Suc.IH show ?thesis by blast
  qed
qed

lemma on_time_out:
  assumes "hs_on_epoll_request_timer_event r w = Inr w'" and "I w"
  shows "I w'"
proof -
  from assms(1) obtain w1 where m: "modify r (\<lambda>rq. rq\<lparr>rq_timeout := i32 (rq_timeout rq - 1)\<rparr>) w = Inr w1"
    by (auto simp: hs_on_epoll_request_timer_event_def bindr_Inr_iff)
  have "I w1" by (rule on_modify [OF m assms(2)]) (simp add: same_identity_def)
  with m assms(1) show ?thesis
    by (auto simp: hs_on_epoll_request_timer_event_def bindr_Inr_iff intro: on_terminate split: if_splits)
qed

lemma on_socket_event:
  assumes "hs_on_epoll_client_connection_event f g r w = Inr w'" and "I w" and "keeps I f" and "keeps I g"
  shows "I w'"
proof -
  from assms(1) obtain rq where rq: "deref r w = Inr rq"
    by (auto simp: hs_on_epoll_client_connection_event_def bindr_Inr_iff)
  with assms show ?thesis
    by (cases "rq_state rq") (auto simp: hs_on_epoll_client_connection_event_def intro: keepsD)
qed

lemma on_clock: "I w \<Longrightarrow> I (w\<lparr>w_server := hs_generate_date_time now (w_server w)\<rparr>)"
  by (erule on_core) (simp add: same_core_def hs_generate_date_time_def)

lemma on_run_handler:
  assumes "run_handler user n h ev w = Inr w'" and "I w" and "h \<in> handlers_of b"
  shows "I w'"
proof -
  note c = keeps_request_cycle [of user n]
  note bw = keeps_begin_write [OF c [of E_Write]] and br = keeps_begin_read [OF c [of E_Read]]
  have kq: "b = KQUEUE \<Longrightarrow> accept_loop m bw br On_Kqueue_Client None = accept_loop m bw br (client_handler b) (client_timer_handler b)"
    and ep: "b = EPOLL \<Longrightarrow> accept_loop m bw br On_Client_Connection (Some On_Request_Timer) = accept_loop m bw br (client_handler b) (client_timer_handler b)"
    for m bw br by simp_all
  show ?thesis
    using assms bw br c
    by (cases h; cases ev; cases b)
      (auto simp: run_handler_def Let_def hs_on_epoll_server_connection_event_def hs_on_kqueue_server_event_def
        hs_on_epoll_server_timer_event_def kqueue_client_event hs_accept_and_begin_request_cycle_def kq ep
        simp del: accept_loop.simps client_handler.simps client_timer_handler.simps
        intro: on_clock on_time_out on_socket_event on_accept_loop)
qed

lemma on_event: "handle_event (run_handler user n) ev w = Inr w' \<Longrightarrow> I w \<Longrightarrow> I w'"
  using on_run_handler on_handler by (auto simp: handle_event_def bindr_Inr_iff)

lemma on_event_loop: "event_loop (run_handler user n) evs w = Inr w' \<Longrightarrow> I w \<Longrightarrow> I w'"
  by (induction evs arbitrary: w) (auto simp: bindr_Inr_iff intro: on_event)

end

end
