(* ===== verification/Server_Invariants.thy ===== *)
theory Server_Invariants
  imports Api Cycle_Invariants
begin

text \<open>
  Two invariants of the running server, by interpretation of \<open>world_invariant\<close>: every live
  request carries the handlers of its build, so that each event reaches the function written for
  it, and the descriptors in use are exactly those of the live requests.
\<close>

section \<open>Handlers\<close>

fun server_handler :: "build \<Rightarrow> io_cb" where
  "server_handler EPOLL = On_Server_Connection"
| "server_handler KQUEUE = On_Kqueue_Server"

definition heap_ok :: "build \<Rightarrow> world \<Rightarrow> bool" where
  "heap_ok b w \<longleftrightarrow> w_build w = b \<and> sv_handler (w_server w) = server_handler b
     \<and> (b = EPOLL \<longrightarrow> sv_timer_handler (w_server w) = Some On_Server_Timer)
     \<and> (\<forall>r rq. w_heap w r = Some rq \<longrightarrow> r < w_next w \<and> rq_handler rq = client_handler b
          \<and> rq_timer_handler rq = client_timer_handler b)"

lemma heap_ok_request:
  "heap_ok b w \<Longrightarrow> w_heap w r = Some rq \<Longrightarrow>
     r < w_next w \<and> rq_handler rq = client_handler b \<and> rq_timer_handler rq = client_timer_handler b"
  by (simp add: heap_ok_def)

text \<open>Terminating a request, in one equation.\<close>

definition freed :: "build \<Rightarrow> ptr \<Rightarrow> http_request_s \<Rightarrow> int \<Rightarrow> world \<Rightarrow> world" where
  "freed b r rq m w = (set_memused m w)\<lparr>w_heap := (w_heap w)(r := None),
     w_calls := w_calls w @ (case b of
         EPOLL \<Rightarrow> [Epoll_Del (rq_socket rq), Epoll_Del (rq_timerfd rq), Close (rq_timerfd rq)]
       | KQUEUE \<Rightarrow> [Kevent (rq_socket rq) EVFILT_TIMER EV_DELETE]) @ [Close (rq_socket rq)]\<rparr>"

lemma terminate_total:
  assumes "deref r w = Inr rq"
  shows "\<exists>m. hs_request_terminate_connection r w = Inr (freed (w_build w) r rq m w)"
proof -
  obtain bf m where "hs_buffer_free (rq_buffer rq) (w_memused (os_log (Close (rq_socket rq)) (hs_delete_events rq w))) = (bf, m)"
    by (meson surj_pair)
  then have "hs_request_terminate_connection r w = Inr (freed (w_build w) r rq m w)"
    by (cases "w_build w")
      (simp_all add: hs_request_terminate_connection_def assms freed_def hs_delete_events_def hs_delete_events_kqueue_def os_log_def set_memused_def)
  then show ?thesis by blast
qed

lemma terminate_freed:
  assumes "hs_request_terminate_connection r w = Inr w'"
  obtains rq m where "deref r w = Inr rq" and "w' = freed (w_build w) r rq m w"
proof -
  from assms obtain rq where rq: "deref r w = Inr rq"
    by (auto simp: hs_request_terminate_connection_def bindr_Inr_iff)
  with terminate_total [OF rq] assms that show ?thesis by auto
qed

lemma os_new_fd_eq:
  "os_new_fd w = (case w_fds w of [] \<Rightarrow> - 1 | fd # fds \<Rightarrow> fd, w\<lparr>w_fds := tl (w_fds w)\<rparr>)"
proof (cases "w_fds w")
  case Nil
  then have "w\<lparr>w_fds := []\<rparr> = w" by (cases w) simp
  with Nil show ?thesis by (simp add: os_new_fd_def)
qed (simp add: os_new_fd_def)

text \<open>Accepting a connection, in one equation.\<close>

definition accepted :: "build \<Rightarrow> int \<Rightarrow> int list \<Rightarrow> int \<Rightarrow> int list \<Rightarrow> world \<Rightarrow> world" where
  "accepted b sock accepts tfd fds w =
     w\<lparr>w_accepts := accepts, w_next := Suc (w_next w),
       w_fds := (case b of EPOLL \<Rightarrow> fds | KQUEUE \<Rightarrow> w_fds w),
       w_heap := (w_heap w)(w_next w := Some ((hs_request_init sock (client_handler b))
          \<lparr>rq_timer_handler := client_timer_handler b, rq_timerfd := (case b of EPOLL \<Rightarrow> tfd | KQUEUE \<Rightarrow> 0)\<rparr>)),
       w_calls := w_calls w @ [Accept sock, Set_Nonblock sock] @ (case b of
         EPOLL \<Rightarrow> [Epoll_Add sock, Timerfd_Create tfd, Epoll_Add tfd]
       | KQUEUE \<Rightarrow> [Kevent sock EVFILT_TIMER EV_ADD_ENABLE])\<rparr>"

lemma accept_accepted:
  assumes "hs_server_accept_connection (client_handler b) (client_timer_handler b) w = Inr (x, w')"
    and "w_build w = b"
  shows "(\<exists>sock accepts. sock \<le> 0 \<and> x = None \<and> w' = os_log (Accept sock) (w\<lparr>w_accepts := accepts\<rparr>))
    \<or> (\<exists>sock accepts tfd fds. 0 < sock \<and> x = Some (w_next w) \<and> w' = accepted b sock accepts tfd fds w)"
proof -
  obtain sock accepts where a: "(case w_accepts w of [] \<Rightarrow> (- 1, []) | s # ss \<Rightarrow> (s, ss)) = (sock, accepts)"
    by (meson surj_pair)
  show ?thesis
  proof (cases "0 < sock")
    case False
    with assms(1) a show ?thesis by (auto simp: hs_server_accept_connection_def not_less)
  next
    case True
    with assms a have "x = Some (w_next w)
      \<and> w' = accepted b sock accepts (case w_fds w of [] \<Rightarrow> - 1 | fd # fds \<Rightarrow> fd) (tl (w_fds w)) w"
      by (cases b) (auto simp: hs_server_accept_connection_def hs_add_timer_event_def hs_add_timer_event_kqueue_def modify_def Let_def os_new_fd_eq
          os_log_def deref_def assign_def accepted_def hs_request_init_def)
    with True show ?thesis by blast
  qed
qed

lemma accepted_heap_ok:
  assumes "heap_ok b w"
  shows "heap_ok b (accepted b sock accepts tfd fds w)"
proof -
  have "s < Suc (w_next w)" if "w_heap w s = Some rq" for s rq
    using heap_ok_request [OF assms that] by simp
  with assms heap_ok_request [OF assms] show ?thesis
    by (simp add: heap_ok_def accepted_def hs_request_init_def)
qed

interpretation handlers: world_invariant b "heap_ok b" for b
proof
  fix w r rq rq'
  assume "heap_ok b w" and "deref r w = Inr rq" and "same_identity rq rq'"
  then show "heap_ok b (assign r rq' w)"
    by (auto simp: heap_ok_def assign_def same_identity_def hs_simps)
next
  fix w w'
  assume "heap_ok b w" and "same_core w w'"
  then show "heap_ok b w'" by (simp add: heap_ok_def same_core_def)
next
  fix w r w'
  assume ok: "heap_ok b w" and t: "hs_request_terminate_connection r w = Inr w'"
  from t obtain rq m where "w' = freed (w_build w) r rq m w" by (rule terminate_freed)
  with ok show "heap_ok b w'" by (auto simp: heap_ok_def freed_def set_memused_def)
next
  fix w x w'
  assume ok: "heap_ok b w"
    and a: "hs_server_accept_connection (client_handler b) (client_timer_handler b) w = Inr (x, w')"
  have build: "w_build w = b" using ok by (simp add: heap_ok_def)
  from accept_accepted [OF a build] ok show "heap_ok b w'"
    by (elim disjE exE conjE) (simp_all add: accepted_heap_ok, simp add: heap_ok_def os_log_def)
next
  fix w ev h
  assume ok: "heap_ok b w" and ev: "event_handler ev w = Inr h"
  show "h \<in> handlers_of b"
  proof (cases b)
    case EPOLL
    with ok ev show ?thesis
      by (cases ev) (auto simp: event_handler_def event_handler_kqueue_def event_handler_epoll_def heap_ok_def bindr_Inr_iff hs_simps split: option.splits)
  next
    case KQUEUE
    with ok ev show ?thesis
      by (cases ev) (auto simp: event_handler_def event_handler_kqueue_def event_handler_epoll_def heap_ok_def bindr_Inr_iff hs_simps)
  qed
qed (simp_all add: heap_ok_def os_log_def)

text \<open>A server after \<open>http_server_init\<close> and \<open>http_server_listen\<close>, without connections.\<close>

definition started :: "http_server_s \<Rightarrow> int \<Rightarrow> fnptr \<Rightarrow> int \<Rightarrow> world \<Rightarrow> world result" where
  "started serv port handler now w =
     hs_server_listen_on_addr None True (http_server_init serv port handler now w)"

lemma started_simps:
  assumes "started serv port handler now w = Inr w'"
  shows "w_build w' = w_build w \<and> w_heap w' = w_heap w \<and> w_next w' = w_next w
    \<and> sv_handler (w_server w') = server_handler (w_build w)
    \<and> (w_build w = EPOLL \<longrightarrow> sv_timer_handler (w_server w') = Some On_Server_Timer)"
proof -
  define w1 where "w1 = http_server_init serv port handler now w"
  have "w_build w1 = w_build w \<and> w_heap w1 = w_heap w \<and> w_next w1 = w_next w
    \<and> sv_handler (w_server w1) = server_handler (w_build w)
    \<and> (w_build w = EPOLL \<longrightarrow> sv_timer_handler (w_server w1) = Some On_Server_Timer)"
    by (cases "w_build w") (simp_all add: w1_def http_server_init_def hs_server_init_def hs_server_init_events_def hs_server_init_events_kqueue_def
        hs_generate_date_time_def os_log_def os_new_fd_eq Let_def)
  moreover have "hs_server_listen_on_addr None True w1 = Inr w'"
    using assms by (simp add: started_def w1_def)
  ultimately show ?thesis
    by (cases "w_build w") (auto simp: hs_server_listen_on_addr_def hs_bind_localhost_def hs_add_server_sock_events_def hs_add_server_sock_events_kqueue_def os_log_def
        os_new_fd_eq Let_def)
qed

lemma started_heap_ok:
  assumes "started serv port handler now w = Inr w'" and "w_heap w = (\<lambda>_. None)"
  shows "heap_ok (w_build w) w'"
  using assms started_simps [OF assms(1)] by (simp add: heap_ok_def)

section \<open>Descriptors\<close>

text \<open>How often the log opens and closes a descriptor, and how often a request owns it.\<close>

fun opens :: "int \<Rightarrow> os_call \<Rightarrow> int" where
  "opens fd (Accept s) = of_bool (s = fd)"
| "opens fd (Socket_Create s) = of_bool (s = fd)"
| "opens fd (Timerfd_Create s) = of_bool (s = fd)"
| "opens fd (Close s) = - of_bool (s = fd)"
| "opens fd _ = 0"

definition balance :: "int \<Rightarrow> os_call list \<Rightarrow> int" where
  "balance fd cs = (\<Sum>c\<leftarrow>cs. opens fd c)"

lemma balance_append [simp]: "balance fd (cs @ ds) = balance fd cs + balance fd ds"
  by (simp add: balance_def)

lemma balance_simps [simp]:
  "balance fd [] = 0" "balance fd (c # cs) = opens fd c + balance fd cs"
  by (simp_all add: balance_def)

fun owns :: "build \<Rightarrow> int \<Rightarrow> http_request_s option \<Rightarrow> int" where
  "owns b fd None = 0"
| "owns EPOLL fd (Some rq) = of_bool (rq_socket rq = fd) + of_bool (rq_timerfd rq = fd)"
| "owns KQUEUE fd (Some rq) = of_bool (rq_socket rq = fd)"

definition in_use :: "build \<Rightarrow> int \<Rightarrow> world \<Rightarrow> int" where
  "in_use b fd w = (\<Sum>r<w_next w. owns b fd (w_heap w r))"

text \<open>\<open>base\<close> counts the descriptors that do not belong to a request. Descriptors are positive.\<close>

definition fds_ok :: "build \<Rightarrow> (int \<Rightarrow> int) \<Rightarrow> world \<Rightarrow> bool" where
  "fds_ok b base w \<longleftrightarrow> heap_ok b w
     \<and> (\<forall>fd>0. balance fd (w_calls w) = base fd + in_use b fd w)"

lemma sum_update:
  fixes f :: "nat \<Rightarrow> http_request_s option" and g :: "http_request_s option \<Rightarrow> int"
  assumes "r < n"
  shows "(\<Sum>s<n. g ((f(r := v)) s)) = (\<Sum>s<n. g (f s)) - g (f r) + g v"
proof -
  have "(\<Sum>s<n. g ((f(r := v)) s)) = g v + (\<Sum>s\<in>{..<n} - {r}. g ((f(r := v)) s))"
    using assms by (subst sum.remove [of _ r]) auto
  also have "(\<Sum>s\<in>{..<n} - {r}. g ((f(r := v)) s)) = (\<Sum>s\<in>{..<n} - {r}. g (f s))"
    by (rule sum.cong) auto
  also have "\<dots> = (\<Sum>s<n. g (f s)) - g (f r)"
    using assms by (simp add: sum_diff1)
  finally show ?thesis by simp
qed

lemma in_use_assign:
  assumes "heap_ok b w" and "deref r w = Inr rq" and "same_identity rq rq'"
  shows "in_use b fd (assign r rq' w) = in_use b fd w"
proof -
  from assms(2) have h: "w_heap w r = Some rq" by (simp add: hs_simps)
  have "owns b fd (Some rq') = owns b fd (Some rq)"
    using assms(3) by (cases b) (simp_all add: same_identity_def)
  with h heap_ok_request [OF assms(1) h] sum_update [of r "w_next w" "owns b fd" "w_heap w" "Some rq'"]
  show ?thesis by (simp add: in_use_def assign_def del: owns.simps)
qed

lemma in_use_freed:
  assumes "heap_ok b w" and "deref r w = Inr rq" and "0 < fd"
  shows "balance fd (w_calls (freed b r rq m w)) - in_use b fd (freed b r rq m w)
       = balance fd (w_calls w) - in_use b fd w"
proof -
  from assms(2) have h: "w_heap w r = Some rq" by (simp add: hs_simps)
  with heap_ok_request [OF assms(1) h] sum_update [of r "w_next w" "owns b fd" "w_heap w" None]
  have "in_use b fd (freed b r rq m w) = in_use b fd w - owns b fd (Some rq)"
    by (simp add: in_use_def freed_def set_memused_def)
  then show ?thesis by (cases b) (simp_all add: freed_def)
qed

lemma in_use_accepted:
  assumes "heap_ok b w"
  shows "balance fd (w_calls (accepted b sock accepts tfd fds w)) - in_use b fd (accepted b sock accepts tfd fds w)
       = balance fd (w_calls w) - in_use b fd w"
proof -
  have "(\<Sum>s<w_next w. owns b fd (((w_heap w)(w_next w := v)) s)) = (\<Sum>s<w_next w. owns b fd (w_heap w s))" for v
    by (rule sum.cong) auto
  then show ?thesis
    by (cases b) (simp_all add: in_use_def accepted_def hs_request_init_def del: fun_upd_apply,
      simp_all add: hs_request_init_def)
qed

interpretation fds: world_invariant b "fds_ok b base" for b base
proof
  fix w r rq rq'
  assume ok: "fds_ok b base w" and rq: "deref r w = Inr rq" "same_identity rq rq'"
  then have "heap_ok b (assign r rq' w)" using handlers.on_assign by (simp add: fds_ok_def)
  with ok in_use_assign [OF _ rq] show "fds_ok b base (assign r rq' w)"
    by (simp add: fds_ok_def) (simp add: assign_def)
next
  fix w w'
  assume ok: "fds_ok b base w" and c: "same_core w w'"
  then have "heap_ok b w'" using handlers.on_core by (auto simp: fds_ok_def)
  with ok c show "fds_ok b base w'" by (simp add: fds_ok_def same_core_def in_use_def)
next
  fix w c
  assume ok: "fds_ok b base w" and c: "watches c"
  then have "opens fd c = 0" for fd by (cases c) simp_all
  with ok show "fds_ok b base (os_log c w)"
    by (simp add: fds_ok_def handlers.on_watch [OF _ c]) (simp add: os_log_def in_use_def)
next
  fix w r w'
  assume ok: "fds_ok b base w" and t: "hs_request_terminate_connection r w = Inr w'"
  have h: "heap_ok b w" "w_build w = b" using ok by (simp_all add: fds_ok_def heap_ok_def)
  from t obtain rq m where rq: "deref r w = Inr rq" and w': "w' = freed (w_build w) r rq m w"
    by (rule terminate_freed)
  have "balance fd (w_calls w') - in_use b fd w' = base fd" if "0 < fd" for fd
    using in_use_freed [OF h(1) rq that] ok that by (simp add: w' h fds_ok_def)
  with handlers.on_terminate [OF h(1) t] show "fds_ok b base w'"
    by (simp add: fds_ok_def eq_diff_eq [symmetric] algebra_simps)
next
  fix w x w'
  assume ok: "fds_ok b base w"
    and a: "hs_server_accept_connection (client_handler b) (client_timer_handler b) w = Inr (x, w')"
  have h: "heap_ok b w" "w_build w = b" using ok by (simp_all add: fds_ok_def heap_ok_def)
  have "balance fd (w_calls w') - in_use b fd w' = base fd" if "0 < fd" for fd
    using accept_accepted [OF a h(2)] ok that
  proof (elim disjE exE conjE)
    fix sock accepts
    assume "sock \<le> 0" and "w' = os_log (Accept sock) (w\<lparr>w_accepts := accepts\<rparr>)"
    with ok that show ?thesis by (simp add: fds_ok_def os_log_def in_use_def)
  next
    fix sock accepts tfd fds
    assume "w' = accepted b sock accepts tfd fds w"
    with in_use_accepted [OF h(1)] ok that show ?thesis by (simp add: fds_ok_def)
  qed
  with handlers.on_accept [OF h(1) a] show "fds_ok b base w'"
    by (simp add: fds_ok_def algebra_simps)
next
  fix w ev h
  assume "fds_ok b base w" and "event_handler ev w = Inr h"
  then show "h \<in> handlers_of b" using handlers.on_handler by (auto simp: fds_ok_def)
qed (simp add: fds_ok_def heap_ok_def)


lemma started_fds_ok:
  assumes "started serv port handler now w = Inr w'" and "w_heap w = (\<lambda>_. None)"
  shows "fds_ok (w_build w) (\<lambda>fd. balance fd (w_calls w')) w'"
  using started_heap_ok [OF assms] started_simps [OF assms(1)] assms(2) by (simp add: fds_ok_def in_use_def)

section \<open>The running server\<close>

text \<open>
  C22. Whatever the user's code does and whatever events and bytes arrive, in both builds: each
  event is handled by the function written for it. The data pointers that the event loop casts
  and the handlers stored behind them stay what accepting and starting set them to.
\<close>

theorem events_reach_their_handlers:
  fixes user n
  defines "run \<equiv> run_handler user n"
    and "rd_sock \<equiv> request_cycle user n E_Read" and "wr_sock \<equiv> request_cycle user n E_Write"
  assumes "started serv port handler now w = Inr w1" and "w_heap w = (\<lambda>_. None)"
    and "event_loop run evs w1 = Inr w2"
  shows "handle_event run (Ev_Request r) w2 = hs_on_epoll_client_connection_event rd_sock wr_sock r w2
    \<and> handle_event run (Ev_Request_Timer r) w2 = hs_on_epoll_request_timer_event r w2
    \<and> handle_event run (Ev_Server_Timer date) w2 = hs_on_epoll_server_timer_event date w2
    \<and> handle_event run Ev_Server_Socket w2 =
      hs_accept_and_begin_request_cycle (hs_request_begin_write wr_sock) (hs_request_begin_read rd_sock)
        (client_handler (w_build w)) (client_timer_handler (w_build w)) w2"
proof (intro conjI)
  have ok: "heap_ok (w_build w) w2"
    using handlers.on_event_loop started_heap_ok assms unfolding run_def by blast
  note defs = run_def rd_sock_def wr_sock_def handle_event_def event_handler_def event_handler_kqueue_def event_handler_epoll_def run_handler_def Let_def
    hs_on_epoll_server_connection_event_def hs_on_epoll_server_timer_event_def hs_on_kqueue_server_event_def
    kqueue_client_event
  have sv: "w_build w2 = w_build w" "sv_handler (w_server w2) = server_handler (w_build w)"
    "w_build w = EPOLL \<Longrightarrow> sv_timer_handler (w_server w2) = Some On_Server_Timer"
    using ok by (simp_all add: heap_ok_def)
  show "handle_event run (Ev_Server_Timer date) w2 = hs_on_epoll_server_timer_event date w2"
    using sv by (cases "w_build w") (simp_all add: defs)
  show "handle_event run Ev_Server_Socket w2 =
      hs_accept_and_begin_request_cycle (hs_request_begin_write wr_sock) (hs_request_begin_read rd_sock)
        (client_handler (w_build w)) (client_timer_handler (w_build w)) w2"
    using sv by (cases "w_build w") (simp_all add: defs)
  show "handle_event run (Ev_Request r) w2 = hs_on_epoll_client_connection_event rd_sock wr_sock r w2"
  proof (cases "w_heap w2 r")
    case None
    with sv show ?thesis
      by (cases "w_build w") (simp_all add: defs deref_def hs_on_epoll_client_connection_event_def)
  next
    case (Some rq)
    with sv heap_ok_request [OF ok Some] show ?thesis
      by (cases "w_build w") (simp_all add: defs deref_def)
  qed
  show "handle_event run (Ev_Request_Timer r) w2 = hs_on_epoll_request_timer_event r w2"
  proof (cases "w_heap w2 r")
    case None
    with sv show ?thesis
      by (cases "w_build w") (simp_all add: defs deref_def hs_on_epoll_request_timer_event_def modify_def)
  next
    case (Some rq)
    with sv heap_ok_request [OF ok Some] show ?thesis
      by (cases "w_build w") (simp_all add: defs deref_def)
  qed
qed

text \<open>
  C23. No descriptor leaks and none is closed twice: whatever the user's code does and whatever
  happens, each positive descriptor has been opened as often as closed, apart from those the
  server opened when it started and one time for each live request that owns it.
\<close>

theorem descriptors_accounted:
  assumes "started serv port handler now w = Inr w1" and "w_heap w = (\<lambda>_. None)"
    and "event_loop (run_handler user n) evs w1 = Inr w2" and "0 < fd"
  shows "balance fd (w_calls w2) = balance fd (w_calls w1) + in_use (w_build w) fd w2"
  using fds.on_event_loop [OF assms(3) started_fds_ok [OF assms(1,2)]] assms(4)
  by (simp add: fds_ok_def)

section \<open>Time-outs\<close>

lemma tick_frees:
  assumes "deref r w = Inr rq" and "rq_timeout rq = 1"
  shows "\<exists>m. hs_on_epoll_request_timer_event r w = Inr (freed (w_build w) r rq m w)"
proof -
  let ?rq = "rq\<lparr>rq_timeout := 0\<rparr>"
  have "freed (w_build (assign r ?rq w)) r ?rq m (assign r ?rq w) = freed (w_build w) r rq m w" for m
    by (cases "w_build w") (simp_all add: freed_def assign_def set_memused_def)
  with terminate_total [OF deref_assign [of r ?rq w]]
  obtain m where t: "hs_request_terminate_connection r (assign r ?rq w) = Inr (freed (w_build w) r rq m w)"
    by auto
  with assms show ?thesis
    by (auto simp: hs_on_epoll_request_timer_event_def modify_def i32_def)
qed

lemma tick_counts:
  assumes "deref r w = Inr rq" and "1 < rq_timeout rq" and "rq_timeout rq < 2147483648"
  shows "hs_on_epoll_request_timer_event r w = Inr (assign r (rq\<lparr>rq_timeout := rq_timeout rq - 1\<rparr>) w)"
  using assms by (simp add: hs_on_epoll_request_timer_event_def modify_def i32_id)

lemma tick_handled:
  assumes "heap_ok b w"
  shows "handle_event (run_handler user n) (Ev_Request_Timer r) w = hs_on_epoll_request_timer_event r w"
proof (cases "w_heap w r")
  case None
  then show ?thesis
    by (cases "w_build w") (simp_all add: handle_event_def event_handler_def event_handler_kqueue_def event_handler_epoll_def deref_def hs_on_epoll_request_timer_event_def modify_def)
next
  case (Some rq)
  moreover have "w_build w = b" using assms by (simp add: heap_ok_def)
  ultimately show ?thesis using heap_ok_request [OF assms Some]
    by (cases b) (simp_all add: handle_event_def event_handler_def event_handler_kqueue_def event_handler_epoll_def deref_def run_handler_def kqueue_client_event)
qed

text \<open>
  C24. An idle connection is closed on time: after as many ticks of its timer as its time-out
  counts, with no other event of that request in between, the request is freed and its socket
  closed, and not one tick earlier.
\<close>

theorem idle_request_times_out:
  assumes "heap_ok b w" and "deref r w = Inr rq" and "rq_timeout rq = int n" and "0 < n" and "n < 2147483648"
  shows "(\<forall>m<n. event_loop (run_handler user k) (replicate m (Ev_Request_Timer r)) w
      = Inr (assign r (rq\<lparr>rq_timeout := int n - int m\<rparr>) w))
    \<and> (\<exists>w'. event_loop (run_handler user k) (replicate n (Ev_Request_Timer r)) w = Inr w'
      \<and> w_heap w' r = None \<and> last (w_calls w') = Close (rq_socket rq) \<and> w_sent w' = w_sent w)"
proof -
  have count: "event_loop (run_handler user k) (replicate m (Ev_Request_Timer r)) w
      = Inr (assign r (rq\<lparr>rq_timeout := int n - int m\<rparr>) w)" if "m < n" for m
    using assms that
  proof (induction m arbitrary: w rq n)
    case 0
    then show ?case by (simp add: assign_def hs_simps fun_upd_idem)
  next
    case (Suc m)
    let ?rq = "rq\<lparr>rq_timeout := int n - 1\<rparr>"
    have ok: "heap_ok b (assign r ?rq w)"
      by (rule handlers.on_assign [OF Suc.prems(1,2)]) (simp add: same_identity_def)
    have "event_loop (run_handler user k) (replicate m (Ev_Request_Timer r)) (assign r ?rq w)
        = Inr (assign r (?rq\<lparr>rq_timeout := int (n - 1) - int m\<rparr>) (assign r ?rq w))"
      using Suc.prems by (intro Suc.IH [OF ok]) auto
    with Suc.prems show ?case by (simp add: tick_handled [OF Suc.prems(1)] tick_counts algebra_simps)
  qed
  let ?w = "assign r (rq\<lparr>rq_timeout := 1\<rparr>) w"
  have ok: "heap_ok b ?w"
    by (rule handlers.on_assign [OF assms(1,2)]) (simp add: same_identity_def)
  obtain l where n: "n = Suc l" using assms(4) gr0_implies_Suc by blast
  obtain mm where "hs_on_epoll_request_timer_event r ?w = Inr (freed (w_build ?w) r (rq\<lparr>rq_timeout := 1\<rparr>) mm ?w)"
    using tick_frees [of r ?w] by auto
  moreover have "replicate n (Ev_Request_Timer r) = replicate l (Ev_Request_Timer r) @ [Ev_Request_Timer r]"
    by (simp add: n replicate_append_same)
  ultimately have "\<exists>w'. event_loop (run_handler user k) (replicate n (Ev_Request_Timer r)) w = Inr w'
      \<and> w_heap w' r = None \<and> last (w_calls w') = Close (rq_socket rq) \<and> w_sent w' = w_sent w"
    using count [of l] by (simp add: n event_loop_append tick_handled [OF ok] del: replicate.simps)
      (simp add: freed_def set_memused_def assign_def)
  with count show ?thesis by blast
qed

section \<open>Instances\<close>

definition idle_world :: "build \<Rightarrow> world" where
  "idle_world b = sample_world\<lparr>w_build := b, w_accepts := [7], w_fds := [4, 5, 3, 8]\<rparr>"

definition idle_start :: "build \<Rightarrow> world result" where
  "idle_start b = started sample_server 8080 0 0 (idle_world b)"

definition idle_run :: "build \<Rightarrow> world result" where
  "idle_run b = bindr (idle_start b) (event_loop (run_handler (\<lambda>_ _ _. Return) 1) [Ev_Server_Socket])"

text \<open>A connection comes in, with nothing to read yet.\<close>

definition waits :: "build \<Rightarrow> world result \<Rightarrow> bool" where
  "waits b res = (case res of Inl e \<Rightarrow> False
    | Inr w \<Rightarrow> (case w_heap w 0 of None \<Rightarrow> False | Some rq \<Rightarrow> rq_timeout rq = 20 \<and> rq_socket rq = 7)
        \<and> w_build w = b \<and> in_use b 7 w = 1)"

lemma idle_run_waits: "waits EPOLL (idle_run EPOLL)" "waits KQUEUE (idle_run KQUEUE)"
  by code_simp+

lemma idle_run_ends: "waits b (idle_run b)"
  using idle_run_waits by (cases b) simp_all

lemma idle_run_steps:
  obtains w1 w2 rq where "started sample_server 8080 0 0 (idle_world b) = Inr w1"
    and "event_loop (run_handler (\<lambda>_ _ _. Return) 1) [Ev_Server_Socket] w1 = Inr w2"
    and "deref 0 w2 = Inr rq" and "rq_timeout rq = 20" and "rq_socket rq = 7"
proof -
  from idle_run_ends [of b] obtain w2 rq where r: "idle_run b = Inr w2" "w_heap w2 0 = Some rq"
    "rq_timeout rq = 20" "rq_socket rq = 7"
    by (auto simp: waits_def split: sum.splits option.splits)
  then obtain w1 where "idle_start b = Inr w1"
    "event_loop (run_handler (\<lambda>_ _ _. Return) 1) [Ev_Server_Socket] w1 = Inr w2"
    by (auto simp: idle_run_def bindr_Inr_iff)
  with r that show ?thesis by (simp add: idle_start_def hs_simps)
qed

lemma idle_world_empty: "w_heap (idle_world b) = (\<lambda>_. None)" "w_build (idle_world b) = b"
  by (simp_all add: idle_world_def sample_world_def)

theorem events_reach_their_handlers_witness:
  "\<exists>w2. idle_run KQUEUE = Inr w2
    \<and> handle_event (run_handler (\<lambda>_ _ _. Return) 1) (Ev_Request_Timer 0) w2 = hs_on_epoll_request_timer_event 0 w2"
proof -
  obtain w1 w2 rq where w: "started sample_server 8080 0 0 (idle_world KQUEUE) = Inr w1"
    "event_loop (run_handler (\<lambda>_ _ _. Return) 1) [Ev_Server_Socket] w1 = Inr w2"
    by (rule idle_run_steps)
  have "idle_run KQUEUE = Inr w2" using w by (simp add: idle_run_def idle_start_def)
  then show ?thesis
    using events_reach_their_handlers [OF w(1) idle_world_empty(1) w(2), of 0 0] by blast
qed

theorem descriptors_accounted_witness:
  "\<exists>w1 w2. idle_start EPOLL = Inr w1 \<and> idle_run EPOLL = Inr w2
    \<and> balance 7 (w_calls w2) = balance 7 (w_calls w1) + in_use EPOLL 7 w2 \<and> in_use EPOLL 7 w2 = 1"
proof -
  obtain w1 w2 rq where w: "started sample_server 8080 0 0 (idle_world EPOLL) = Inr w1"
    "event_loop (run_handler (\<lambda>_ _ _. Return) 1) [Ev_Server_Socket] w1 = Inr w2"
    by (rule idle_run_steps)
  have r: "idle_start EPOLL = Inr w1" "idle_run EPOLL = Inr w2"
    using w by (simp_all add: idle_run_def idle_start_def)
  have "in_use EPOLL 7 w2 = 1" using idle_run_ends [of EPOLL] r by (simp add: waits_def)
  with r descriptors_accounted [OF w(1) idle_world_empty(1) w(2), of 7] idle_world_empty(2) show ?thesis
    by simp
qed

theorem idle_request_times_out_witness:
  "\<exists>w2 w3. idle_run EPOLL = Inr w2
    \<and> event_loop (run_handler (\<lambda>_ _ _. Return) 1) (replicate 20 (Ev_Request_Timer 0)) w2 = Inr w3
    \<and> w_heap w3 0 = None"
proof -
  obtain w1 w2 rq where w: "started sample_server 8080 0 0 (idle_world EPOLL) = Inr w1"
    "event_loop (run_handler (\<lambda>_ _ _. Return) 1) [Ev_Server_Socket] w1 = Inr w2"
    "deref 0 w2 = Inr rq" "rq_timeout rq = 20"
    by (rule idle_run_steps)
  have "heap_ok EPOLL w2"
    using handlers.on_event_loop [OF w(2)] started_heap_ok [OF w(1) idle_world_empty(1)] idle_world_empty(2) by simp
  then have "\<exists>w3. event_loop (run_handler (\<lambda>_ _ _. Return) 1) (replicate 20 (Ev_Request_Timer 0)) w2 = Inr w3
      \<and> w_heap w3 0 = None"
    using idle_request_times_out [OF _ w(3), of _ 20 "\<lambda>_ _ _. Return" 1] w(4) by auto
  moreover have "idle_run EPOLL = Inr w2" using w by (simp add: idle_run_def idle_start_def)
  ultimately show ?thesis by blast
qed

end
