(* ===== verification/Parse_Loop.thy ===== *)
theory Parse_Loop
  imports Read_Socket Connection
begin

text \<open>
  The parse loop of \<^verbatim>\<open>read_socket.c\<close> ends: each call of the parser that makes the loop go
  on has consumed a byte, and once the headers are read the next call ends it. Two more clients of
  \<open>scan_contract\<close> give the progress of a call in the head and in the body of a request.
\<close>

section \<open>Progress of one call\<close>

text \<open>The states of the head, and the states in which body data is read under an entered token.\<close>

definition head_state :: "nat \<Rightarrow> bool" where
  "head_state cs \<longleftrightarrow> cs < 66 \<or> cs = 90"

definition typed_state :: "nat \<Rightarrow> bool" where
  "typed_state cs \<longleftrightarrow> data_state cs \<or> cs = 96 \<or> cs = 97"

text \<open>
  \<open>head_acts\<close>: the actions of the head. \<open>acts_typed b t as\<close>: in the action list of an
  edge to \<open>t\<close>, body data is delivered under a body token (\<open>b\<close>: it was entered before).
\<close>

definition head_acts :: "act list \<Rightarrow> bool" where
  "head_acts as \<longleftrightarrow> list_all (\<lambda>a. a \<notin> {A_body, A_chunk_start, A_chunk_size, A_chunk_read, A_end_stream,
     A_small_body_read, A_large_body_read}) as"

fun acts_typed :: "bool \<Rightarrow> nat \<Rightarrow> act list \<Rightarrow> bool" where
  "acts_typed b t [] \<longleftrightarrow> (typed_state t \<longrightarrow> b)"
| "acts_typed b t (a # as) \<longleftrightarrow>
     (if a = A_body then acts_typed True t as
      else if a \<in> {A_chunk_read, A_small_body_read, A_large_body_read} then b \<and> acts_typed b t as
      else a \<in> {A_chunk_start, A_chunk_size, A_end_stream, A_error} \<and> acts_typed b t as)"

lemma edges_head: "all_edges (\<lambda>cs t as. head_state cs \<longrightarrow> head_state t \<and> head_acts as)"
  by (simp add: all_edges_eval head_state_def head_acts_def)

lemma edges_body: "all_edges (\<lambda>cs t as. \<not> head_state cs \<longrightarrow> (t = 0 \<or> \<not> head_state t) \<and> acts_typed (typed_state cs) t as)"
  by (simp add: all_edges_eval head_state_def typed_state_def data_state_def)

definition ready :: "hsh_parser_s \<Rightarrow> bool" where
  "ready ps \<longleftrightarrow> HTTP_FLAG_CHECK (ps_flags ps) HSH_P_FLAG_TOKEN_READY"

lemma ready_flags:
  "HTTP_FLAG_CHECK (HTTP_FLAG_SET f HSH_P_FLAG_CHUNKED) HSH_P_FLAG_TOKEN_READY
     \<longleftrightarrow> HTTP_FLAG_CHECK f HSH_P_FLAG_TOKEN_READY"
  "\<not> HTTP_FLAG_CHECK (HTTP_FLAG_CLEAR f HSH_P_FLAG_TOKEN_READY) HSH_P_FLAG_TOKEN_READY"
proof -
  have "(f OR 1) AND 2 = f AND (2 :: 8 word)" "(f AND NOT 2) AND 2 = (0 :: 8 word)"
    by (simp_all add: bit.conj_disj_distrib2 and.assoc)
  then show "HTTP_FLAG_CHECK (HTTP_FLAG_SET f HSH_P_FLAG_CHUNKED) HSH_P_FLAG_TOKEN_READY
     \<longleftrightarrow> HTTP_FLAG_CHECK f HSH_P_FLAG_TOKEN_READY"
    "\<not> HTTP_FLAG_CHECK (HTTP_FLAG_CLEAR f HSH_P_FLAG_TOKEN_READY) HSH_P_FLAG_TOKEN_READY"
    by (simp_all add: flag_ops parser_flags)
qed

subsection \<open>In the head\<close>

definition head_mid :: "int \<Rightarrow> int \<Rightarrow> xst \<Rightarrow> bool" where
  "head_mid n i x \<longleftrightarrow> bf_length (x_bf x) = n \<and> i \<le> x_p x \<and> x_p x < n \<and> head_state (x_cs x) \<and> \<not> ready (x_ps x)"

definition head_stop :: "int \<Rightarrow> int \<Rightarrow> xst \<Rightarrow> bool" where
  "head_stop n i y \<longleftrightarrow> (ready (x_ps y) \<longrightarrow> x_cs y \<in> {74, 88, 89}
     \<or> head_state (x_cs y) \<and> i < x_p y \<and> x_p y \<le> n \<and> bf_length (x_bf y) = n)"

lemma do_action_head:
  assumes "head_mid n i x" and "head_acts (a # as)"
  shows "case do_action mv mx pe c a x of
      Inl e \<Rightarrow> False
    | Inr (Stop y) \<Rightarrow> head_stop n i y
    | Inr (Cont y) \<Rightarrow> head_mid n i y"
  using assms
  by (cases a)
    (auto simp: head_acts_def head_mid_def head_stop_def HSH_ENTER_TOKEN_def act_emit_token_def
      act_content_length_digit_def act_transfer_encoding_def act_reset_count_def act_inc_count_def
      act_done_headers_def fbreak_def set_ready_def token_flag_set_def ready_def ready_flags Let_def
      hsh_http_entry_defs)

lemma run_actions_head:
  assumes "head_mid n i x" and "head_acts as"
  shows "case run_actions mv mx pe c as x of
      Inl e \<Rightarrow> False
    | Inr (Stop y) \<Rightarrow> head_stop n i y
    | Inr (Cont y) \<Rightarrow> head_mid n i y"
  using assms
proof (induction as arbitrary: x)
  case (Cons a as)
  have as: "head_acts as" using Cons.prems(2) by (simp add: head_acts_def)
  note step = do_action_head [OF Cons.prems, of mv mx pe c]
  show ?case
  proof (cases "do_action mv mx pe c a x")
    case (Inr r)
    with step Cons.IH [OF _ as] show ?thesis by (cases r) auto
  qed (use step in simp)
qed simp

lemma scan_head:
  assumes "head_mid pe i x" and "0 < x_cs x"
  shows "case scan mv mx pe x of Inl e \<Rightarrow> e \<noteq> Out_Of_Fuel | Inr y \<Rightarrow> head_stop pe i y"
  using assms
proof (induction mv mx pe x rule: scan.induct)
  case (1 mv mx pe x)
  show ?case
  proof (cases "rd (bf_buf (x_bf x)) (x_p x)")
    case (Inl e)
    then show ?thesis by (auto simp: scan.simps [of mv mx pe x] rd_def split: option.splits if_splits)
  next
    case (Inr c)
    define t where "t = hsh_trans (x_cs x) c"
    have "x_cs x < 98" using "1.prems" by (auto simp: head_mid_def head_state_def)
    then have t: "head_state (fst t)" "head_acts (snd t)"
      using all_edgesD [OF edges_head "1.prems"(2), of c] "1.prems"(1) by (simp_all add: t_def head_mid_def)
    then have "head_mid pe i (x\<lparr>x_cs := fst t\<rparr>)" using "1.prems"(1) by (simp add: head_mid_def)
    from run_actions_head [OF this t(2), of mv mx pe c] obtain r
      where r: "run_actions mv mx pe c (snd t) (x\<lparr>x_cs := fst t\<rparr>) = Inr r"
        and post: "case r of Cont y \<Rightarrow> head_mid pe i y | Stop y \<Rightarrow> head_stop pe i y"
      by (auto split: sum.splits)
    show ?thesis
    proof (cases r)
      case (Stop y)
      with Inr r post show ?thesis by (simp add: scan.simps [of mv mx pe x] t_def)
    next
      case (Cont y)
      with post have y: "head_mid pe i y" by simp
      show ?thesis
      proof (cases "x_cs y = hsh_http_error \<or> x_p y + 1 = pe")
        case True
        with Inr r Cont y show ?thesis
          by (auto simp: scan.simps [of mv mx pe x] t_def head_mid_def head_stop_def)
      next
        case False
        then have "head_mid pe i (y\<lparr>x_p := x_p y + 1\<rparr>)" "0 < x_cs (y\<lparr>x_p := x_p y + 1\<rparr>)"
          using y by (auto simp: head_mid_def hsh_http_error_def)
        with "1.IH" [OF Inr r [unfolded t_def] Cont] False Inr r Cont show ?thesis
          by (simp add: scan.simps [of mv mx pe x] t_def)
      qed
    qed
  qed
qed

subsection \<open>In the body\<close>

definition body_mid :: "bool \<Rightarrow> xst \<Rightarrow> bool" where
  "body_mid b x \<longleftrightarrow> \<not> ready (x_ps x) \<and> (b \<longrightarrow> tk_type (ps_token (x_ps x)) = HSH_TOK_BODY)"

definition body_stop :: "xst \<Rightarrow> bool" where
  "body_stop y \<longleftrightarrow> (ready (x_ps y) \<longrightarrow> tk_type (ps_token (x_ps y)) = HSH_TOK_BODY)"

lemma do_action_body:
  assumes "body_mid b x" and "acts_typed b t (a # as)"
  shows "case do_action mv mx pe c a x of
      Inl e \<Rightarrow> e \<noteq> Out_Of_Fuel
    | Inr (Stop y) \<Rightarrow> body_stop y
    | Inr (Cont y) \<Rightarrow> body_mid (a = A_body \<or> b) y"
  using assms
  by (cases a)
    (auto simp: body_mid_def body_stop_def act_body_def act_chunk_start_def act_chunk_size_def act_chunk_read_def
      act_end_stream_def act_small_body_read_def act_large_body_read_def fbreak_def fhold_def set_ready_def set_done_def
      token_flag_set_def ready_def Let_def bindr_def memcpy_within_def cells_def store_def
      split: option.splits sum.splits if_splits)

lemma run_actions_body:
  assumes "body_mid b x" and "acts_typed b t as"
  shows "case run_actions mv mx pe c as x of
      Inl e \<Rightarrow> e \<noteq> Out_Of_Fuel
    | Inr (Stop y) \<Rightarrow> body_stop y
    | Inr (Cont y) \<Rightarrow> body_mid (typed_state t) y"
  using assms
proof (induction as arbitrary: x b)
  case Nil
  then show ?case by (auto simp: body_mid_def)
next
  case (Cons a as)
  have as: "acts_typed (a = A_body \<or> b) t as" using Cons.prems(2) by (auto split: if_splits)
  note step = do_action_body [OF Cons.prems, of mv mx pe c]
  show ?case
  proof (cases "do_action mv mx pe c a x")
    case (Inr r)
    with step Cons.IH [OF _ as] show ?thesis by (cases r) auto
  qed (use step in simp)
qed

text \<open>Outside the head: the states of the body and the error state.\<close>

lemma scan_body:
  assumes "body_mid (typed_state (x_cs x)) x" and "0 < x_cs x" and "x_cs x < 98" and "\<not> head_state (x_cs x)"
  shows "case scan mv mx pe x of Inl e \<Rightarrow> e \<noteq> Out_Of_Fuel | Inr y \<Rightarrow> body_stop y"
  using assms
proof (induction mv mx pe x rule: scan.induct)
  case (1 mv mx pe x)
  show ?case
  proof (cases "rd (bf_buf (x_bf x)) (x_p x)")
    case (Inl e)
    then show ?thesis by (auto simp: scan.simps [of mv mx pe x] rd_def split: option.splits if_splits)
  next
    case (Inr c)
    define t where "t = hsh_trans (x_cs x) c"
    have t: "fst t = 0 \<or> \<not> head_state (fst t)" "fst t < 98" "acts_typed (typed_state (x_cs x)) (fst t) (snd t)"
      using all_edgesD [OF edges_body "1.prems"(2,3), of c] all_edgesD [OF edges_in_table "1.prems"(2,3), of c]
        "1.prems"(4) by (simp_all add: t_def)
    have "body_mid (typed_state (x_cs x)) (x\<lparr>x_cs := fst t\<rparr>)" using "1.prems"(1) by (simp add: body_mid_def)
    note post = run_actions_body [OF this t(3), of mv mx pe c]
    show ?thesis
    proof (cases "run_actions mv mx pe c (snd t) (x\<lparr>x_cs := fst t\<rparr>)")
      case (Inl e)
      with Inr post \<open>rd _ _ = Inr c\<close> show ?thesis by (simp add: scan.simps [of mv mx pe x] t_def)
    next
      case r: (Inr r)
      show ?thesis
      proof (cases r)
        case (Stop y)
        with Inr r post show ?thesis by (simp add: scan.simps [of mv mx pe x] t_def)
      next
        case (Cont y)
        with r post have y: "body_mid (typed_state (fst t)) y" by simp
        have cs: "x_cs y = fst t" using run_actions_Cont [OF r [unfolded Cont]] by simp
        show ?thesis
        proof (cases "x_cs y = hsh_http_error \<or> x_p y + 1 = pe")
          case True
          with Inr r Cont y show ?thesis
            by (auto simp: scan.simps [of mv mx pe x] t_def body_mid_def body_stop_def)
        next
          case False
          then have "body_mid (typed_state (x_cs y)) (y\<lparr>x_p := x_p y + 1\<rparr>)" "0 < x_cs y" "x_cs y < 98" "\<not> head_state (x_cs y)"
            using y t cs by (auto simp: body_mid_def hsh_http_error_def)
          with "1.IH" [OF Inr r [unfolded t_def] Cont] False Inr r Cont show ?thesis
            by (simp add: scan.simps [of mv mx pe x] t_def)
        qed
      qed
    qed
  qed
qed

section \<open>One call of the parser\<close>

text \<open>
  What the loop relies on between two calls: a token that is not pending, a body token where
  body data is read, and in the head a cursor that is not behind the received bytes.
\<close>

definition loop_ready :: "hsh_parser_s \<Rightarrow> hsh_buffer_s \<Rightarrow> bool" where
  "loop_ready ps bf \<longleftrightarrow> ps_state ps < 98 \<and> \<not> ready ps
     \<and> (typed_state (ps_state ps) \<longrightarrow> tk_type (ps_token ps) = HSH_TOK_BODY)
     \<and> (head_state (ps_state ps) \<longrightarrow> 0 \<le> bf_index bf \<and> bf_index bf \<le> bf_length bf \<and> bf_length bf < 2147483648)"

definition need :: "hsh_parser_s \<Rightarrow> hsh_buffer_s \<Rightarrow> nat" where
  "need ps bf = (if head_state (ps_state ps) then nat (bf_length bf - bf_index bf) + 2 else 1)"

definition closing :: "hsh_token_s \<Rightarrow> bool" where
  "closing t \<longleftrightarrow> tk_type t = HSH_TOK_NONE \<or> tk_type t = HSH_TOK_BODY"

lemma states_98: "hsh_http_error = 0" "head_state 0" "\<not> head_state 74" "\<not> head_state 88" "\<not> head_state 89"
  "\<not> typed_state 74" "\<not> typed_state 88" "\<not> typed_state 89" "\<not> (typed_state n \<and> head_state n)"
  by (auto simp: hsh_http_error_def head_state_def typed_state_def data_state_def)

lemma scan_head_call:
  assumes "loop_ready ps bf" and "head_state (ps_state ps)" and "scan_exec mv mx (bf_length bf)
      \<lparr>x_cs = ps_state ps, x_p = bf_index bf, x_ps = ps, x_bf = bf\<rparr> = r"
  shows "case r of Inl e \<Rightarrow> e \<noteq> Out_Of_Fuel | Inr y \<Rightarrow> head_stop (bf_length bf) (bf_index bf) y"
proof -
  let ?x = "\<lparr>x_cs = ps_state ps, x_p = bf_index bf, x_ps = ps, x_bf = bf\<rparr>"
  have h: "head_mid (bf_length bf) (bf_index bf) ?x" if "bf_index bf \<noteq> bf_length bf"
    using assms(1,2) that by (auto simp: loop_ready_def head_mid_def)
  from assms(1) have "\<not> ready ps" by (simp add: loop_ready_def)
  with assms(3) scan_head [OF h, of mv mx] show ?thesis
    by (auto simp: scan_exec_def test_eof_def head_stop_def hsh_http_error_def split: if_splits sum.splits)
qed

lemma head_stop_loop_ready:
  assumes "loop_ready ps bf" and "head_state (ps_state ps)" and "head_stop (bf_length bf) (bf_index bf) y"
    and "ready (x_ps y)" and "ps_state ps' = x_cs y" and "\<not> ready ps'" and "bf' = (x_bf y)\<lparr>bf_index := i32 (x_p y)\<rparr>"
  shows "loop_ready ps' bf' \<and> need ps' bf' < need ps bf"
proof (cases "head_state (x_cs y)")
  case True
  with assms states_98(3-5) have p: "bf_index bf < x_p y" "x_p y \<le> bf_length bf" "bf_length (x_bf y) = bf_length bf"
    by (auto simp: head_stop_def)
  moreover have "i32 (x_p y) = x_p y" using assms(1,2) p by (intro i32_id) (auto simp: loop_ready_def)
  moreover have "\<not> typed_state (x_cs y)" using True states_98(9) by blast
  ultimately show ?thesis
    using assms True by (auto simp: loop_ready_def need_def head_state_def)
next
  case False
  with assms have "x_cs y \<in> {74, 88, 89}" by (auto simp: head_stop_def)
  with assms show ?thesis by (auto simp: loop_ready_def need_def states_98)
qed

lemma exec_head:
  assumes "loop_ready ps bf" and "head_state (ps_state ps)"
  shows "case hsh_parser_exec mv ps bf mx of
      Inl e \<Rightarrow> e \<noteq> Out_Of_Fuel
    | Inr (t, ps', bf') \<Rightarrow> closing t \<or> loop_ready ps' bf' \<and> need ps' bf' < need ps bf"
proof (cases "scan_exec mv mx (bf_length bf) \<lparr>x_cs = ps_state ps, x_p = bf_index bf, x_ps = ps, x_bf = bf\<rparr>")
  case (Inl e)
  with scan_head_call [OF assms Inl] show ?thesis by (simp add: hsh_parser_exec_def closing_def token_none_def)
next
  case (Inr y)
  with scan_head_call [OF assms Inr] have "head_stop (bf_length bf) (bf_index bf) y" by simp
  from head_stop_loop_ready [OF assms this, where bf' = "(x_bf y)\<lparr>bf_index := i32 (x_p y)\<rparr>"] Inr show ?thesis
    by (auto simp: hsh_parser_exec_def Let_def closing_def token_none_def ready_def ready_flags)
qed

lemma exec_body:
  assumes "loop_ready ps bf" and "\<not> head_state (ps_state ps)"
  shows "case hsh_parser_exec mv ps bf mx of Inl e \<Rightarrow> e \<noteq> Out_Of_Fuel | Inr (t, ps', bf') \<Rightarrow> closing t"
proof -
  let ?x = "\<lparr>x_cs = ps_state ps, x_p = bf_index bf, x_ps = ps, x_bf = bf\<rparr>"
  have live: "body_mid (typed_state (x_cs ?x)) ?x" "0 < x_cs ?x" "x_cs ?x < 98" "\<not> head_state (x_cs ?x)"
    using assms by (auto simp: loop_ready_def body_mid_def head_state_def)
  have "case scan_exec mv mx (bf_length bf) ?x of Inl e \<Rightarrow> e \<noteq> Out_Of_Fuel | Inr y \<Rightarrow> body_stop y"
    using scan_body [OF live, of mv mx "bf_length bf"] live(1)
    by (auto simp: scan_exec_def test_eof_def body_stop_def body_mid_def split: if_splits)
  then show ?thesis
    by (auto simp: hsh_parser_exec_def Let_def closing_def token_none_def ready_def body_stop_def split: sum.splits)
qed

section \<open>The loop\<close>

lemma bindr_no_fuel:
  "bindr m f \<noteq> Inl Out_Of_Fuel \<longleftrightarrow> m \<noteq> Inl Out_Of_Fuel \<and> (\<forall>x. m = Inr x \<longrightarrow> f x \<noteq> Inl Out_Of_Fuel)"
  by (cases m) simp_all

lemma memory_no_fuel [simp]:
  "deref r w \<noteq> Inl Out_Of_Fuel" "modify r f w \<noteq> Inl Out_Of_Fuel" "push_token r t w \<noteq> Inl Out_Of_Fuel"
  by (auto simp: deref_def modify_def push_token_def hs_token_array_push_def store_def Let_def bindr_def
      split: option.splits sum.splits)

lemma push_token_parser:
  assumes "push_token r t w = Inr w'" and "deref r w = Inr rq"
  shows "\<exists>rq'. deref r w' = Inr rq' \<and> rq_parser rq' = rq_parser rq \<and> rq_buffer rq' = rq_buffer rq"
  using assms by (auto simp: push_token_def bindr_Inr_iff)

lemma exec_callback_no_fuel:
  assumes "\<And>cb q v. call cb q v \<noteq> Inl Out_Of_Fuel"
  shows "exec_request_handler call r w \<noteq> Inl Out_Of_Fuel" "exec_chunk_cb call r w \<noteq> Inl Out_Of_Fuel"
  using assms
  by (auto simp: exec_request_handler_def exec_chunk_cb_def hs_exec_callback_def bindr_no_fuel split: option.split)

lemma handle_token_no_fuel:
  assumes "\<And>cb q v. call cb q v \<noteq> Inl Out_Of_Fuel"
  shows "handle_token call r t w \<noteq> Inl Out_Of_Fuel"
  using exec_callback_no_fuel [OF assms]
  by (cases "tk_type t") (simp_all add: handle_token_def bindr_no_fuel)

lemma handle_token_next:
  assumes "handle_token call r t w = Inr (None, w')" and "deref r w = Inr rq"
  shows "\<not> closing t" "\<exists>rq'. deref r w' = Inr rq' \<and> rq_parser rq' = rq_parser rq \<and> rq_buffer rq' = rq_buffer rq"
proof -
  have "\<not> closing t \<and> push_token r t w = Inr w'"
    using assms(1) by (cases "tk_type t") (auto simp: handle_token_def closing_def bindr_Inr_iff split: if_splits)
  with push_token_parser [OF _ assms(2)] show "\<not> closing t"
    "\<exists>rq'. deref r w' = Inr rq' \<and> rq_parser rq' = rq_parser rq \<and> rq_buffer rq' = rq_buffer rq" by auto
qed

lemma parse_loop_no_fuel:
  assumes "\<And>cb q v. call cb q v \<noteq> Inl Out_Of_Fuel" and "deref r w = Inr rq"
    and "loop_ready (rq_parser rq) (rq_buffer rq)" and "need (rq_parser rq) (rq_buffer rq) \<le> n"
  shows "parse_loop n call r mx w \<noteq> Inl Out_Of_Fuel"
  using assms(2-4)
proof (induction n arbitrary: w rq)
  case 0
  then show ?case by (simp add: need_def split: if_splits)
next
  case (Suc n)
  let ?exec = "hsh_parser_exec (w_shift w) (rq_parser rq) (rq_buffer rq) mx"
  have step: "case ?exec of Inl e \<Rightarrow> e \<noteq> Out_Of_Fuel
    | Inr (t, ps', bf') \<Rightarrow> closing t \<or> loop_ready ps' bf' \<and> need ps' bf' < need (rq_parser rq) (rq_buffer rq)"
    using exec_head [OF Suc.prems(2), of "w_shift w" mx] exec_body [OF Suc.prems(2), of "w_shift w" mx]
    by (cases "head_state (ps_state (rq_parser rq))") (auto split: sum.splits)
  show ?case
  proof (cases ?exec)
    case (Inl e)
    with step Suc.prems(1) show ?thesis by (simp add: parse_token_def)
  next
    case (Inr q)
    obtain t ps' bf' where q: "q = (t, ps', bf')" by (cases q)
    let ?rq = "rq\<lparr>rq_parser := ps', rq_buffer := bf'\<rparr>" and ?w = "assign r (rq\<lparr>rq_parser := ps', rq_buffer := bf'\<rparr>) w"
    have tok: "parse_token mx r w = Inr (t, ?w)" using Suc.prems(1) Inr q by (simp add: parse_token_def)
    have nxt: "parse_loop n call r mx w' \<noteq> Inl Out_Of_Fuel" if h: "handle_token call r t ?w = Inr (None, w')" for w'
    proof -
      from handle_token_next [OF h deref_assign] obtain rq' where rq': "\<not> closing t" "deref r w' = Inr rq'"
        "rq_parser rq' = ps'" "rq_buffer rq' = bf'" by auto
      with step Inr q Suc.prems(3) show ?thesis by (intro Suc.IH [OF rq'(2)]) auto
    qed
    show ?thesis
      using nxt handle_token_no_fuel [where call = call and r = r and t = t and w = ?w, OF assms(1)]
      by (auto simp: tok bindr_no_fuel split: option.split)
  qed
qed

text \<open>
  C29. The parse loop of \<open>read_socket.c\<close> ends. Whatever has arrived, and wherever the parser
  stands in the request, the loop returns or faults in the code it calls: every token that makes
  it go on has consumed a byte of the head, and the first call behind the head ends it. The
  bound is a round per byte received and not yet parsed, and two more.
\<close>

theorem parse_loop_ends:
  assumes "\<And>cb q v. call cb q v \<noteq> Inl Out_Of_Fuel" and "deref request w = Inr rq"
    and "loop_ready (rq_parser rq) (rq_buffer rq)"
  shows "hs_parse_buffer_and_exec_user_cb call request mx w \<noteq> Inl Out_Of_Fuel"
proof -
  have "need (rq_parser rq) (rq_buffer rq) \<le> parse_fuel (rq_buffer rq)" by (simp add: need_def parse_fuel_def)
  from parse_loop_no_fuel [OF assms this] assms(2) show ?thesis
    by (simp add: hs_parse_buffer_and_exec_user_cb_def)
qed

text \<open>A request whose first bytes have arrived in a block with room to spare.\<close>

definition first_bytes :: hsh_buffer_s where
  "first_bytes = buffer_zero\<lparr>bf_buf := Some (map Some ''GET / '' @ replicate 4 None),
     bf_capacity := 10, bf_length := 6, bf_sequence_id := 1\<rparr>"

lemma first_bytes_ready: "loop_ready hsh_parser_init first_bytes"
  by (simp add: loop_ready_def hsh_parser_init_def parser_zero_def hsh_http_start_def first_bytes_def buffer_zero_def
      ready_def flag_ops parser_flags typed_state_def data_state_def)

text \<open>A connection whose parser has just been started, with the first bytes of a request.\<close>

definition reading_world :: world where
  "reading_world = assign 7 ((hs_request_init 9 On_Client_Connection)\<lparr>rq_parser := hsh_parser_init, rq_buffer := first_bytes\<rparr>) sample_world"

theorem parse_loop_ends_witness:
  "hs_parse_buffer_and_exec_user_cb (\<lambda>cb r w. Inr w) 7 64 reading_world \<noteq> Inl Out_Of_Fuel"
  by (rule parse_loop_ends [where rq = "(hs_request_init 9 On_Client_Connection)\<lparr>rq_parser := hsh_parser_init, rq_buffer := first_bytes\<rparr>"])
     (simp_all add: reading_world_def first_bytes_ready)

end
