(* ===== verification/Head_Runs.thy ===== *)
theory Head_Runs
  imports Parse_Loop Parser_Roundtrip
begin

text \<open>
  Runs of the scanner inside the head of a request: they never fault, they commute with replacing
  what the head does not look at, and what each action keeps is kept by a run. The last is a rule
  with an invariant, stated as the locale \<open>head_contract\<close> and used twice.
\<close>

section \<open>Changing what the head does not look at\<close>

text \<open>
  \<open>recast g k s x\<close> replaces the buffer by \<open>g\<close> of it and the stored state and sequence
  number of the parser. In the head the scanner commutes with it, when \<open>g\<close> leaves alone what
  the end of the headers looks at.
\<close>

definition recast :: "(hsh_buffer_s \<Rightarrow> hsh_buffer_s) \<Rightarrow> nat \<Rightarrow> int \<Rightarrow> xst \<Rightarrow> xst" where
  "recast g k s x = x\<lparr>x_ps := (x_ps x)\<lparr>ps_state := k, ps_sequence_id := s\<rparr>, x_bf := g (x_bf x)\<rparr>"

fun recast_ctl :: "(hsh_buffer_s \<Rightarrow> hsh_buffer_s) \<Rightarrow> nat \<Rightarrow> int \<Rightarrow> ctl \<Rightarrow> ctl" where
  "recast_ctl g k s (Cont x) = Cont (recast g k s x)"
| "recast_ctl g k s (Stop x) = Stop (recast g k s x)"

fun at_headers_end :: "ctl \<Rightarrow> bool" where
  "at_headers_end (Cont x) \<longleftrightarrow> False"
| "at_headers_end (Stop x) \<longleftrightarrow> ready (x_ps x) \<and> tk_type (ps_token (x_ps x)) = HSH_TOK_HEADERS_DONE"

lemma recast_fields [simp]:
  "x_cs (recast g k s x) = x_cs x" "x_p (recast g k s x) = x_p x" "x_bf (recast g k s x) = g (x_bf x)"
  "ps_flags (x_ps (recast g k s x)) = ps_flags (x_ps x)" "ps_token (x_ps (recast g k s x)) = ps_token (x_ps x)"
  "ready (x_ps (recast g k s x)) = ready (x_ps x)"
  "ps_limit_count (x_ps (recast g k s x)) = ps_limit_count (x_ps x)"
  "ps_limit_max (x_ps (recast g k s x)) = ps_limit_max (x_ps x)"
  by (simp_all add: recast_def ready_def)

lemma set_ready_ready: "ready (set_ready ps)" "ready (token_flag_set (set_ready ps) f)"
proof -
  have "(f OR 2) AND 2 = (2 :: 8 word)" for f by (simp add: bit.conj_disj_distrib2)
  then show "ready (set_ready ps)" "ready (token_flag_set (set_ready ps) f)"
    by (simp_all add: ready_def set_ready_def token_flag_set_def flag_ops parser_flags)
qed

lemma done_headers_end: "at_headers_end (act_done_headers mv mx x)"
  using set_ready_ready
  by (simp add: act_done_headers_def Let_def fbreak_def token_flag_set_def set_ready_def ready_def token_zero_def)

lemma do_action_recast:
  assumes "head_acts (a # as)"
    and "a = A_done_headers \<Longrightarrow> \<exists>i. g = (\<lambda>b. b\<lparr>bf_index := i\<rparr>)"
  shows "do_action mv mx pe' c a (recast g k s x) = (case do_action mv mx pe c a x of
    Inl e \<Rightarrow> Inl e | Inr r \<Rightarrow> Inr (recast_ctl g k s r))"
  using assms
  by (cases a)
    (auto simp: head_acts_def recast_def HSH_ENTER_TOKEN_def act_emit_token_def act_content_length_digit_def
      act_transfer_encoding_def act_reset_count_def act_inc_count_def act_done_headers_def fbreak_def set_ready_def
      token_flag_set_def Let_def)

lemma run_actions_recast:
  assumes "head_acts as" and "run_actions mv mx pe c as x = Inr r"
    and "at_headers_end r \<Longrightarrow> \<exists>i. g = (\<lambda>b. b\<lparr>bf_index := i\<rparr>)"
  shows "run_actions mv mx pe' c as (recast g k s x) = Inr (recast_ctl g k s r)"
  using assms
proof (induction as arbitrary: x)
  case (Cons a as)
  have as: "head_acts as" using Cons.prems(1) by (simp add: head_acts_def)
  have dn: "\<exists>i. g = (\<lambda>b. b\<lparr>bf_index := i\<rparr>)" if "a = A_done_headers"
  proof (rule Cons.prems(3))
    have "r = act_done_headers mv mx x" using that Cons.prems(2) done_headers_end [of mv mx x]
      by (cases "act_done_headers mv mx x") auto
    then show "at_headers_end r" using done_headers_end by simp
  qed
  note step = do_action_recast [OF Cons.prems(1) dn, of mv mx pe' c k s x pe]
  show ?case
  proof (cases "do_action mv mx pe c a x")
    case (Inr q)
    with step Cons.IH [OF as _ Cons.prems(3)] Cons.prems(2) show ?thesis by (cases q) auto
  qed (use Cons.prems(2) in simp)
qed auto

text \<open>One byte in the head: it never faults, stays in the head unless it ends it, and commutes.\<close>

definition finished :: "hsh_parser_s \<Rightarrow> bool" where
  "finished ps \<longleftrightarrow> HTTP_FLAG_CHECK (ps_flags ps) HSH_P_FLAG_DONE"

lemma ready_update [simp]:
  "ready (ps\<lparr>ps_token := t\<rparr>) = ready ps" "ready (ps\<lparr>ps_limit_count := n\<rparr>) = ready ps"
  "ready (ps\<lparr>ps_limit_max := n\<rparr>) = ready ps" "ready (ps\<lparr>ps_content_length := n\<rparr>) = ready ps"
  "ready (ps\<lparr>ps_state := c\<rparr>) = ready ps" "ready (ps\<lparr>ps_sequence_id := q\<rparr>) = ready ps"
  by (simp_all add: ready_def)

lemma finished_update [simp]:
  "finished (ps\<lparr>ps_token := t\<rparr>) = finished ps" "finished (ps\<lparr>ps_limit_count := n\<rparr>) = finished ps"
  "finished (ps\<lparr>ps_limit_max := n\<rparr>) = finished ps" "finished (ps\<lparr>ps_content_length := n\<rparr>) = finished ps"
  "finished (ps\<lparr>ps_state := c\<rparr>) = finished ps" "finished (ps\<lparr>ps_sequence_id := q\<rparr>) = finished ps"
  by (simp_all add: finished_def)

lemma flag_updates [simp]:
  "ready (ps\<lparr>ps_flags := HTTP_FLAG_SET (ps_flags ps) HSH_P_FLAG_CHUNKED\<rparr>) = ready ps"
  "finished (ps\<lparr>ps_flags := HTTP_FLAG_SET (ps_flags ps) HSH_P_FLAG_CHUNKED\<rparr>) = finished ps"
  "finished (set_ready ps) = finished ps"
  "\<not> ready (ps\<lparr>ps_flags := HTTP_FLAG_CLEAR (ps_flags ps) HSH_P_FLAG_TOKEN_READY\<rparr>)"
  "finished (ps\<lparr>ps_flags := HTTP_FLAG_CLEAR (ps_flags ps) HSH_P_FLAG_TOKEN_READY\<rparr>) = finished ps"
proof -
  have "(f OR 1) AND 4 = f AND (4 :: 8 word)" "(f OR 2) AND 4 = f AND (4 :: 8 word)" for f
    by (simp_all add: bit.conj_disj_distrib2)
  then show "finished (ps\<lparr>ps_flags := HTTP_FLAG_SET (ps_flags ps) HSH_P_FLAG_CHUNKED\<rparr>) = finished ps"
    "finished (set_ready ps) = finished ps"
    by (simp_all add: finished_def set_ready_def flag_ops parser_flags)
qed (simp_all add: ready_def finished_def ready_flags done_flag_clear)

definition unfinished :: "xst \<Rightarrow> bool" where
  "unfinished x \<longleftrightarrow> head_state (x_cs x) \<and> \<not> ready (x_ps x) \<and> \<not> finished (x_ps x)"

definition over_limit :: "hsh_parser_s \<Rightarrow> bool" where
  "over_limit ps \<longleftrightarrow> ps_limit_max ps < ps_limit_count ps"

definition head_stopped :: "xst \<Rightarrow> bool" where
  "head_stopped y \<longleftrightarrow> at_headers_end (Stop y)
     \<or> head_state (x_cs y) \<and> \<not> finished (x_ps y) \<and> (ready (x_ps y) \<or> x_cs y = 0 \<or> over_limit (x_ps y))"

lemma do_action_result:
  assumes "head_acts (a # as)" and "unfinished x" and "a = A_error \<Longrightarrow> x_cs x = 0"
  shows "\<exists>r. do_action mv mx pe c a x = Inr r \<and> (case r of Cont y \<Rightarrow> unfinished y \<and> x_cs y = x_cs x | Stop y \<Rightarrow> head_stopped y)"
proof (cases "a = A_done_headers")
  case True
  with done_headers_end [of mv mx x] show ?thesis
    by (cases "act_done_headers mv mx x") (auto simp: head_stopped_def)
next
  case False
  with assms set_ready_ready(1) show ?thesis
    by (cases a)
      (auto simp: head_acts_def HSH_ENTER_TOKEN_def act_emit_token_def act_content_length_digit_def
        act_transfer_encoding_def act_reset_count_def act_inc_count_def fbreak_def unfinished_def head_stopped_def
        over_limit_def Let_def split: ctl.splits)
qed

lemma run_actions_result:
  assumes "head_acts as" and "unfinished x" and "A_error \<in> set as \<Longrightarrow> x_cs x = 0"
  shows "\<exists>r. run_actions mv mx pe c as x = Inr r \<and> (case r of Cont y \<Rightarrow> unfinished y | Stop y \<Rightarrow> head_stopped y)"
  using assms
proof (induction as arbitrary: x)
  case (Cons a as)
  have as: "head_acts as" using Cons.prems(1) by (simp add: head_acts_def)
  have "a = A_error \<Longrightarrow> x_cs x = 0" using Cons.prems(3) by simp
  from do_action_result [OF Cons.prems(1,2) this, of mv mx pe c] obtain r where
    r: "do_action mv mx pe c a x = Inr r" "case r of Cont y \<Rightarrow> unfinished y \<and> x_cs y = x_cs x | Stop y \<Rightarrow> head_stopped y"
    by blast
  with Cons.IH [OF as] Cons.prems(3) show ?case by (cases r) auto
qed simp

lemma edges_error: "all_edges (\<lambda>cs t as. A_error \<in> set as \<longrightarrow> t = 0)"
  by (simp add: all_edges_eval)

text \<open>A byte in a live state of the head.\<close>

lemma byte_step_head:
  assumes "unfinished x" and "0 < x_cs x"
  shows "\<exists>r. byte_step mv mx pe c x = Inr r
    \<and> (case r of Cont y \<Rightarrow> unfinished y \<and> 0 < x_cs y | Stop y \<Rightarrow> head_stopped y)
    \<and> (\<forall>g k s pe'. (at_headers_end r \<longrightarrow> (\<exists>i. g = (\<lambda>b. b\<lparr>bf_index := i\<rparr>))) \<longrightarrow>
        byte_step mv mx pe' c (recast g k s x) = Inr (recast_ctl g k s r))"
proof -
  define t where "t = hsh_trans (x_cs x) c"
  have live: "0 < x_cs x" "x_cs x < 98" using assms by (auto simp: unfinished_def head_state_def)
  have t: "head_state (fst t)" "head_acts (snd t)" "A_error \<in> set (snd t) \<Longrightarrow> fst t = 0"
    using all_edgesD [OF edges_head live, of c] all_edgesD [OF edges_error live, of c] assms(1)
    by (simp_all add: t_def unfinished_def)
  have "unfinished (x\<lparr>x_cs := fst t\<rparr>)" using assms(1) t(1) by (simp add: unfinished_def)
  from run_actions_result [OF t(2) this, of mv mx pe c] t(3) obtain q where
    q: "run_actions mv mx pe c (snd t) (x\<lparr>x_cs := fst t\<rparr>) = Inr q"
    "case q of Cont y \<Rightarrow> unfinished y | Stop y \<Rightarrow> head_stopped y" by auto
  define r where "r = (case q of Cont y \<Rightarrow> if x_cs y = hsh_http_error then Stop y else Cont (y\<lparr>x_p := x_p y + 1\<rparr>) | Stop y \<Rightarrow> Stop y)"
  have step: "byte_step mv mx pe c x = Inr r"
    using q(1) by (cases q) (simp_all add: byte_step_def t_def r_def)
  moreover have "case r of Cont y \<Rightarrow> unfinished y \<and> 0 < x_cs y | Stop y \<Rightarrow> head_stopped y"
    using q(2) by (cases q) (auto simp: r_def hsh_http_error_def unfinished_def head_stopped_def)
  moreover have "byte_step mv mx pe' c (recast g k s x) = Inr (recast_ctl g k s r)"
    if g: "at_headers_end r \<longrightarrow> (\<exists>i. g = (\<lambda>b. b\<lparr>bf_index := i\<rparr>))" for g k s pe'
  proof -
    have e: "at_headers_end q \<Longrightarrow> \<exists>i. g = (\<lambda>b. b\<lparr>bf_index := i\<rparr>)" using g by (cases q) (auto simp: r_def)
    have "recast g k s (x\<lparr>x_cs := fst t\<rparr>) = (recast g k s x)\<lparr>x_cs := fst t\<rparr>" by (simp add: recast_def)
    with run_actions_recast [OF t(2) q(1) e, of pe' k s]
    have "run_actions mv mx pe' c (snd t) ((recast g k s x)\<lparr>x_cs := fst t\<rparr>) = Inr (recast_ctl g k s q)" by simp
    then show ?thesis
      by (cases q) (simp_all add: byte_step_def t_def r_def, simp add: recast_def)
  qed
  ultimately show ?thesis by blast
qed

text \<open>A run over bytes of the head.\<close>

lemma run_bytes_head:
  assumes "unfinished x" and "0 < x_cs x"
  shows "\<exists>r. run_bytes mv mx pe cs x = Inr r
    \<and> (case r of Cont y \<Rightarrow> unfinished y \<and> 0 < x_cs y | Stop y \<Rightarrow> head_stopped y)
    \<and> (\<forall>g k s pe'. (at_headers_end r \<longrightarrow> (\<exists>i. g = (\<lambda>b. b\<lparr>bf_index := i\<rparr>))) \<longrightarrow>
        run_bytes mv mx pe' cs (recast g k s x) = Inr (recast_ctl g k s r))"
  using assms
proof (induction cs arbitrary: x)
  case (Cons c cs)
  from byte_step_head [OF Cons.prems, of mv mx pe c] obtain q where q: "byte_step mv mx pe c x = Inr q"
    "case q of Cont y \<Rightarrow> unfinished y \<and> 0 < x_cs y | Stop y \<Rightarrow> head_stopped y"
    "\<And>g k s pe'. (at_headers_end q \<longrightarrow> (\<exists>i. g = (\<lambda>b. b\<lparr>bf_index := i\<rparr>))) \<Longrightarrow>
      byte_step mv mx pe' c (recast g k s x) = Inr (recast_ctl g k s q)"
    by blast
  show ?case
  proof (cases q)
    case (Stop y)
    with q show ?thesis by auto
  next
    case (Cont y)
    with q(2) Cons.IH [of y] obtain r where r: "run_bytes mv mx pe cs y = Inr r"
      "case r of Cont y \<Rightarrow> unfinished y \<and> 0 < x_cs y | Stop y \<Rightarrow> head_stopped y"
      "\<And>g k s pe'. (at_headers_end r \<longrightarrow> (\<exists>i. g = (\<lambda>b. b\<lparr>bf_index := i\<rparr>))) \<Longrightarrow>
        run_bytes mv mx pe' cs (recast g k s y) = Inr (recast_ctl g k s r)" by auto
    have "byte_step mv mx pe' c (recast g k s x) = Inr (Cont (recast g k s y))" for g k s pe'
      using q(3) [of g pe' k s] Cont by simp
    with q(1) r Cont show ?thesis by (intro exI [of _ r]) simp
  qed
qed simp

section \<open>What a run keeps\<close>

locale head_contract =
  fixes P :: "xst \<Rightarrow> bool" and Q :: "xst \<Rightarrow> bool"
  assumes act_cont: "head_acts (a # as) \<Longrightarrow> P x \<Longrightarrow> do_action mv mx pe c a x = Inr (Cont y) \<Longrightarrow> P y"
    and act_stop: "head_acts (a # as) \<Longrightarrow> P x \<Longrightarrow> do_action mv mx pe c a x = Inr (Stop y) \<Longrightarrow> Q y"
    and weaken: "P x \<Longrightarrow> Q x"
    and cursor: "P x \<Longrightarrow> P (x\<lparr>x_p := p\<rparr>)"
    and position: "P x \<Longrightarrow> P (x\<lparr>x_cs := t\<rparr>)"
begin

lemma actions_keep:
  "head_acts as \<Longrightarrow> P x \<Longrightarrow> run_actions mv mx pe c as x = Inr r \<Longrightarrow> (case r of Cont y \<Rightarrow> P y | Stop y \<Rightarrow> Q y)"
proof (induction as arbitrary: x)
  case (Cons a as)
  have as: "head_acts as" using Cons.prems(1) by (simp add: head_acts_def)
  from Cons.prems(3) obtain q where q: "do_action mv mx pe c a x = Inr q" by (auto split: sum.splits)
  show ?case
  proof (cases q)
    case (Cont y)
    with q act_cont [OF Cons.prems(1,2)] have "P y" by blast
    with Cons.IH [OF as] Cons.prems(3) q Cont show ?thesis by simp
  next
    case (Stop y)
    with q act_stop [OF Cons.prems(1,2)] Cons.prems(3) show ?thesis by auto
  qed
qed auto

lemma byte_keeps:
  assumes "unfinished x" and "0 < x_cs x" and "P x" and "byte_step mv mx pe c x = Inr r"
  shows "case r of Cont y \<Rightarrow> P y | Stop y \<Rightarrow> Q y"
proof -
  have live: "0 < x_cs x" "x_cs x < 98" using assms(1,2) by (auto simp: unfinished_def head_state_def)
  have as: "head_acts (snd (hsh_trans (x_cs x) c))"
    using all_edgesD [OF edges_head live, of c] assms(1) by (simp add: unfinished_def)
  from assms(4) obtain q where q: "run_actions mv mx pe c (snd (hsh_trans (x_cs x) c)) (x\<lparr>x_cs := fst (hsh_trans (x_cs x) c)\<rparr>) = Inr q"
    by (auto simp: byte_step_def split: sum.splits)
  from actions_keep [OF as position [OF assms(3)] q] q assms(4) show ?thesis
    by (cases q) (auto simp: byte_step_def weaken cursor split: if_splits)
qed

lemma run_keeps:
  "unfinished x \<Longrightarrow> 0 < x_cs x \<Longrightarrow> P x \<Longrightarrow> run_bytes mv mx pe cs x = Inr r \<Longrightarrow> (case r of Cont y \<Rightarrow> P y | Stop y \<Rightarrow> Q y)"
proof (induction cs arbitrary: x)
  case (Cons c cs)
  from byte_step_head [OF Cons.prems(1,2), of mv mx pe c] obtain q where q: "byte_step mv mx pe c x = Inr q"
    "case q of Cont y \<Rightarrow> unfinished y \<and> 0 < x_cs y | Stop y \<Rightarrow> head_stopped y" by blast
  with byte_keeps [OF Cons.prems(1-3) q(1)] Cons.IH Cons.prems(4) show ?case by (cases q) auto
qed auto

end

text \<open>The sequence numbers, and the limits: a token that is returned has kept its limit.\<close>

interpretation sequence: head_contract "\<lambda>x. bf_sequence_id (x_bf x) = q \<and> ps_sequence_id (x_ps x) = s"
    "\<lambda>x. bf_sequence_id (x_bf x) = q \<and> ps_sequence_id (x_ps x) = s" for q s
proof
  fix a as mv mx pe c and x y :: xst
  assume "head_acts (a # as)" "bf_sequence_id (x_bf x) = q \<and> ps_sequence_id (x_ps x) = s"
  then show "do_action mv mx pe c a x = Inr (Stop y) \<Longrightarrow> bf_sequence_id (x_bf y) = q \<and> ps_sequence_id (x_ps y) = s"
    "do_action mv mx pe c a x = Inr (Cont y) \<Longrightarrow> bf_sequence_id (x_bf y) = q \<and> ps_sequence_id (x_ps y) = s"
    by (cases a; auto simp: head_acts_def HSH_ENTER_TOKEN_def act_emit_token_def act_content_length_digit_def
        act_transfer_encoding_def act_reset_count_def act_inc_count_def act_done_headers_def fbreak_def set_ready_def
        token_flag_set_def Let_def split: if_splits)+
qed simp_all

interpretation limits: head_contract "\<lambda>x. \<not> over_limit (x_ps x) \<and> \<not> ready (x_ps x)"
    "\<lambda>x. ready (x_ps x) \<longrightarrow> \<not> over_limit (x_ps x)"
proof
  fix a as mv mx pe c and x y :: xst
  assume "head_acts (a # as)" "\<not> over_limit (x_ps x) \<and> \<not> ready (x_ps x)"
  then show "do_action mv mx pe c a x = Inr (Stop y) \<Longrightarrow> ready (x_ps y) \<longrightarrow> \<not> over_limit (x_ps y)"
    "do_action mv mx pe c a x = Inr (Cont y) \<Longrightarrow> \<not> over_limit (x_ps y) \<and> \<not> ready (x_ps y)"
    by (cases a; auto simp: head_acts_def HSH_ENTER_TOKEN_def act_emit_token_def act_content_length_digit_def
        act_transfer_encoding_def act_reset_count_def act_inc_count_def act_done_headers_def fbreak_def set_ready_def
        token_flag_set_def over_limit_def Let_def split: if_splits)+
qed simp_all

lemma run_keeps_sequence:
  assumes "run_bytes mv mx pe cs x = Inr r" and "unfinished x" and "0 < x_cs x"
  shows "bf_sequence_id (x_bf (ctl_state r)) = bf_sequence_id (x_bf x)"
    and "ps_sequence_id (x_ps (ctl_state r)) = ps_sequence_id (x_ps x)"
  using sequence.run_keeps [OF assms(2,3) conjI [OF refl refl] assms(1)] by (cases r; simp)+

lemma run_keeps_limit:
  assumes "run_bytes mv mx pe cs x = Inr r" and "unfinished x" and "0 < x_cs x" and "\<not> over_limit (x_ps x)"
  shows "(\<exists>y. r = Cont y) \<or> ready (x_ps (ctl_state r)) \<Longrightarrow> \<not> over_limit (x_ps (ctl_state r))"
  using limits.run_keeps [OF assms(2,3) _ assms(1)] assms(2,4) by (cases r) (auto simp: unfinished_def)

section \<open>Where a run stops\<close>


text \<open>A run that does not end the headers leaves the buffer alone; the cursor stays among its bytes.\<close>

lemma do_action_stop:
  assumes "do_action mv mx pe c a x = Inr (Stop y)" and "head_acts (a # as)" and "\<not> at_headers_end (Stop y)"
  shows "x_p y = x_p x + 1 \<and> x_bf y = x_bf x"
proof (cases "a = A_done_headers")
  case True
  with assms(1,3) done_headers_end [of mv mx x] show ?thesis by simp
next
  case False
  with assms show ?thesis
    by (cases a) (auto simp: head_acts_def act_emit_token_def act_inc_count_def fbreak_def Let_def split: if_splits)
qed

lemma run_actions_stop:
  assumes "run_actions mv mx pe c as x = Inr (Stop y)" and "head_acts as" and "\<not> at_headers_end (Stop y)"
  shows "x_p y = x_p x + 1 \<and> x_bf y = x_bf x"
  using assms
proof (induction as arbitrary: x)
  case (Cons a as)
  have as: "head_acts as" using Cons.prems(2) by (simp add: head_acts_def)
  from Cons.prems(1) obtain r where r: "do_action mv mx pe c a x = Inr r" by (auto split: sum.splits)
  show ?case
  proof (cases r)
    case (Stop z)
    with r Cons.prems do_action_stop [OF _ Cons.prems(2)] show ?thesis by simp
  next
    case (Cont z)
    with r Cons.prems(1) have "run_actions mv mx pe c as z = Inr (Stop y)" by simp
    from Cons.IH [OF this as Cons.prems(3)] do_action_Cont [OF r [unfolded Cont]] show ?thesis by simp
  qed
qed simp

lemma byte_step_stop:
  assumes "byte_step mv mx pe c x = Inr (Stop y)" and "unfinished x" and "0 < x_cs x" and "\<not> at_headers_end (Stop y)"
  shows "x_p x \<le> x_p y \<and> x_p y \<le> x_p x + 1 \<and> x_bf y = x_bf x"
proof -
  have live: "0 < x_cs x" "x_cs x < 98" using assms(2,3) by (auto simp: unfinished_def head_state_def)
  have as: "head_acts (snd (hsh_trans (x_cs x) c))"
    using all_edgesD [OF edges_head live, of c] assms(2) by (simp add: unfinished_def)
  from assms(1) obtain r where r: "run_actions mv mx pe c (snd (hsh_trans (x_cs x) c)) (x\<lparr>x_cs := fst (hsh_trans (x_cs x) c)\<rparr>) = Inr r"
    by (auto simp: byte_step_def split: sum.splits)
  show ?thesis
  proof (cases r)
    case (Stop z)
    with r assms(1) have "z = y" by (simp add: byte_step_def)
    with run_actions_stop [OF r [unfolded Stop] as] assms(4) show ?thesis by simp
  next
    case (Cont z)
    with r assms(1) have "z = y" by (simp add: byte_step_def split: if_splits)
    with run_actions_Cont [OF r [unfolded Cont]] show ?thesis by simp
  qed
qed

lemma run_bytes_position:
  "run_bytes mv mx pe cs x = Inr r \<Longrightarrow> unfinished x \<Longrightarrow> 0 < x_cs x \<Longrightarrow> \<not> at_headers_end r \<Longrightarrow>
     x_p x \<le> x_p (ctl_state r) \<and> x_p (ctl_state r) \<le> x_p x + int (length cs) \<and> x_bf (ctl_state r) = x_bf x"
proof (induction cs arbitrary: x)
  case (Cons c cs)
  from byte_step_head [OF Cons.prems(2,3), of mv mx pe c] obtain q where q: "byte_step mv mx pe c x = Inr q"
    "case q of Cont y \<Rightarrow> unfinished y \<and> 0 < x_cs y | Stop y \<Rightarrow> head_stopped y" by blast
  show ?case
  proof (cases q)
    case (Cont y)
    with q Cons.prems byte_step_Cont [of mv mx pe c x y] Cons.IH [of y] show ?thesis by auto
  next
    case (Stop y)
    with q Cons.prems(1) have "r = Stop y" by simp
    with byte_step_stop [OF q(1) [unfolded Stop] Cons.prems(2,3)] Cons.prems(4) show ?thesis by auto
  qed
qed auto

text \<open>The same for the cursor when the headers end and the block is not moved.\<close>

lemma run_actions_cursor:
  "head_acts as \<Longrightarrow> run_actions 0 mx pe c as x = Inr r \<Longrightarrow>
     x_p x \<le> x_p (ctl_state r) \<and> x_p (ctl_state r) \<le> x_p x + 1"
proof (induction as arbitrary: x)
  case (Cons a as)
  have as: "head_acts as" using Cons.prems(1) by (simp add: head_acts_def)
  from Cons.prems(2) obtain q where q: "do_action 0 mx pe c a x = Inr q" by (auto split: sum.splits)
  show ?case
  proof (cases q)
    case (Cont y)
    with Cons.IH [OF as] Cons.prems(2) q do_action_Cont [OF q [unfolded Cont]] show ?thesis by fastforce
  next
    case (Stop y)
    with Cons.prems q show ?thesis
      by (cases a) (auto simp: head_acts_def act_emit_token_def act_inc_count_def act_done_headers_def fbreak_def Let_def
          split: if_splits)
  qed
qed auto

lemma run_bytes_cursor:
  "run_bytes 0 mx pe cs x = Inr r \<Longrightarrow> unfinished x \<Longrightarrow> 0 < x_cs x \<Longrightarrow>
     x_p x \<le> x_p (ctl_state r) \<and> x_p (ctl_state r) \<le> x_p x + int (length cs)"
proof (induction cs arbitrary: x)
  case (Cons c cs)
  have live: "0 < x_cs x" "x_cs x < 98" using Cons.prems(2,3) by (auto simp: unfinished_def head_state_def)
  have as: "head_acts (snd (hsh_trans (x_cs x) c))"
    using all_edgesD [OF edges_head live, of c] Cons.prems(2) by (simp add: unfinished_def)
  from byte_step_head [OF Cons.prems(2,3), of 0 mx pe c] obtain q where q: "byte_step 0 mx pe c x = Inr q"
    "case q of Cont y \<Rightarrow> unfinished y \<and> 0 < x_cs y | Stop y \<Rightarrow> head_stopped y" by blast
  show ?case
  proof (cases q)
    case (Cont y)
    with q Cons.prems byte_step_Cont [of 0 mx pe c x y] Cons.IH [of y] show ?thesis by auto
  next
    case (Stop y)
    from q(1) obtain a where a: "run_actions 0 mx pe c (snd (hsh_trans (x_cs x) c)) (x\<lparr>x_cs := fst (hsh_trans (x_cs x) c)\<rparr>) = Inr a"
      by (auto simp: byte_step_def split: sum.splits)
    have "ctl_state a = y" using a q(1) Stop by (cases a) (auto simp: byte_step_def split: if_splits)
    with run_actions_cursor [OF as a] q(1) Stop Cons.prems(1) show ?thesis by auto
  qed
qed auto

end
