(* ===== verification/Parse_Split.thy ===== *)
theory Parse_Split
  imports Head_Runs
begin

text \<open>
  Parsing the head of a request does not depend on how its bytes were split over reads: parsing
  what has arrived and going on when more has arrived gives the tokens that one parse of
  everything gives, for well-formed and malformed heads, as long as no part exceeds its limit.
\<close>

section \<open>One call\<close>

definition in_head :: "hsh_parser_s \<Rightarrow> hsh_buffer_s \<Rightarrow> string \<Rightarrow> bool" where
  "in_head ps bf data \<longleftrightarrow> received bf data \<and> bf_buf bf \<noteq> None \<and> 0 \<le> bf_index bf \<and> bf_index bf \<le> int (length data)
     \<and> head_state (ps_state ps) \<and> \<not> ready ps \<and> \<not> finished ps \<and> ps_sequence_id ps \<noteq> bf_sequence_id bf"

definition outcome :: "xst \<Rightarrow> hsh_token_s \<times> hsh_parser_s \<times> hsh_buffer_s" where
  "outcome y =
     (let ps = (x_ps y)\<lparr>ps_state := x_cs y\<rparr>; bf = (x_bf y)\<lparr>bf_index := i32 (x_p y)\<rparr>
      in if ready ps
         then (ps_token ps, ps\<lparr>ps_flags := HTTP_FLAG_CLEAR (ps_flags ps) HSH_P_FLAG_TOKEN_READY\<rparr>, bf)
         else (token_none, ps\<lparr>ps_sequence_id := bf_sequence_id bf\<rparr>, bf))"

lemma outcome_recast:
  "outcome y = (t, ps, bf) \<Longrightarrow> outcome (recast g k s y)
     = (t, ps\<lparr>ps_sequence_id := if ready (x_ps y) then s else bf_sequence_id (g (x_bf y))\<rparr>,
        (g (x_bf y))\<lparr>bf_index := i32 (x_p y)\<rparr>)"
  by (auto simp: outcome_def Let_def recast_def split: if_splits)

lemma exec_not_run:
  assumes "in_head ps bf data" and "ps_state ps = 0 \<or> bf_index bf = int (length data)"
  shows "hsh_parser_exec mv ps bf mx = Inr (token_none, ps\<lparr>ps_sequence_id := bf_sequence_id bf\<rparr>, bf)"
proof -
  have "i32 (bf_index bf) = bf_index bf" using assms(1) by (intro i32_id) (auto simp: in_head_def received_def)
  with assms show ?thesis
    by (auto simp: hsh_parser_exec_def in_head_def received_def scan_exec_def test_eof_def hsh_http_error_def
        ready_def finished_def Let_def)
qed

lemma exec_run:
  assumes h: "in_head ps bf data" and "ps_state ps \<noteq> 0" and "bf_index bf \<noteq> int (length data)"
  shows "\<exists>r. run_bytes mv mx (bf_length bf) (drop (nat (bf_index bf)) data) (entry ps bf) = Inr r
    \<and> hsh_parser_exec mv ps bf mx = Inr (outcome (ctl_state r))
    \<and> (case r of Cont y \<Rightarrow> unfinished y \<and> 0 < x_cs y | Stop y \<Rightarrow> head_stopped y)
    \<and> (\<forall>g k s pe. (at_headers_end r \<longrightarrow> (\<exists>i. g = (\<lambda>b. b\<lparr>bf_index := i\<rparr>))) \<longrightarrow>
        run_bytes mv mx pe (drop (nat (bf_index bf)) data) (recast g k s (entry ps bf)) = Inr (recast_ctl g k s r))"
proof -
  have x: "unfinished (entry ps bf)" "0 < x_cs (entry ps bf)"
    using assms by (simp_all add: in_head_def unfinished_def entry_def)
  from run_bytes_head [OF x, of mv mx "bf_length bf" "drop (nat (bf_index bf)) data"] obtain r where
    r: "run_bytes mv mx (bf_length bf) (drop (nat (bf_index bf)) data) (entry ps bf) = Inr r"
    "case r of Cont y \<Rightarrow> unfinished y \<and> 0 < x_cs y | Stop y \<Rightarrow> head_stopped y"
    "\<And>g k s pe. (at_headers_end r \<longrightarrow> (\<exists>i. g = (\<lambda>b. b\<lparr>bf_index := i\<rparr>))) \<Longrightarrow>
      run_bytes mv mx pe (drop (nat (bf_index bf)) data) (recast g k s (entry ps bf)) = Inr (recast_ctl g k s r)"
    by blast
  have "scan mv mx (bf_length bf) (entry ps bf) = Inr (ctl_state r)"
    using h assms(3) r(1) scan_run_bytes [of "entry ps bf" data "bf_length bf" mv mx]
    by (simp add: in_head_def received_def entry_def)
  then have "scan_exec mv mx (bf_length bf) (entry ps bf) = Inr (ctl_state r)"
    using h assms by (simp add: scan_exec_def entry_def in_head_def received_def hsh_http_error_def)
  then have "hsh_parser_exec mv ps bf mx = Inr (outcome (ctl_state r))"
    using h by (simp add: hsh_parser_exec_def in_head_def outcome_def finished_def entry_def ready_def Let_def)
  with r show ?thesis by blast
qed

lemma received_index [simp]: "received (bf\<lparr>bf_index := i\<rparr>) data = received bf data"
  by (simp add: received_def)

lemma outcome_eq:
  assumes "outcome y = (t, ps, bf)"
  shows "ready (x_ps y) \<Longrightarrow> t = ps_token (x_ps y)" "bf = (x_bf y)\<lparr>bf_index := i32 (x_p y)\<rparr>" "ps_state ps = x_cs y"
    "\<not> ready ps" "finished ps = finished (x_ps y)" "\<not> ready (x_ps y) \<Longrightarrow> t = token_none"
    "ps_sequence_id ps = (if ready (x_ps y) then ps_sequence_id (x_ps y) else bf_sequence_id (x_bf y))"
    "ps_limit_count ps = ps_limit_count (x_ps y)" "ps_limit_max ps = ps_limit_max (x_ps y)"
  using assms by (auto simp: outcome_def Let_def ready_def finished_def ready_flags done_flag_clear split: if_splits)

lemma entry_live:
  assumes "in_head ps bf data" and "ps_state ps \<noteq> 0"
  shows "unfinished (entry ps bf)" "0 < x_cs (entry ps bf)"
  using assms by (simp_all add: in_head_def unfinished_def entry_def)

text \<open>A call that returns no token notes the sequence number of the buffer; one that returns a token does not.\<close>

lemma exec_waits:
  assumes h: "in_head ps bf data" and e: "hsh_parser_exec mv ps bf mx = Inr (t, ps1, bf1)"
    and w: "ps_sequence_id ps1 = bf_sequence_id bf"
  shows "t = token_none"
proof (cases "ps_state ps = 0 \<or> bf_index bf = int (length data)")
  case True
  with exec_not_run [OF h True] e show ?thesis by simp
next
  case False
  then have ne: "ps_state ps \<noteq> 0" "bf_index bf \<noteq> int (length data)" by auto
  from exec_run [OF h ne, of mv mx] obtain r where
    r: "run_bytes mv mx (bf_length bf) (drop (nat (bf_index bf)) data) (entry ps bf) = Inr r"
    "hsh_parser_exec mv ps bf mx = Inr (outcome (ctl_state r))" by blast
  have out: "outcome (ctl_state r) = (t, ps1, bf1)" using r(2) e by simp
  have "ps_sequence_id (x_ps (ctl_state r)) = ps_sequence_id ps"
    using run_keeps_sequence(2) [OF r(1) entry_live [OF h ne(1)]] by (simp add: entry_def)
  then show ?thesis using outcome_eq(6,7) [OF out] w h by (auto simp: in_head_def split: if_splits)
qed

text \<open>The stored sequence number of the parser only matters for whether there is something new.\<close>

lemma recast_index:
  assumes "run_bytes mv mx pe cs x = Inr r" and "unfinished x" and "0 < x_cs x"
    and "outcome (ctl_state r) = (t, ps, bf)"
    and "s \<noteq> bf_sequence_id (x_bf x)" and "ps_sequence_id (x_ps x) \<noteq> bf_sequence_id (x_bf x)"
  shows "\<exists>r' s'. run_bytes mv mx pe cs (recast (\<lambda>b. b\<lparr>bf_index := i\<rparr>) k s x) = Inr r'
    \<and> outcome (ctl_state r') = (t, ps\<lparr>ps_sequence_id := s'\<rparr>, bf)
    \<and> (s' = bf_sequence_id (x_bf x) \<longleftrightarrow> ps_sequence_id ps = bf_sequence_id (x_bf x))"
proof -
  let ?g = "\<lambda>b :: hsh_buffer_s. b\<lparr>bf_index := i\<rparr>"
  have "run_bytes mv mx pe cs (recast ?g k s x) = Inr (recast_ctl ?g k s r)"
    using run_bytes_head [OF assms(2,3), of mv mx pe cs] assms(1) by auto
  moreover have "outcome (ctl_state (recast_ctl ?g k s r)) = outcome (recast ?g k s (ctl_state r))" by (cases r) simp_all
  moreover note outcome_recast [OF assms(4), of ?g k s] outcome_eq(2,7) [OF assms(4)]
    run_keeps_sequence [OF assms(1-3)] assms(5,6)
  ultimately show ?thesis by (cases "ready (x_ps (ctl_state r))") auto
qed

lemma exec_seq:
  assumes h: "in_head ps bf data" and s: "s \<noteq> bf_sequence_id bf" and e: "hsh_parser_exec mv ps bf mx = Inr (t, ps1, bf1)"
  shows "\<exists>s'. hsh_parser_exec mv (ps\<lparr>ps_sequence_id := s\<rparr>) bf mx = Inr (t, ps1\<lparr>ps_sequence_id := s'\<rparr>, bf1)
    \<and> (s' = bf_sequence_id bf \<longleftrightarrow> ps_sequence_id ps1 = bf_sequence_id bf)"
proof (cases "ps_state ps = 0 \<or> bf_index bf = int (length data)")
  case True
  have "in_head (ps\<lparr>ps_sequence_id := s\<rparr>) bf data" using h s by (simp add: in_head_def finished_def)
  with True exec_not_run [OF h True] exec_not_run [OF this, of mv mx] e show ?thesis by auto
next
  case False
  have h': "in_head (ps\<lparr>ps_sequence_id := s\<rparr>) bf data" using h s by (simp add: in_head_def finished_def)
  have ne: "ps_state ps \<noteq> 0" "ps_state (ps\<lparr>ps_sequence_id := s\<rparr>) \<noteq> 0" "bf_index bf \<noteq> int (length data)"
    using False by auto
  from exec_run [OF h ne(1,3), of mv mx] e obtain r where
    r: "run_bytes mv mx (bf_length bf) (drop (nat (bf_index bf)) data) (entry ps bf) = Inr r"
    "outcome (ctl_state r) = (t, ps1, bf1)" by auto
  from exec_run [OF h' ne(2,3), of mv mx] obtain r' where
    r': "hsh_parser_exec mv (ps\<lparr>ps_sequence_id := s\<rparr>) bf mx = Inr (outcome (ctl_state r'))"
    "run_bytes mv mx (bf_length bf) (drop (nat (bf_index bf)) data) (entry (ps\<lparr>ps_sequence_id := s\<rparr>) bf) = Inr r'"
    by auto
  have "entry (ps\<lparr>ps_sequence_id := s\<rparr>) bf = recast (\<lambda>b. b\<lparr>bf_index := bf_index bf\<rparr>) (ps_state ps) s (entry ps bf)"
    by (simp add: entry_def recast_def)
  moreover have "s \<noteq> bf_sequence_id (x_bf (entry ps bf))"
    "ps_sequence_id (x_ps (entry ps bf)) \<noteq> bf_sequence_id (x_bf (entry ps bf))"
    using s h by (simp_all add: entry_def in_head_def)
  ultimately show ?thesis
    using recast_index [OF r(1) entry_live [OF h ne(1)] r(2), of s "bf_index bf" "ps_state ps"] r'
    by (auto simp: entry_def)
qed

text \<open>What a run in the head leaves, when it does not end the headers.\<close>

lemma exec_head_run:
  assumes h: "in_head ps bf data" and ne: "ps_state ps \<noteq> 0" "bf_index bf \<noteq> int (length data)"
    and e: "hsh_parser_exec mv ps bf mx = Inr (t, ps1, bf1)" and t: "tk_type t \<noteq> HSH_TOK_HEADERS_DONE"
  shows "\<exists>r. run_bytes mv mx (bf_length bf) (drop (nat (bf_index bf)) data) (entry ps bf) = Inr r
    \<and> outcome (ctl_state r) = (t, ps1, bf1) \<and> \<not> at_headers_end r \<and> x_bf (ctl_state r) = bf
    \<and> bf_index bf \<le> x_p (ctl_state r) \<and> x_p (ctl_state r) \<le> int (length data)
    \<and> (case r of Cont y \<Rightarrow> unfinished y \<and> 0 < x_cs y | Stop y \<Rightarrow> head_stopped y)
    \<and> ps_sequence_id (x_ps (ctl_state r)) = ps_sequence_id ps
    \<and> (\<forall>g k s pe. run_bytes mv mx pe (drop (nat (bf_index bf)) data) (recast g k s (entry ps bf)) = Inr (recast_ctl g k s r))"
proof -
  from exec_run [OF h ne, of mv mx] obtain r where
    r: "run_bytes mv mx (bf_length bf) (drop (nat (bf_index bf)) data) (entry ps bf) = Inr r"
    "hsh_parser_exec mv ps bf mx = Inr (outcome (ctl_state r))"
    "case r of Cont y \<Rightarrow> unfinished y \<and> 0 < x_cs y | Stop y \<Rightarrow> head_stopped y"
    "\<And>g k s pe. (at_headers_end r \<longrightarrow> (\<exists>i. g = (\<lambda>b. b\<lparr>bf_index := i\<rparr>))) \<Longrightarrow>
      run_bytes mv mx pe (drop (nat (bf_index bf)) data) (recast g k s (entry ps bf)) = Inr (recast_ctl g k s r)"
    by blast
  have out: "outcome (ctl_state r) = (t, ps1, bf1)" using r(2) e by simp
  have nend: "\<not> at_headers_end r"
    using outcome_eq(1) [OF out] t by (cases r) auto
  have x: "unfinished (entry ps bf)" "0 < x_cs (entry ps bf)"
    using h ne by (simp_all add: in_head_def unfinished_def entry_def)
  have idx: "0 \<le> bf_index bf" "bf_index bf \<le> int (length data)" using h by (auto simp: in_head_def)
  have pos: "bf_index bf \<le> x_p (ctl_state r) \<and> x_p (ctl_state r) \<le> int (length data) \<and> x_bf (ctl_state r) = bf"
    using run_bytes_position [OF r(1) x nend] idx by (auto simp: entry_def)
  have "ps_sequence_id (x_ps (ctl_state r)) = ps_sequence_id ps"
    using run_keeps_sequence(2) [OF r(1) x] by (simp add: entry_def)
  with r out nend pos show ?thesis by blast
qed

lemma result_head_state:
  assumes "case r of Cont y \<Rightarrow> unfinished y \<and> 0 < x_cs y | Stop y \<Rightarrow> head_stopped y" and "\<not> at_headers_end r"
  shows "head_state (x_cs (ctl_state r)) \<and> \<not> finished (x_ps (ctl_state r))"
  using assms by (cases r) (auto simp: unfinished_def head_stopped_def)

lemma exec_position:
  assumes h: "in_head ps bf data" and e: "hsh_parser_exec mv ps bf mx = Inr (t, ps1, bf1)"
    and t: "tk_type t \<noteq> HSH_TOK_HEADERS_DONE"
  shows "\<exists>j. bf1 = bf\<lparr>bf_index := j\<rparr> \<and> bf_index bf \<le> j \<and> j \<le> int (length data) \<and> head_state (ps_state ps1)
    \<and> \<not> ready ps1 \<and> \<not> finished ps1 \<and> (ps_sequence_id ps1 = ps_sequence_id ps \<or> ps_sequence_id ps1 = bf_sequence_id bf)"
proof (cases "ps_state ps = 0 \<or> bf_index bf = int (length data)")
  case True
  with exec_not_run [OF h True] e have "bf1 = bf" "ps1 = ps\<lparr>ps_sequence_id := bf_sequence_id bf\<rparr>" by auto
  with h show ?thesis by (intro exI [of _ "bf_index bf"]) (simp add: in_head_def)
next
  case False
  then have ne: "ps_state ps \<noteq> 0" "bf_index bf \<noteq> int (length data)" by auto
  from exec_head_run [OF h ne e t] obtain r where r: "outcome (ctl_state r) = (t, ps1, bf1)" "\<not> at_headers_end r"
    "x_bf (ctl_state r) = bf" "bf_index bf \<le> x_p (ctl_state r)" "x_p (ctl_state r) \<le> int (length data)"
    "case r of Cont y \<Rightarrow> unfinished y \<and> 0 < x_cs y | Stop y \<Rightarrow> head_stopped y"
    "ps_sequence_id (x_ps (ctl_state r)) = ps_sequence_id ps" by blast
  have "i32 (x_p (ctl_state r)) = x_p (ctl_state r)"
    using h r(4,5) by (intro i32_id) (auto simp: in_head_def received_def)
  with r outcome_eq [OF r(1)] result_head_state [OF r(6,2)] show ?thesis
    by (intro exI [of _ "x_p (ctl_state r)"]) auto
qed

text \<open>A call that returns a token of the head returns the same token when more has arrived.\<close>

lemma in_head_next:
  assumes "in_head ps bf data" and "0 \<le> j" and "j \<le> int (length data)" and "head_state (ps_state ps1)"
    and "\<not> ready ps1" and "\<not> finished ps1" and "ps_sequence_id ps1 \<noteq> bf_sequence_id bf"
  shows "in_head ps1 (bf\<lparr>bf_index := j\<rparr>) data"
  using assms by (simp add: in_head_def)

lemma exec_token_more:
  assumes h1: "in_head ps b1 xs" and h2: "in_head ps b2 (xs @ ys)" and i: "bf_index b2 = bf_index b1"
    and e: "hsh_parser_exec mv ps b1 mx = Inr (t, ps1, b1')"
    and tok: "ps_sequence_id ps1 \<noteq> bf_sequence_id b1" and t: "tk_type t \<noteq> HSH_TOK_HEADERS_DONE"
  shows "\<exists>j. b1' = b1\<lparr>bf_index := j\<rparr> \<and> hsh_parser_exec mv ps b2 mx = Inr (t, ps1, b2\<lparr>bf_index := j\<rparr>)
    \<and> in_head ps1 b1' xs \<and> in_head ps1 (b2\<lparr>bf_index := j\<rparr>) (xs @ ys)"
proof -
  have "\<not> (ps_state ps = 0 \<or> bf_index b1 = int (length xs))"
  proof
    assume "ps_state ps = 0 \<or> bf_index b1 = int (length xs)"
    from exec_not_run [OF h1 this] e tok show False by auto
  qed
  then have ne: "ps_state ps \<noteq> 0" "bf_index b1 \<noteq> int (length xs)" by auto
  have "bf_index b1 < int (length xs)" using h1 ne by (simp add: in_head_def)
  then have ne2: "bf_index b2 \<noteq> int (length (xs @ ys))" using i by simp
  let ?n = "nat (bf_index b1)" and ?k = "ps_state ps" and ?s = "ps_sequence_id ps"
  from exec_head_run [OF h1 ne e t] obtain r where r: "outcome (ctl_state r) = (t, ps1, b1')" "\<not> at_headers_end r"
    "x_bf (ctl_state r) = b1" "bf_index b1 \<le> x_p (ctl_state r)" "x_p (ctl_state r) \<le> int (length xs)"
    "case r of Cont y \<Rightarrow> unfinished y \<and> 0 < x_cs y | Stop y \<Rightarrow> head_stopped y"
    "ps_sequence_id (x_ps (ctl_state r)) = ?s"
    "\<And>g k s pe. run_bytes mv mx pe (drop ?n xs) (recast g k s (entry ps b1)) = Inr (recast_ctl g k s r)" by blast
  note out = outcome_eq [OF r(1)]
  have rdy: "ready (x_ps (ctl_state r))" using tok out(7) r(3) by (auto split: if_splits)
  then obtain y where y: "r = Stop y" using r(6) by (cases r) (auto simp: unfinished_def)
  let ?y = "recast (\<lambda>_. b2) ?k ?s y"
  have "entry ps b2 = recast (\<lambda>_. b2) ?k ?s (entry ps b1)" using i by (simp add: entry_def recast_def)
  then have "run_bytes mv mx (bf_length b2) (drop ?n xs) (entry ps b2) = Inr (Stop ?y)" using r(8) y by simp
  moreover have "?n \<le> length xs" using h1 by (auto simp: in_head_def)
  ultimately have run: "run_bytes mv mx (bf_length b2) (drop (nat (bf_index b2)) (xs @ ys)) (entry ps b2) = Inr (Stop ?y)"
    using i by (simp add: run_bytes_append)
  from exec_run [OF h2 ne(1) ne2, of mv mx] run have e2: "hsh_parser_exec mv ps b2 mx = Inr (outcome ?y)" by auto
  have "outcome ?y = (t, ps1\<lparr>ps_sequence_id := ?s\<rparr>, b2\<lparr>bf_index := i32 (x_p y)\<rparr>)"
    using outcome_recast [of y t ps1 b1' "\<lambda>_. b2" ?k ?s] r(1) y rdy by simp
  moreover have "ps_sequence_id ps1 = ?s" using out(7) rdy r(7) by simp
  moreover have "ps1\<lparr>ps_sequence_id := ps_sequence_id ps1\<rparr> = ps1" by simp
  ultimately have o2: "outcome ?y = (t, ps1, b2\<lparr>bf_index := i32 (x_p y)\<rparr>)" by simp
  have p: "i32 (x_p y) = x_p y" using h1 r(4,5) y by (intro i32_id) (auto simp: in_head_def received_def)
  have "head_state (ps_state ps1)" "\<not> finished ps1" using result_head_state [OF r(6,2)] out by auto
  moreover have "0 \<le> x_p y" "x_p y \<le> int (length xs)" "x_p y \<le> int (length (xs @ ys))"
    using r(4,5) y h1 by (auto simp: in_head_def)
  moreover have "ps_sequence_id ps1 \<noteq> bf_sequence_id b2" using h2 out(7) rdy r(7) by (simp add: in_head_def)
  ultimately have "in_head ps1 (b1\<lparr>bf_index := x_p y\<rparr>) xs" "in_head ps1 (b2\<lparr>bf_index := x_p y\<rparr>) (xs @ ys)"
    using in_head_next [OF h1] in_head_next [OF h2] tok out(4) by blast+
  then show ?thesis using e2 o2 p out(2) r(3) y by (intro exI [of _ "x_p y"]) simp
qed

text \<open>
  What it means that a call which waits, and a later call on more bytes, are one call on all bytes:
  \<open>j\<close> is the cursor between the two, and only the parser's mark of the last buffer may differ.
\<close>

definition resumes ::
    "int \<Rightarrow> int \<Rightarrow> hsh_parser_s \<Rightarrow> hsh_parser_s \<Rightarrow> hsh_buffer_s \<Rightarrow> int \<Rightarrow> bool"
  where
  "resumes mv mx ps ps1 b2 j \<longleftrightarrow>
     (\<exists>u q b s. hsh_parser_exec mv ps1 (b2\<lparr>bf_index := j\<rparr>) mx = Inr (u, q, b)
        \<and> hsh_parser_exec mv ps b2 mx = Inr (u, q\<lparr>ps_sequence_id := s\<rparr>, b)
        \<and> (s = bf_sequence_id b2 \<longleftrightarrow> ps_sequence_id q = bf_sequence_id b2))"

text \<open>The first call had nothing to do.\<close>

lemma resumes_idle:
  assumes h2: "in_head ps b2 zs" and seq: "bf_sequence_id b2 \<noteq> q1"
  shows "in_head (ps\<lparr>ps_sequence_id := q1\<rparr>) b2 zs \<and> resumes mv mx ps (ps\<lparr>ps_sequence_id := q1\<rparr>) b2 (bf_index b2)"
proof -
  let ?ps1 = "ps\<lparr>ps_sequence_id := q1\<rparr>"
  have h3: "in_head ?ps1 b2 zs" using h2 seq by (simp add: in_head_def)
  from exec_run [OF h3] exec_not_run [OF h3, of mv mx] obtain u q b where x: "hsh_parser_exec mv ?ps1 b2 mx = Inr (u, q, b)"
    by (metis surj_pair)
  have "ps\<lparr>ps_sequence_id := ps_sequence_id ps\<rparr> = ps" by (cases ps) simp
  with exec_seq [OF h3 _ x, of "ps_sequence_id ps"] h2 obtain s where
    "hsh_parser_exec mv ps b2 mx = Inr (u, q\<lparr>ps_sequence_id := s\<rparr>, b)
      \<and> (s = bf_sequence_id b2 \<longleftrightarrow> ps_sequence_id q = bf_sequence_id b2)" by (auto simp: in_head_def)
  moreover have "b2\<lparr>bf_index := bf_index b2\<rparr> = b2" by simp
  ultimately show ?thesis using h3 x by (auto simp: resumes_def)
qed

text \<open>The first call ran to the end of its bytes, and there are more.\<close>

lemma resumes_runs:
  assumes h3: "in_head ps1 (b2\<lparr>bf_index := int (length xs)\<rparr>) (xs @ ys)" and ys: "ys \<noteq> []"
    and ps1: "ps1 = (x_ps y)\<lparr>ps_state := x_cs y, ps_sequence_id := q1\<rparr>" "x_p y = int (length xs)" "x_bf y = b2"
    and live: "unfinished y" "0 < x_cs y" and run: "run_bytes mv mx (bf_length b2) ys y = Inr r2"
    and e: "hsh_parser_exec mv ps b2 mx = Inr (outcome (ctl_state r2))"
    and sq: "ps_sequence_id (x_ps y) \<noteq> bf_sequence_id b2" "q1 \<noteq> bf_sequence_id b2"
  shows "resumes mv mx ps ps1 b2 (int (length xs))"
proof -
  let ?b = "b2\<lparr>bf_index := int (length xs)\<rparr>"
  have entry: "entry ps1 ?b = recast (\<lambda>b. b\<lparr>bf_index := int (length xs)\<rparr>) (x_cs y) q1 y"
    using ps1 by (simp add: entry_def recast_def)
  obtain u q b where o: "outcome (ctl_state r2) = (u, q, b)" by (metis surj_pair)
  from recast_index [OF run live o, of q1 "int (length xs)" "x_cs y"] sq ps1(3) entry obtain r3 s' where
    r3: "run_bytes mv mx (bf_length b2) ys (entry ps1 ?b) = Inr r3" "outcome (ctl_state r3) = (u, q\<lparr>ps_sequence_id := s'\<rparr>, b)"
      "s' = bf_sequence_id b2 \<longleftrightarrow> ps_sequence_id q = bf_sequence_id b2" by auto
  have "ps_state ps1 \<noteq> 0" "bf_index ?b \<noteq> int (length (xs @ ys))" using live(2) ps1(1) ys by auto
  from exec_run [OF h3 this, of mv mx] r3(1) have e3: "hsh_parser_exec mv ps1 ?b mx = Inr (outcome (ctl_state r3))" by auto
  show ?thesis unfolding resumes_def using e3 e o r3(2,3)
    by (intro exI [of _ u] exI [of _ "q\<lparr>ps_sequence_id := s'\<rparr>"] exI [of _ b] exI [of _ "ps_sequence_id q"]) simp
qed

text \<open>The first call stopped, or there are no more bytes.\<close>

lemma resumes_stopped:
  assumes h3: "in_head ps1 (b2\<lparr>bf_index := j\<rparr>) zs" and "ps_state ps1 = 0 \<or> j = int (length zs)"
    and "hsh_parser_exec mv ps b2 mx = Inr (token_none, ps1\<lparr>ps_sequence_id := bf_sequence_id b2\<rparr>, b2\<lparr>bf_index := j\<rparr>)"
  shows "resumes mv mx ps ps1 b2 j"
proof -
  have "hsh_parser_exec mv ps1 (b2\<lparr>bf_index := j\<rparr>) mx
      = Inr (token_none, ps1\<lparr>ps_sequence_id := bf_sequence_id b2\<rparr>, b2\<lparr>bf_index := j\<rparr>)"
    using exec_not_run [OF h3, of mv mx] assms(2) by simp
  with assms(3) show ?thesis unfolding resumes_def
    by (intro exI [of _ token_none] exI [of _ "ps1\<lparr>ps_sequence_id := bf_sequence_id b2\<rparr>"] exI [of _ "b2\<lparr>bf_index := j\<rparr>"]
        exI [of _ "bf_sequence_id b2"]) simp
qed

text \<open>A call that uses up the bytes leaves a state from which parsing goes on when more has arrived.\<close>

lemma exec_wait_more:
  assumes h1: "in_head ps b1 xs" and h2: "in_head ps b2 (xs @ ys)" and i: "bf_index b2 = bf_index b1"
    and e: "hsh_parser_exec mv ps b1 mx = Inr (t, ps1, b1')"
    and w: "ps_sequence_id ps1 = bf_sequence_id b1" "ps_state ps1 = 0 \<or> \<not> over_limit ps1"
    and seq: "bf_sequence_id b2 \<noteq> bf_sequence_id b1"
  shows "\<exists>j. b1' = b1\<lparr>bf_index := j\<rparr> \<and> in_head ps1 (b2\<lparr>bf_index := j\<rparr>) (xs @ ys) \<and> resumes mv mx ps ps1 b2 j"
proof (cases "ps_state ps = 0 \<or> bf_index b1 = int (length xs)")
  case True
  with exec_not_run [OF h1 True] e have eq: "b1' = b1" "ps1 = ps\<lparr>ps_sequence_id := bf_sequence_id b1\<rparr>" by auto
  have b2: "b2\<lparr>bf_index := bf_index b1\<rparr> = b2" using i by (cases b2) simp
  from resumes_idle [OF h2 seq, of mv mx] eq i show ?thesis by (intro exI [of _ "bf_index b1"]) (simp add: b2)
next
  case False
  then have ne: "ps_state ps \<noteq> 0" "bf_index b1 \<noteq> int (length xs)" by auto
  have t: "t = token_none" by (rule exec_waits [OF h1 e w(1)])
  then have tt: "tk_type t \<noteq> HSH_TOK_HEADERS_DONE" by (simp add: token_none_def)
  have "bf_index b1 < int (length xs)" using h1 ne by (simp add: in_head_def)
  then have ne2: "bf_index b2 \<noteq> int (length (xs @ ys))" using i by simp
  let ?n = "nat (bf_index b1)" and ?k = "ps_state ps" and ?s = "ps_sequence_id ps"
  from exec_head_run [OF h1 ne e tt] obtain r where r: "outcome (ctl_state r) = (t, ps1, b1')" "\<not> at_headers_end r"
    "x_bf (ctl_state r) = b1" "bf_index b1 \<le> x_p (ctl_state r)" "x_p (ctl_state r) \<le> int (length xs)"
    "case r of Cont y \<Rightarrow> unfinished y \<and> 0 < x_cs y | Stop y \<Rightarrow> head_stopped y"
    "ps_sequence_id (x_ps (ctl_state r)) = ?s"
    "run_bytes mv mx (bf_length b1) (drop ?n xs) (entry ps b1) = Inr r"
    "\<And>g k s pe. run_bytes mv mx pe (drop ?n xs) (recast g k s (entry ps b1)) = Inr (recast_ctl g k s r)" by blast
  note out = outcome_eq [OF r(1)]
  define j where "j = x_p (ctl_state r)"
  have j: "i32 j = j" "0 \<le> j" using h1 r(4,5) by (auto simp: in_head_def received_def j_def intro!: i32_id)
  have nr: "\<not> ready (x_ps (ctl_state r))" using out(7) w(1) h1 r(7) by (auto simp: in_head_def split: if_splits)
  have h3: "in_head ps1 (b2\<lparr>bf_index := j\<rparr>) (xs @ ys)"
    using in_head_next [OF h2 j(2)] r(5) result_head_state [OF r(6,2)] out w(1) seq by (simp add: j_def)
  have start: "entry ps b2 = recast (\<lambda>_. b2) ?k ?s (entry ps b1)" using i by (simp add: entry_def recast_def)
  have drops: "drop ?n (xs @ ys) = drop ?n xs @ ys" using h1 by (auto simp: in_head_def)
  let ?r = "recast_ctl (\<lambda>_. b2) ?k ?s r"
  have run: "run_bytes mv mx (bf_length b2) (drop (nat (bf_index b2)) (xs @ ys)) (entry ps b2)
      = (case ?r of Stop y \<Rightarrow> Inr (Stop y) | Cont y \<Rightarrow> run_bytes mv mx (bf_length b2) ys y)"
    using i start drops r(9) by (simp add: run_bytes_append split: ctl.split)
  from exec_run [OF h2 ne(1) ne2, of mv mx] obtain r2 where
    r2: "run_bytes mv mx (bf_length b2) (drop (nat (bf_index b2)) (xs @ ys)) (entry ps b2) = Inr r2"
    "hsh_parser_exec mv ps b2 mx = Inr (outcome (ctl_state r2))" by blast
  have ps1: "ps1 = (x_ps (ctl_state r))\<lparr>ps_state := x_cs (ctl_state r), ps_sequence_id := bf_sequence_id b1\<rparr>"
    using r(1,3) nr by (simp add: outcome_def Let_def)
  have "resumes mv mx ps ps1 b2 j"
  proof (cases "\<exists>y. r = Cont y \<and> ys \<noteq> []")
    case True
    then obtain y where y: "r = Cont y" "ys \<noteq> []" by blast
    have jl: "j = int (length xs)"
      using run_bytes_Cont [OF r(8) [unfolded y(1)]] h1 y(1) by (auto simp: j_def entry_def in_head_def)
    show ?thesis unfolding jl
      by (rule resumes_runs [OF _ y(2), where y = "recast (\<lambda>_. b2) ?k ?s y" and ?q1.0 = "bf_sequence_id b1" and ?r2.0 = r2])
        (use h3 jl ps1 y(1) r(6) run r2 h2 seq in \<open>auto simp: recast_def unfinished_def finished_def ready_def in_head_def j_def\<close>)
  next
    case False
    have stop: "ps_state ps1 = 0 \<or> j = int (length (xs @ ys))"
    proof (cases r)
      case (Cont y)
      with False run_bytes_Cont [OF r(8) [unfolded Cont]] h1 show ?thesis by (auto simp: j_def entry_def in_head_def)
    next
      case (Stop y)
      with r(2,6) nr w(2) out(3,8,9) show ?thesis by (auto simp: head_stopped_def over_limit_def)
    qed
    have "r2 = ?r" using run r2(1) False by (cases r) auto
    then have "outcome (ctl_state r2) = outcome (recast (\<lambda>_. b2) ?k ?s (ctl_state r))" by (cases r) simp_all
    with outcome_recast [OF r(1)] nr j(1) r2(2) show ?thesis by (intro resumes_stopped [OF h3 stop]) (simp add: j_def t)
  qed
  with h3 out(2) r(3) j show ?thesis by (intro exI [of _ j]) (simp add: j_def)
qed

section \<open>The calls up to the end of the head\<close>

text \<open>
  The calls that the parse loop makes, with the tokens it is given: it goes on after the tokens
  that it only collects, and stops at the others.
\<close>

definition collected :: "hsh_token_s \<Rightarrow> bool" where
  "collected t \<longleftrightarrow> tk_type t \<notin> {HSH_TOK_NONE, HSH_TOK_HEADERS_DONE, HSH_TOK_BODY, HSH_TOK_ERR}"

primrec token_calls ::
    "nat \<Rightarrow> int \<Rightarrow> int \<Rightarrow> hsh_parser_s \<Rightarrow> hsh_buffer_s \<Rightarrow> (hsh_token_s list \<times> hsh_parser_s \<times> hsh_buffer_s) result"
  where
  "token_calls 0 mv mx ps bf = Inl Out_Of_Fuel"
| "token_calls (Suc n) mv mx ps bf =
     bindr (hsh_parser_exec mv ps bf mx) (\<lambda>(t, ps, bf).
       if tk_type t = HSH_TOK_NONE then Inr ([], ps, bf)
       else if \<not> collected t then Inr ([t], ps, bf)
       else bindr (token_calls n mv mx ps bf) (\<lambda>(ts, ps, bf). Inr (t # ts, ps, bf)))"

definition head_tokens ::
    "int \<Rightarrow> int \<Rightarrow> hsh_parser_s \<Rightarrow> hsh_buffer_s \<Rightarrow> (hsh_token_s list \<times> hsh_parser_s \<times> hsh_buffer_s) result"
  where
  "head_tokens mv mx ps bf = token_calls (parse_fuel bf) mv mx ps bf"

lemma token_calls_more:
  "token_calls n mv mx ps bf = Inr r \<Longrightarrow> n \<le> m \<Longrightarrow> token_calls m mv mx ps bf = Inr r"
proof (induction n arbitrary: m ps bf r)
  case (Suc n)
  then obtain k where m: "m = Suc k" "n \<le> k" by (cases m) auto
  from Suc.prems(1) obtain t q b where e: "hsh_parser_exec mv ps bf mx = Inr (t, q, b)" by (auto simp: bindr_Inr_iff)
  with Suc.prems(1) m Suc.IH [OF _ m(2)] show ?case by (auto simp: bindr_Inr_iff split: if_splits)
qed simp

lemma exec_returns:
  assumes "in_head ps bf data"
  shows "\<exists>t q b. hsh_parser_exec mv ps bf mx = Inr (t, q, b)"
proof (cases "ps_state ps = 0 \<or> bf_index bf = int (length data)")
  case True
  with exec_not_run [OF assms True] show ?thesis by simp
next
  case False
  with exec_run [OF assms, of mv mx] show ?thesis by (metis surj_pair)
qed

lemma exec_collected:
  assumes "in_head ps bf data" and "hsh_parser_exec mv ps bf mx = Inr (t, ps1, bf1)" and "collected t"
  shows "in_head ps1 bf1 data" "ps_sequence_id ps1 \<noteq> bf_sequence_id bf" "bf_sequence_id bf1 = bf_sequence_id bf"
proof -
  show seq: "ps_sequence_id ps1 \<noteq> bf_sequence_id bf"
    using exec_waits [OF assms(1,2)] assms(3) by (auto simp: collected_def token_none_def)
  have "tk_type t \<noteq> HSH_TOK_HEADERS_DONE" using assms(3) by (simp add: collected_def)
  from exec_position [OF assms(1,2) this] obtain j where j: "bf1 = bf\<lparr>bf_index := j\<rparr>" "bf_index bf \<le> j" "j \<le> int (length data)"
    "head_state (ps_state ps1)" "\<not> ready ps1" "\<not> finished ps1" by blast
  moreover have "0 \<le> j" using j(2) assms(1) by (simp add: in_head_def)
  ultimately show "in_head ps1 bf1 data" using in_head_next [OF assms(1)] seq by blast
  show "bf_sequence_id bf1 = bf_sequence_id bf" using j(1) by simp
qed

lemma in_head_loop_ready: "in_head ps bf data \<Longrightarrow> loop_ready ps bf"
  by (auto simp: in_head_def loop_ready_def received_def head_state_def typed_state_def data_state_def)

lemma token_calls_return:
  "in_head ps bf data \<Longrightarrow> need ps bf \<le> n \<Longrightarrow> \<exists>ts q b. token_calls n mv mx ps bf = Inr (ts, q, b)"
proof (induction n arbitrary: ps bf)
  case 0
  then show ?case by (simp add: need_def split: if_splits)
next
  case (Suc n)
  from exec_returns [OF Suc.prems(1)] obtain t q b where e: "hsh_parser_exec mv ps bf mx = Inr (t, q, b)" by blast
  show ?case
  proof (cases "collected t")
    case False
    with e show ?thesis by simp
  next
    case True
    have "head_state (ps_state ps)" using Suc.prems(1) by (simp add: in_head_def)
    from exec_head [OF in_head_loop_ready [OF Suc.prems(1)] this, of mv mx] e True
    have "need q b < need ps bf" by (auto simp: closing_def collected_def)
    with Suc.IH [OF exec_collected(1) [OF Suc.prems(1) e True]] Suc.prems(2) e True show ?thesis
      by (fastforce simp: collected_def)
  qed
qed

lemma head_tokens_return: "in_head ps bf data \<Longrightarrow> \<exists>ts q b. head_tokens mv mx ps bf = Inr (ts, q, b)"
  unfolding head_tokens_def by (rule token_calls_return) (auto simp: need_def parse_fuel_def)

lemma token_calls_seq:
  "in_head ps bf data \<Longrightarrow> s \<noteq> bf_sequence_id bf \<Longrightarrow> token_calls n mv mx ps bf = Inr (ts, ps1, bf1) \<Longrightarrow>
     \<exists>s'. token_calls n mv mx (ps\<lparr>ps_sequence_id := s\<rparr>) bf = Inr (ts, ps1\<lparr>ps_sequence_id := s'\<rparr>, bf1)
       \<and> (s' = bf_sequence_id bf \<longleftrightarrow> ps_sequence_id ps1 = bf_sequence_id bf)"
proof (induction n arbitrary: ps bf s ts)
  case (Suc n)
  from exec_returns [OF Suc.prems(1)] obtain t q b where e: "hsh_parser_exec mv ps bf mx = Inr (t, q, b)" by blast
  from exec_seq [OF Suc.prems(1,2) e] obtain s1 where
    e': "hsh_parser_exec mv (ps\<lparr>ps_sequence_id := s\<rparr>) bf mx = Inr (t, q\<lparr>ps_sequence_id := s1\<rparr>, b)"
    "s1 = bf_sequence_id bf \<longleftrightarrow> ps_sequence_id q = bf_sequence_id bf" by blast
  show ?case
  proof (cases "collected t")
    case False
    with e e' Suc.prems(3) show ?thesis by (auto split: if_splits)
  next
    case True
    have "in_head (ps\<lparr>ps_sequence_id := s\<rparr>) bf data" using Suc.prems(1,2) by (simp add: in_head_def)
    note c = exec_collected [OF Suc.prems(1) e True] exec_collected [OF this e'(1) True]
    from Suc.prems(3) e True obtain ts' where ts: "token_calls n mv mx q b = Inr (ts', ps1, bf1)" "ts = t # ts'"
      by (auto simp: collected_def bindr_Inr_iff)
    have "s1 \<noteq> bf_sequence_id b" using c(3,5) by simp
    from Suc.IH [OF c(1) this ts(1)] e' True ts(2) c(3) show ?thesis by (auto simp: collected_def)
  qed
qed simp

lemma token_calls_split:
  assumes "in_head ps b1 xs" and "in_head ps b2 (xs @ ys)" and "bf_index b2 = bf_index b1"
    and "token_calls n mv mx ps b1 = Inr (ts, ps1, b1')"
    and "ps_sequence_id ps1 = bf_sequence_id b1" and "ps_state ps1 = 0 \<or> \<not> over_limit ps1"
    and "bf_sequence_id b2 \<noteq> bf_sequence_id b1"
  shows "\<exists>j. b1' = b1\<lparr>bf_index := j\<rparr> \<and> in_head ps1 (b2\<lparr>bf_index := j\<rparr>) (xs @ ys)
    \<and> (\<forall>m us ps2 b. token_calls m mv mx ps1 (b2\<lparr>bf_index := j\<rparr>) = Inr (us, ps2, b) \<longrightarrow>
         (\<exists>s. token_calls (n + m) mv mx ps b2 = Inr (ts @ us, ps2\<lparr>ps_sequence_id := s\<rparr>, b)
            \<and> (s = bf_sequence_id b2 \<longleftrightarrow> ps_sequence_id ps2 = bf_sequence_id b2)))"
  using assms
proof (induction n arbitrary: ps b1 b2 ts)
  case (Suc n)
  note h1 = Suc.prems(1) and h2 = Suc.prems(2) and i = Suc.prems(3)
  from exec_returns [OF h1] obtain t q b1q where e: "hsh_parser_exec mv ps b1 mx = Inr (t, q, b1q)" by blast
  show ?case
  proof (cases "collected t")
    case True
    note c = exec_collected [OF h1 e True]
    have "tk_type t \<noteq> HSH_TOK_HEADERS_DONE" using True by (simp add: collected_def)
    from exec_token_more [OF h1 h2 i e c(2) this] obtain k where k: "b1q = b1\<lparr>bf_index := k\<rparr>"
      "hsh_parser_exec mv ps b2 mx = Inr (t, q, b2\<lparr>bf_index := k\<rparr>)"
      "in_head q b1q xs" "in_head q (b2\<lparr>bf_index := k\<rparr>) (xs @ ys)" by blast
    from Suc.prems(4) e True obtain ts' where ts: "token_calls n mv mx q b1q = Inr (ts', ps1, b1')" "ts = t # ts'"
      by (auto simp: collected_def bindr_Inr_iff)
    from Suc.IH [OF k(3,4) _ ts(1)] k(1) Suc.prems(5-7) obtain j where j: "b1' = b1\<lparr>bf_index := j\<rparr>"
      "in_head ps1 (b2\<lparr>bf_index := j\<rparr>) (xs @ ys)"
      "\<And>m us ps2 b. token_calls m mv mx ps1 (b2\<lparr>bf_index := j\<rparr>) = Inr (us, ps2, b) \<Longrightarrow>
        \<exists>s. token_calls (n + m) mv mx q (b2\<lparr>bf_index := k\<rparr>) = Inr (ts' @ us, ps2\<lparr>ps_sequence_id := s\<rparr>, b)
          \<and> (s = bf_sequence_id b2 \<longleftrightarrow> ps_sequence_id ps2 = bf_sequence_id b2)" by auto
    have "\<exists>s. token_calls (Suc n + m) mv mx ps b2 = Inr (ts @ us, ps2\<lparr>ps_sequence_id := s\<rparr>, b)
        \<and> (s = bf_sequence_id b2 \<longleftrightarrow> ps_sequence_id ps2 = bf_sequence_id b2)"
      if "token_calls m mv mx ps1 (b2\<lparr>bf_index := j\<rparr>) = Inr (us, ps2, b)" for m us ps2 b
      using j(3) [OF that] k(2) True ts(2) by (auto simp: collected_def)
    with j(1,2) show ?thesis by blast
  next
    case False
    have "ts = [] \<and> ps1 = q \<and> b1' = b1q \<and> tk_type t = HSH_TOK_NONE"
    proof (cases "tk_type t = HSH_TOK_NONE")
      case nn: False
      with False Suc.prems(4) e have "ps1 = q" by simp
      with exec_waits [OF h1 e] Suc.prems(5) nn show ?thesis by (simp add: token_none_def)
    qed (use Suc.prems(4) e in simp)
    then have r: "ts = []" "ps1 = q" "b1' = b1q" by auto
    from exec_wait_more [OF h1 h2 i e] Suc.prems(5-7) r obtain j where j: "b1' = b1\<lparr>bf_index := j\<rparr>"
      and hj: "in_head ps1 (b2\<lparr>bf_index := j\<rparr>) (xs @ ys)" and res: "resumes mv mx ps ps1 b2 j" by auto
    from res obtain u p b s where e1: "hsh_parser_exec mv ps1 (b2\<lparr>bf_index := j\<rparr>) mx = Inr (u, p, b)"
      and e2: "hsh_parser_exec mv ps b2 mx = Inr (u, p\<lparr>ps_sequence_id := s\<rparr>, b)"
      and sq: "s = bf_sequence_id b2 \<longleftrightarrow> ps_sequence_id p = bf_sequence_id b2" unfolding resumes_def by blast
    have "\<exists>s. token_calls (Suc n + m) mv mx ps b2 = Inr (ts @ us, ps2\<lparr>ps_sequence_id := s\<rparr>, b')
        \<and> (s = bf_sequence_id b2 \<longleftrightarrow> ps_sequence_id ps2 = bf_sequence_id b2)"
      if cm: "token_calls m mv mx ps1 (b2\<lparr>bf_index := j\<rparr>) = Inr (us, ps2, b')" for m us ps2 b'
    proof (cases "collected u")
      case False
      with cm e1 e2 r sq show ?thesis by (cases m) (auto split: if_splits)
    next
      case True
      note c1 = exec_collected [OF hj e1 True] and c2 = exec_collected [OF h2 e2 True]
      from cm e1 True obtain k us' where k: "m = Suc k" "us = u # us'" "token_calls k mv mx p b = Inr (us', ps2, b')"
        by (cases m) (auto simp: collected_def bindr_Inr_iff)
      have "s \<noteq> bf_sequence_id b" using c2(2,3) by simp
      from token_calls_seq [OF c1(1) this k(3)] obtain s' where
        s': "token_calls k mv mx (p\<lparr>ps_sequence_id := s\<rparr>) b = Inr (us', ps2\<lparr>ps_sequence_id := s'\<rparr>, b')"
        "s' = bf_sequence_id b \<longleftrightarrow> ps_sequence_id ps2 = bf_sequence_id b" by blast
      from token_calls_more [OF s'(1), of "n + m"] k(1) e2 True r(1) k(2) s'(2) c1(3) show ?thesis
        by (auto simp: collected_def)
    qed
    with j hj show ?thesis by blast
  qed
qed simp

text \<open>
  C30. As long as no part of it exceeds its limit, parsing the head of a request does not depend on
  how it was split over reads, whether the head is well-formed or not. Suppose that the
  bytes received so far, \<open>xs\<close>, have been parsed up to their end and the parser waits for more (or
  has met an error). When \<open>ys\<close> has arrived in addition, going on from there gives the tokens
  that are still missing: parsing all the bytes in one go gives both lists of tokens one after the
  other, and leaves the same buffer and the same parser, up to the sequence number it has noted. The
  head may be malformed. Excluded is a first piece after which a part is over its limit: a
  call ends without a token at a byte over the limit, so that what is parsed next depends on where
  the reads were split.
\<close>

theorem head_tokens_split:
  assumes "in_head ps b1 xs" and "in_head ps b2 (xs @ ys)" and "bf_index b2 = bf_index b1"
    and "bf_sequence_id b2 \<noteq> bf_sequence_id b1"
    and "head_tokens mv mx ps b1 = Inr (ts, ps1, b1')"
    and "ps_sequence_id ps1 = bf_sequence_id b1" and "ps_state ps1 = hsh_http_error \<or> \<not> over_limit ps1"
  shows "\<exists>us ps2 b2' s. head_tokens mv mx ps1 (b2\<lparr>bf_index := bf_index b1'\<rparr>) = Inr (us, ps2, b2')
    \<and> head_tokens mv mx ps b2 = Inr (ts @ us, ps2\<lparr>ps_sequence_id := s\<rparr>, b2')"
proof -
  from token_calls_split [OF assms(1-3) assms(5) [unfolded head_tokens_def] assms(6)] assms(4,7) obtain j where
    j: "b1' = b1\<lparr>bf_index := j\<rparr>" "in_head ps1 (b2\<lparr>bf_index := j\<rparr>) (xs @ ys)"
    and sp: "\<And>m us ps2 b. token_calls m mv mx ps1 (b2\<lparr>bf_index := j\<rparr>) = Inr (us, ps2, b) \<Longrightarrow>
      \<exists>s. token_calls (parse_fuel b1 + m) mv mx ps b2 = Inr (ts @ us, ps2\<lparr>ps_sequence_id := s\<rparr>, b)
        \<and> (s = bf_sequence_id b2 \<longleftrightarrow> ps_sequence_id ps2 = bf_sequence_id b2)"
    unfolding hsh_http_error_def by blast
  from head_tokens_return [OF j(2), of mv mx] obtain us ps2 b where
    u: "head_tokens mv mx ps1 (b2\<lparr>bf_index := j\<rparr>) = Inr (us, ps2, b)" by blast
  from sp [OF this [unfolded head_tokens_def]] obtain s m where
    m: "token_calls m mv mx ps b2 = Inr (ts @ us, ps2\<lparr>ps_sequence_id := s\<rparr>, b)" by blast
  from head_tokens_return [OF assms(2), of mv mx] obtain vs q c where v: "head_tokens mv mx ps b2 = Inr (vs, q, c)" by blast
  have "token_calls (max m (parse_fuel b2)) mv mx ps b2 = Inr (vs, q, c)"
    using token_calls_more [OF v [unfolded head_tokens_def]] by simp
  moreover have "token_calls (max m (parse_fuel b2)) mv mx ps b2 = Inr (ts @ us, ps2\<lparr>ps_sequence_id := s\<rparr>, b)"
    using token_calls_more [OF m] by simp
  ultimately show ?thesis using u v j(1) by auto
qed

text \<open>The start of a request line that arrives in two reads.\<close>

definition more_bytes :: hsh_buffer_s where
  "more_bytes = buffer_zero\<lparr>bf_buf := Some (map Some (''GET / '' @ ''HTTP'')), bf_capacity := 10, bf_length := 10,
     bf_sequence_id := 2\<rparr>"

lemma first_bytes_tokens:
  "case head_tokens 0 64 hsh_parser_init first_bytes of Inl e \<Rightarrow> False
   | Inr (ts, ps, bf) \<Rightarrow> length ts = 2 \<and> ps_sequence_id ps = 1 \<and> \<not> over_limit ps \<and> bf = first_bytes\<lparr>bf_index := 6\<rparr>"
  by code_simp

lemma first_bytes_in_head:
  "in_head hsh_parser_init first_bytes ''GET / ''" "in_head hsh_parser_init more_bytes (''GET / '' @ ''HTTP'')"
  by (simp_all add: in_head_def received_def holds_def first_bytes_def more_bytes_def buffer_zero_def hsh_parser_init_def
      parser_zero_def hsh_http_start_def head_state_def ready_def finished_def flag_ops)

theorem head_tokens_split_witness:
  "\<exists>ts ps1 us ps2 b s. head_tokens 0 64 hsh_parser_init first_bytes = Inr (ts, ps1, first_bytes\<lparr>bf_index := 6\<rparr>)
    \<and> length ts = 2 \<and> head_tokens 0 64 ps1 (more_bytes\<lparr>bf_index := 6\<rparr>) = Inr (us, ps2, b)
    \<and> head_tokens 0 64 hsh_parser_init more_bytes = Inr (ts @ us, ps2\<lparr>ps_sequence_id := s\<rparr>, b)"
proof -
  from first_bytes_tokens obtain ts ps1 where t: "head_tokens 0 64 hsh_parser_init first_bytes = Inr (ts, ps1, first_bytes\<lparr>bf_index := 6\<rparr>)"
    "length ts = 2" "ps_sequence_id ps1 = 1" "\<not> over_limit ps1" by (auto split: sum.splits prod.splits)
  have "bf_index more_bytes = bf_index first_bytes" "bf_sequence_id more_bytes \<noteq> bf_sequence_id first_bytes"
    "ps_sequence_id ps1 = bf_sequence_id first_bytes"
    using t(3) by (simp_all add: more_bytes_def first_bytes_def buffer_zero_def)
  from head_tokens_split [OF first_bytes_in_head this(1,2) t(1) this(3)] t show ?thesis by auto
qed

end

