(* ===== verification/Parse_Prefix.thy ===== *)
theory Parse_Prefix
  imports Parse_Split
begin

text \<open>
  The calls over a prefix of the bytes: where one parse of everything reaches the end of the
  headers, the parse of a shorter prefix returns the tokens that lie in it and waits for more, inside the
  limits. Together with \<open>Parse_Split\<close> this determines what every partial read leaves.
\<close>

text \<open>The run of a call that returns a token, and what it does up to the end of the first piece.\<close>

lemma token_run:
  assumes h2: "in_head ps b2 (xs @ ys)" and e: "hsh_parser_exec 0 ps b2 mx = Inr (t, q, b2q)"
    and tok: "ps_sequence_id q \<noteq> bf_sequence_id b2" and n: "n = nat (bf_index b2)" "n \<le> length xs"
  obtains r r2 where "ps_state ps \<noteq> 0"
    and "run_bytes 0 mx (bf_length b2) (drop n (xs @ ys)) (entry ps b2) = Inr r2"
    and "outcome (ctl_state r2) = (t, q, b2q)" and "ready (x_ps (ctl_state r2))"
    and "run_bytes 0 mx (bf_length b2) (drop n xs) (entry ps b2) = Inr r"
    and "case r of Cont y \<Rightarrow> unfinished y \<and> 0 < x_cs y | Stop y \<Rightarrow> head_stopped y"
    and "\<forall>g k s pe. (at_headers_end r \<longrightarrow> (\<exists>i. g = (\<lambda>b. b\<lparr>bf_index := i\<rparr>))) \<longrightarrow>
      run_bytes 0 mx pe (drop n xs) (recast g k s (entry ps b2)) = Inr (recast_ctl g k s r)"
    and "Inr r2 = (case r of Stop y \<Rightarrow> Inr (Stop y) | Cont y \<Rightarrow> run_bytes 0 mx (bf_length b2) ys y)"
proof -
  have "\<not> (ps_state ps = 0 \<or> bf_index b2 = int (length (xs @ ys)))"
  proof
    assume "ps_state ps = 0 \<or> bf_index b2 = int (length (xs @ ys))"
    from exec_not_run [OF h2 this] e tok show False by auto
  qed
  then have ne: "ps_state ps \<noteq> 0" "bf_index b2 \<noteq> int (length (xs @ ys))" by auto
  note x2 = entry_live [OF h2 ne(1)]
  from exec_run [OF h2 ne, of 0 mx] obtain r2 where
    r2: "run_bytes 0 mx (bf_length b2) (drop n (xs @ ys)) (entry ps b2) = Inr r2"
    "hsh_parser_exec 0 ps b2 mx = Inr (outcome (ctl_state r2))" using n by auto
  have out2: "outcome (ctl_state r2) = (t, q, b2q)" using r2(2) e by simp
  have "bf_sequence_id (x_bf (ctl_state r2)) = bf_sequence_id b2"
    using run_keeps_sequence(1) [OF r2(1) x2] by (simp add: entry_def)
  then have rdy2: "ready (x_ps (ctl_state r2))" using outcome_eq(7) [OF out2] tok by (auto split: if_splits)
  from run_bytes_head [OF x2, of 0 mx "bf_length b2" "drop n xs"] obtain r where
    r: "run_bytes 0 mx (bf_length b2) (drop n xs) (entry ps b2) = Inr r"
    "case r of Cont y \<Rightarrow> unfinished y \<and> 0 < x_cs y | Stop y \<Rightarrow> head_stopped y"
    "\<forall>g k s pe. (at_headers_end r \<longrightarrow> (\<exists>i. g = (\<lambda>b. b\<lparr>bf_index := i\<rparr>))) \<longrightarrow>
      run_bytes 0 mx pe (drop n xs) (recast g k s (entry ps b2)) = Inr (recast_ctl g k s r)" by blast
  have "Inr r2 = (case r of Stop y \<Rightarrow> Inr (Stop y) | Cont y \<Rightarrow> run_bytes 0 mx (bf_length b2) ys y)"
    using r2(1) r(1) n by (simp add: run_bytes_append)
  with ne(1) r2(1) out2 rdy2 r show ?thesis by (rule that)
qed

text \<open>A token that ends in the first piece is returned by the call on that piece alone.\<close>

lemma token_in_prefix:
  assumes h1: "in_head ps b1 xs" and h2: "in_head ps b2 (xs @ ys)" and i: "bf_index b2 = bf_index b1" "bf_index b1 \<noteq> int (length xs)"
    and x: "ps_state ps \<noteq> 0" and run: "run_bytes 0 mx (bf_length b2) (drop (nat (bf_index b1)) xs) (entry ps b2) = Inr (Stop y)"
    and rc: "\<forall>g k s pe. (at_headers_end (Stop y) \<longrightarrow> (\<exists>i. g = (\<lambda>b. b\<lparr>bf_index := i\<rparr>))) \<longrightarrow>
      run_bytes 0 mx pe (drop (nat (bf_index b1)) xs) (recast g k s (entry ps b2)) = Inr (recast_ctl g k s (Stop y))"
    and out: "outcome y = (t, q, b2q)" "ready (x_ps y)" and t: "tk_type t \<noteq> HSH_TOK_HEADERS_DONE"
  shows "\<exists>j. b2q = b2\<lparr>bf_index := j\<rparr> \<and> hsh_parser_exec 0 ps b1 mx = Inr (t, q, b1\<lparr>bf_index := j\<rparr>)"
proof -
  let ?k = "ps_state ps" and ?s = "ps_sequence_id ps"
  note x2 = entry_live [OF h2 x]
  from exec_run [OF h1 x i(2), of 0 mx] obtain r1 where
    r1: "run_bytes 0 mx (bf_length b1) (drop (nat (bf_index b1)) xs) (entry ps b1) = Inr r1"
    "hsh_parser_exec 0 ps b1 mx = Inr (outcome (ctl_state r1))" by auto
  have start: "entry ps b1 = recast (\<lambda>_. b1) ?k ?s (entry ps b2)" using i by (simp add: entry_def recast_def)
  have nend: "\<not> at_headers_end (Stop y)" using outcome_eq(1) [OF out] t by auto
  then have "run_bytes 0 mx (bf_length b1) (drop (nat (bf_index b1)) xs) (recast (\<lambda>_. b1) ?k ?s (entry ps b2))
      = Inr (recast_ctl (\<lambda>_. b1) ?k ?s (Stop y))" using rc by blast
  then have "r1 = Stop (recast (\<lambda>_. b1) ?k ?s y)" using r1(1) start by simp
  with outcome_recast [OF out(1), of "\<lambda>_. b1" ?k ?s] out(2) r1(2)
  have "hsh_parser_exec 0 ps b1 mx = Inr (t, q\<lparr>ps_sequence_id := ?s\<rparr>, b1\<lparr>bf_index := i32 (x_p y)\<rparr>)" by simp
  moreover have "ps_sequence_id q = ?s"
    using outcome_eq(7) [OF out(1)] out(2) run_keeps_sequence(2) [OF run x2] by (simp add: entry_def)
  moreover have "q\<lparr>ps_sequence_id := ps_sequence_id q\<rparr> = q" by simp
  moreover have "x_bf y = b2" using run_bytes_position [OF run x2 nend] by (simp add: entry_def)
  ultimately show ?thesis using outcome_eq(2) [OF out(1)] by auto
qed

lemma exec_prefix:
  assumes h1: "in_head ps b1 xs" and h2: "in_head ps b2 (xs @ ys)" and i: "bf_index b2 = bf_index b1"
    and lim: "\<not> over_limit ps" and e: "hsh_parser_exec 0 ps b2 mx = Inr (t, q, b2q)"
    and tok: "ps_sequence_id q \<noteq> bf_sequence_id b2"
  shows "\<not> over_limit q"
    and "bf_index b2q \<le> int (length xs)
        \<and> (tk_type t \<noteq> HSH_TOK_HEADERS_DONE \<longrightarrow>
             (\<exists>j. b2q = b2\<lparr>bf_index := j\<rparr> \<and> hsh_parser_exec 0 ps b1 mx = Inr (t, q, b1\<lparr>bf_index := j\<rparr>)))
      \<or> (\<exists>q1. hsh_parser_exec 0 ps b1 mx = Inr (token_none, q1, b1\<lparr>bf_index := int (length xs)\<rparr>)
           \<and> ps_sequence_id q1 = bf_sequence_id b1 \<and> \<not> over_limit q1)" (is ?shorter)
proof -
  let ?n = "nat (bf_index b1)" and ?k = "ps_state ps" and ?s = "ps_sequence_id ps"
  have n: "?n = nat (bf_index b2)" "?n \<le> length xs" "0 \<le> bf_index b1" using h1 i by (auto simp: in_head_def)
  obtain r r2 where ne: "ps_state ps \<noteq> 0" and r2: "run_bytes 0 mx (bf_length b2) (drop ?n (xs @ ys)) (entry ps b2) = Inr r2"
    "outcome (ctl_state r2) = (t, q, b2q)" "ready (x_ps (ctl_state r2))"
    and r: "run_bytes 0 mx (bf_length b2) (drop ?n xs) (entry ps b2) = Inr r"
    "case r of Cont y \<Rightarrow> unfinished y \<and> 0 < x_cs y | Stop y \<Rightarrow> head_stopped y"
    "\<forall>g k s pe. (at_headers_end r \<longrightarrow> (\<exists>i. g = (\<lambda>b. b\<lparr>bf_index := i\<rparr>))) \<longrightarrow>
      run_bytes 0 mx pe (drop ?n xs) (recast g k s (entry ps b2)) = Inr (recast_ctl g k s r)"
    and whole: "Inr r2 = (case r of Stop y \<Rightarrow> Inr (Stop y) | Cont y \<Rightarrow> run_bytes 0 mx (bf_length b2) ys y)"
    by (rule token_run [OF h2 e tok n(1,2)])
  note x2 = entry_live [OF h2 ne]
  have lim2: "\<not> over_limit (x_ps (entry ps b2))" using lim by (simp add: entry_def)
  from run_keeps_limit [OF r2(1) x2 lim2 disjI2 [OF r2(3)]] outcome_eq(8,9) [OF r2(2)]
  show "\<not> over_limit q" by (simp add: over_limit_def)
  have xp: "x_p (entry ps b2) = bf_index b1" using i by (simp add: entry_def)
  have small: "int (length xs) < 2147483648" using h1 by (simp add: in_head_def received_def)
  show ?shorter
  proof (cases "bf_index b1 = int (length xs)")
    case True
    have "b1\<lparr>bf_index := int (length xs)\<rparr> = b1" using True by (cases b1) simp
    with exec_not_run [OF h1 disjI2 [OF True], of 0 mx] lim show ?thesis
      by (intro disjI2 exI [of _ "ps\<lparr>ps_sequence_id := bf_sequence_id b1\<rparr>"]) (simp add: over_limit_def)
  next
    case False
    show ?thesis
    proof (cases r)
      case (Cont y)
      from exec_run [OF h1 ne False, of 0 mx] obtain r1 where
        r1: "run_bytes 0 mx (bf_length b1) (drop ?n xs) (entry ps b1) = Inr r1"
        "hsh_parser_exec 0 ps b1 mx = Inr (outcome (ctl_state r1))" by auto
      have p: "x_p y = int (length xs)" using run_bytes_Cont [OF r(1) [unfolded Cont]] n(2,3) xp by (auto simp: entry_def)
      have "entry ps b1 = recast (\<lambda>_. b1) ?k ?s (entry ps b2)" using i by (simp add: entry_def recast_def)
      then have "r1 = Cont (recast (\<lambda>_. b1) ?k ?s y)" using r1(1) r(3) Cont by simp
      moreover have "\<not> ready (x_ps y)" using r(2) Cont by (simp add: unfinished_def)
      moreover have "\<not> over_limit (x_ps y)" using run_keeps_limit [OF r(1) x2 lim2] Cont by simp
      moreover have "i32 (int (length xs)) = int (length xs)" using small by (intro i32_id) auto
      ultimately show ?thesis using r1(2) p
        by (intro disjI2) (auto simp: outcome_def Let_def over_limit_def recast_def)
    next
      case (Stop y)
      then have r2y: "r2 = Stop y" using whole by simp
      have le: "0 \<le> x_p y" "x_p y \<le> int (length xs)" using run_bytes_cursor [OF r(1) x2] Stop n(2,3) xp by auto
      then have "i32 (x_p y) = x_p y" using small by (intro i32_id) auto
      then have bound: "bf_index b2q \<le> int (length xs)" using outcome_eq(2) [OF r2(2)] r2y le by simp
      from token_in_prefix [OF h1 h2 i False ne r(1) [unfolded Stop] r(3) [unfolded Stop]] r2(2,3) r2y bound show ?thesis by auto
    qed
  qed
qed

lemma token_calls_prefix:
  assumes "in_head ps b1 xs" and "in_head ps b2 (xs @ ys)" and "bf_index b2 = bf_index b1" and "\<not> over_limit ps"
    and "token_calls n 0 mx ps b2 = Inr (ts @ [t], q, b2q)" and "list_all collected ts"
    and "tk_type t = HSH_TOK_HEADERS_DONE" and "int (length xs) < bf_index b2q"
  shows "\<exists>us q1. token_calls n 0 mx ps b1 = Inr (us, q1, b1\<lparr>bf_index := int (length xs)\<rparr>)
    \<and> list_all collected us \<and> ps_sequence_id q1 = bf_sequence_id b1 \<and> \<not> over_limit q1"
  using assms
proof (induction n arbitrary: ps b1 b2 ts)
  case (Suc n)
  note h1 = Suc.prems(1) and h2 = Suc.prems(2)
  from exec_returns [OF h2] obtain u p b2p where e: "hsh_parser_exec 0 ps b2 mx = Inr (u, p, b2p)" by blast
  have un: "tk_type u \<noteq> HSH_TOK_NONE"
  proof
    assume "tk_type u = HSH_TOK_NONE"
    with e Suc.prems(5) show False by simp
  qed
  then have tok: "ps_sequence_id p \<noteq> bf_sequence_id b2"
    using exec_waits [OF h2 e] by (auto simp: token_none_def)
  note pre = exec_prefix [OF h1 h2 Suc.prems(3,4) e tok]
  have waits: "\<exists>us q1. token_calls (Suc n) 0 mx ps b1 = Inr (us, q1, b1\<lparr>bf_index := int (length xs)\<rparr>)
      \<and> list_all collected us \<and> ps_sequence_id q1 = bf_sequence_id b1 \<and> \<not> over_limit q1"
    if "hsh_parser_exec 0 ps b1 mx = Inr (token_none, q1, b1\<lparr>bf_index := int (length xs)\<rparr>)"
      "ps_sequence_id q1 = bf_sequence_id b1" "\<not> over_limit q1" for q1
    using that by (intro exI [of _ "[]"] exI [of _ q1]) (simp add: token_none_def)
  show ?case
  proof (cases "collected u")
    case True
    then have nd: "tk_type u \<noteq> HSH_TOK_HEADERS_DONE" by (simp add: collected_def)
    from Suc.prems(5) e True un obtain vs where vs: "token_calls n 0 mx p b2p = Inr (vs, q, b2q)" "ts @ [t] = u # vs"
      by (auto simp: bindr_Inr_iff)
    have "ts \<noteq> []" using vs(2) True Suc.prems(7) by (auto simp: collected_def)
    then obtain ts' where ts': "ts = u # ts'" "vs = ts' @ [t]" using vs(2) by (cases ts) auto
    from pre(2) nd consider (tok) j where "b2p = b2\<lparr>bf_index := j\<rparr>" "hsh_parser_exec 0 ps b1 mx = Inr (u, p, b1\<lparr>bf_index := j\<rparr>)"
      | (none) q1 where "hsh_parser_exec 0 ps b1 mx = Inr (token_none, q1, b1\<lparr>bf_index := int (length xs)\<rparr>)"
          "ps_sequence_id q1 = bf_sequence_id b1" "\<not> over_limit q1" by blast
    then show ?thesis
    proof cases
      case none
      then show ?thesis by (rule waits)
    next
      case tok
      note c1 = exec_collected [OF h1 tok(2) True] and c2 = exec_collected [OF h2 e True]
      from Suc.IH [OF c1(1) c2(1) _ pre(1) vs(1) [unfolded ts'(2)] _ Suc.prems(7,8)] tok Suc.prems(6) ts'(1)
      obtain us q1 where "token_calls n 0 mx p (b1\<lparr>bf_index := j\<rparr>) = Inr (us, q1, b1\<lparr>bf_index := int (length xs)\<rparr>)"
        "list_all collected us" "ps_sequence_id q1 = bf_sequence_id b1" "\<not> over_limit q1" by auto
      with tok(2) True un show ?thesis by (intro exI [of _ "u # us"] exI [of _ q1]) simp
    qed
  next
    case False
    with e Suc.prems(5) un have "b2p = b2q" by auto
    with pre(2) Suc.prems(8) obtain q1 where "hsh_parser_exec 0 ps b1 mx = Inr (token_none, q1, b1\<lparr>bf_index := int (length xs)\<rparr>)"
      "ps_sequence_id q1 = bf_sequence_id b1" "\<not> over_limit q1" by fastforce
    then show ?thesis by (rule waits)
  qed
qed simp

end
