(* ===== verification/Delivery.thy ===== *)
theory Delivery
  imports Parse_Prefix Write_Props Server_Invariants
begin

text \<open>
  From the socket to the user: a request head that arrives in any pieces, over any number of events,
  is handed to the user's callback once it is complete, with its parts as the tokens of the request.
\<close>

section \<open>The parse loop collects the tokens of the calls\<close>

text \<open>The token array with its contents, grown by doubling from the initial 32.\<close>

definition tokens_hold :: "hs_token_array_s \<Rightarrow> hsh_token_s list \<Rightarrow> bool" where
  "tokens_hold arr ts \<longleftrightarrow> array_holds arr ts \<and> ta_capacity arr \<le> max 32 (2 * int (length ts))"

lemma tokens_hold_push:
  assumes "tokens_hold arr ts" and "length ts < 268435456"
  shows "\<exists>arr'. hs_token_array_push arr t = Inr arr' \<and> tokens_hold arr' (ts @ [t])"
proof -
  have "array_holds arr ts" "ta_capacity arr < 1073741824" using assms by (auto simp: tokens_hold_def)
  from array_push [OF this, of t] assms(1) show ?thesis by (auto simp: tokens_hold_def)
qed

lemma push_token_holds:
  assumes "deref r w = Inr rq" and "tokens_hold (rq_tokens rq) ts" and "length ts < 268435456"
  shows "\<exists>arr. push_token r t w = Inr (assign r (rq\<lparr>rq_tokens := arr\<rparr>) w) \<and> tokens_hold arr (ts @ [t])"
  using tokens_hold_push [OF assms(2,3), of t] assms(1) by (auto simp: push_token_def)

lemma handle_collected:
  "collected t \<Longrightarrow> handle_token call r t w = bindr (push_token r t w) (\<lambda>w. Inr (None, w))"
  by (cases "tk_type t") (simp_all add: handle_token_def collected_def)

lemma handle_none: "tk_type t = HSH_TOK_NONE \<Longrightarrow> handle_token call r t w = Inr (Some HS_READ_RC_SUCCESS, w)"
  by (simp add: handle_token_def)

lemma w_shift_assign [simp]: "w_shift (assign r rq w) = w_shift w" "w_server (assign r rq w) = w_server w"
  by (simp_all add: assign_def)

lemma assign_twice [simp]: "assign r rq' (assign r rq w) = assign r rq' w"
  by (simp add: assign_def)

definition last_token :: "hsh_token_s list \<Rightarrow> hsh_token_s" where
  "last_token os = (case os of [] \<Rightarrow> token_none | t # _ \<Rightarrow> t)"

lemma parse_loop_tokens:
  assumes "deref r w = Inr rq" and "tokens_hold (rq_tokens rq) us" and "length us + n < 268435456"
    and "token_calls n (w_shift w) mx (rq_parser rq) (rq_buffer rq) = Inr (cs @ os, ps, bf)"
    and "list_all collected cs" and "os = [] \<or> (\<exists>t. os = [t] \<and> \<not> collected t)"
  shows "\<exists>arr k. tokens_hold arr (us @ cs) \<and> k + length cs + 1 = n \<and> parse_loop n call r mx w =
    bindr (handle_token call r (last_token os)
        (assign r (rq\<lparr>rq_parser := ps, rq_buffer := bf, rq_tokens := arr\<rparr>) w))
      (\<lambda>(rc, w). case rc of Some rc \<Rightarrow> Inr (rc, w) | None \<Rightarrow> parse_loop k call r mx w)"
  using assms(1-5)
proof (induction n arbitrary: w rq us cs)
  case (Suc n)
  from Suc.prems(4) obtain t q b where e: "hsh_parser_exec (w_shift w) (rq_parser rq) (rq_buffer rq) mx = Inr (t, q, b)"
    by (auto simp: bindr_Inr_iff)
  let ?rq = "rq\<lparr>rq_parser := q, rq_buffer := b\<rparr>"
  have tok: "parse_token mx r w = Inr (t, assign r ?rq w)" using Suc.prems(1) e by (simp add: parse_token_def)
  show ?case
  proof (cases "collected t")
    case True
    then have "tk_type t \<noteq> HSH_TOK_NONE" by (simp add: collected_def)
    with True e Suc.prems(4) obtain vs where
      vs: "token_calls n (w_shift w) mx q b = Inr (vs, ps, bf)" "cs @ os = t # vs" by (auto simp: bindr_Inr_iff)
    have "cs \<noteq> []" using vs(2) True assms(6) by auto
    then obtain cs' where cs: "cs = t # cs'" "vs = cs' @ os" using vs(2) by (cases cs) auto
    have us: "length us < 268435456" using Suc.prems(3) by simp
    have th: "tokens_hold (rq_tokens ?rq) us" using Suc.prems(2) by simp
    from push_token_holds [where t = t, OF deref_assign [of r ?rq w] th us] obtain arr where
      arr: "push_token r t (assign r ?rq w) = Inr (assign r (?rq\<lparr>rq_tokens := arr\<rparr>) w)" "tokens_hold arr (us @ [t])"
      by auto
    let ?w = "assign r (?rq\<lparr>rq_tokens := arr\<rparr>) w"
    from Suc.IH [of ?w "?rq\<lparr>rq_tokens := arr\<rparr>" "us @ [t]" cs'] arr(2) Suc.prems(3,5) vs(1) cs obtain arr' k where
      "tokens_hold arr' ((us @ [t]) @ cs')" "k + length cs' + 1 = n"
      "parse_loop n call r mx ?w = bindr (handle_token call r (last_token os)
          (assign r ((?rq\<lparr>rq_tokens := arr\<rparr>)\<lparr>rq_parser := ps, rq_buffer := bf, rq_tokens := arr'\<rparr>) ?w))
        (\<lambda>(rc, w). case rc of Some rc \<Rightarrow> Inr (rc, w) | None \<Rightarrow> parse_loop k call r mx w)" by auto
    with tok arr(1) True cs(1) show ?thesis
      by (intro exI [of _ arr'] exI [of _ k]) (simp add: handle_collected)
  next
    case False
    have "cs = [] \<and> ps = q \<and> bf = b \<and> (if tk_type t = HSH_TOK_NONE then os = [] else os = [t])"
      using Suc.prems(4,5) e False by (cases cs) (auto split: if_splits)
    then have r: "cs = []" "ps = q" "bf = b" "if tk_type t = HSH_TOK_NONE then os = [] else os = [t]" by auto
    have "handle_token call r t v = handle_token call r (last_token os) v" for v
      using r(4) by (auto simp: last_token_def handle_none token_none_def split: if_splits)
    with tok r Suc.prems(2) show ?thesis
      by (intro exI [of _ "rq_tokens rq"] exI [of _ n]) simp
  qed
qed simp

section \<open>One piece is read\<close>

lemma set_memused_same [simp]: "set_memused (w_memused w) w = w"
  by (simp add: set_memused_def w_memused_def)

text \<open>The bytes of one event: a socket that delivers \<open>p\<close> and then has nothing for the moment.\<close>

lemma buffer_holds_fields:
  "buffer_holds (bf\<lparr>bf_sequence_id := s\<rparr>) xs = buffer_holds bf xs"
  by (simp add: buffer_holds_def split: option.split)

definition read_once :: "hsh_buffer_s \<Rightarrow> char block option \<Rightarrow> int \<Rightarrow> hsh_buffer_s" where
  "read_once bf m n = bf\<lparr>bf_buf := m, bf_length := n, bf_sequence_id := i8 (bf_sequence_id bf + 1)\<rparr>"

text \<open>What a socket has to offer when bytes have arrived, or when it was called for nothing.\<close>

definition arrives :: "string \<Rightarrow> read_event list" where
  "arrives p = (if p = [] then [] else [R_Data p]) @ [R_Fail EAGAIN]"

abbreviation reads_done :: "int \<Rightarrow> read_event list \<Rightarrow> world \<Rightarrow> world" where
  "reads_done fd evs w \<equiv> w\<lparr>w_errno := EAGAIN, w_reads := (w_reads w)(fd := evs)\<rparr>"

lemma read_loop_piece:
  assumes b: "buffer_holds bf xs" and p: "p \<noteq> []" "int (length (xs @ p)) < bf_capacity bf"
    and mx: "bf_capacity bf < mx" "mx < 2147483648"
    and r: "w_reads w fd = R_Data p # evs"
  shows "\<exists>m. let b1 = bf\<lparr>bf_buf := m, bf_length := int (length (xs @ p))\<rparr>
    in hs_read_loop bf fd mx w = hs_read_loop b1 fd mx (w\<lparr>w_reads := (w_reads w)(fd := evs)\<rparr>) \<and> buffer_holds b1 (xs @ p)"
  using b
proof (rule buffer_holdsE)
  fix c
  assume c: "bf_buf bf = Some c" "int (length c) = bf_capacity bf" "holds (Some c) xs" "bf_length bf = int (length xs)"
    "0 < bf_capacity bf" "length xs \<le> length c"
  let ?m = "Some (take (length xs) c @ map Some p @ drop (length xs + length p) c)"
  let ?n = "bf_capacity bf - bf_length bf"
  have n: "size_t ?n = ?n" "?n \<noteq> 0" "int (length p) < ?n" using c p mx by (auto intro!: size_t_id)
  have len: "length p + length xs \<le> length c" using c p by simp
  have st: "store (Some c) (int (length xs)) (map Some p) = Inr ?m" using len by (simp add: store_def)
  let ?w1 = "w\<lparr>w_reads := (w_reads w)(fd := evs)\<rparr>"
  define b1 where "b1 = bf\<lparr>bf_buf := ?m, bf_length := int (length (xs @ p))\<rparr>"
  have b1: "bf_length b1 = int (length (xs @ p))" "bf_capacity b1 = bf_capacity bf" by (simp_all add: b1_def)
  have rd: "os_read fd (bf_buf bf) (bf_length bf) ?n w = Inr (int (length p), ?m, ?w1)"
    using n r c st by (simp add: os_read_def Let_def min_def)
  have "i32 (int (length xs) + int (length p)) = int (length xs) + int (length p)" using c p mx by (intro i32_id) auto
  then have upd: "bf\<lparr>bf_buf := ?m, bf_length := i32 (bf_length bf + int (length p))\<rparr> = b1"
    using c(4) by (simp add: b1_def)
  have g: "hs_buffer_grow b1 k mx = (b1, k)" for k using p(2) b1 by (simp add: hs_buffer_grow_def)
  have "hs_read_loop bf fd mx w = hs_read_loop b1 fd mx ?w1"
    by (subst hs_read_loop.simps) (simp only: rd sum.case prod.case, use p mx b1(2) g upd in simp)
  moreover have "holds ?m (xs @ p)" using holds_store_append [OF c(3), of p] st by simp
  then have "buffer_holds b1 (xs @ p)" using c len by (auto simp: buffer_holds_def b1_def)
  ultimately show ?thesis by (intro exI [of _ ?m]) (simp add: b1_def)
qed

lemma read_loop_nothing:
  assumes "buffer_holds bf xs" and "int (length xs) < bf_capacity bf" and "w_reads w fd = R_Fail EAGAIN # evs"
  shows "hs_read_loop bf fd mx w = Inr (- 1, bf, reads_done fd evs w)"
proof -
  have len: "bf_length bf = int (length xs)" using assms(1) by (auto elim: buffer_holdsE)
  have "os_read fd (bf_buf bf) (bf_length bf) (bf_capacity bf - bf_length bf) w = Inr (- 1, bf_buf bf, reads_done fd evs w)"
    using assms(2,3) len by (simp add: os_read_def)
  then show ?thesis using assms(2) len
    by (subst hs_read_loop.simps) (simp, simp add: hs_buffer_grow_def)
qed

lemma read_once_holds:
  "buffer_holds (bf\<lparr>bf_buf := m, bf_length := n\<rparr>) xs \<Longrightarrow> buffer_holds (read_once bf m n) xs"
  unfolding read_once_def by (auto simp: buffer_holds_def split: option.splits)

lemma read_piece:
  assumes b: "buffer_holds bf xs" and p: "int (length (xs @ p)) < bf_capacity bf"
    and mx: "bf_capacity bf < mx" "mx < 2147483648"
    and r: "w_reads w fd = arrives p @ evs"
  shows "\<exists>m. hs_read_into_buffer bf fd mx w = Inr (- 1, read_once bf m (int (length (xs @ p))), reads_done fd evs w)
    \<and> buffer_holds (read_once bf m (int (length (xs @ p)))) (xs @ p)"
proof (cases "p = []")
  case True
  with b p r have "hs_read_loop bf fd mx w = Inr (- 1, bf, reads_done fd evs w)"
    by (intro read_loop_nothing [of _ xs]) (simp_all add: arrives_def)
  moreover have "bf = bf\<lparr>bf_buf := bf_buf bf, bf_length := int (length xs)\<rparr>" using b by (auto elim: buffer_holdsE)
  ultimately show ?thesis using True b
    by (intro exI [of _ "bf_buf bf"]) (auto simp: hs_read_into_buffer_def read_once_def buffer_holds_def split: option.splits)
next
  case False
  with r have "w_reads w fd = R_Data p # R_Fail EAGAIN # evs" by (simp add: arrives_def)
  from read_loop_piece [OF b False p mx this] obtain m where
    m: "hs_read_loop bf fd mx w = hs_read_loop (bf\<lparr>bf_buf := m, bf_length := int (length (xs @ p))\<rparr>) fd mx
          (w\<lparr>w_reads := (w_reads w)(fd := R_Fail EAGAIN # evs)\<rparr>)"
    "buffer_holds (bf\<lparr>bf_buf := m, bf_length := int (length (xs @ p))\<rparr>) (xs @ p)"
    by (auto simp: Let_def)
  have "int (length (xs @ p)) < bf_capacity (bf\<lparr>bf_buf := m, bf_length := int (length (xs @ p))\<rparr>)" using p by simp
  from read_loop_nothing [OF m(2) this, of "w\<lparr>w_reads := (w_reads w)(fd := R_Fail EAGAIN # evs)\<rparr>" fd evs mx] m read_once_holds [OF m(2)]
  show ?thesis by (intro exI [of _ m]) (simp add: hs_read_into_buffer_def read_once_def)
qed

text \<open>A closed connection is noticed in the same loop that takes the last bytes.\<close>

lemma read_piece_eof:
  assumes b: "buffer_holds bf xs" and p: "p \<noteq> []" "int (length (xs @ p)) < bf_capacity bf"
    and mx: "bf_capacity bf < mx" "mx < 2147483648"
    and r: "w_reads w fd = R_Data p # R_Eof # evs"
  shows "\<exists>m. hs_read_into_buffer bf fd mx w
    = Inr (0, read_once bf m (int (length (xs @ p))), w\<lparr>w_reads := (w_reads w)(fd := R_Eof # evs)\<rparr>)"
proof -
  from read_loop_piece [OF b p mx r] obtain m where
    m: "hs_read_loop bf fd mx w = hs_read_loop (bf\<lparr>bf_buf := m, bf_length := int (length (xs @ p))\<rparr>) fd mx
          (w\<lparr>w_reads := (w_reads w)(fd := R_Eof # evs)\<rparr>)"
    by (auto simp: Let_def)
  have "hs_read_loop (bf\<lparr>bf_buf := m, bf_length := int (length (xs @ p))\<rparr>) fd mx v
      = Inr (0, bf\<lparr>bf_buf := m, bf_length := int (length (xs @ p))\<rparr>, v)" if "w_reads v fd = R_Eof # evs" for v
    using that p(2) by (subst hs_read_loop.simps) (simp add: os_read_def hs_buffer_grow_def set_memused_def w_memused_def)
  with m show ?thesis by (intro exI [of _ m]) (simp add: hs_read_into_buffer_def read_once_def)
qed

section \<open>What has been received, parsed in one go\<close>

text \<open>
  A parser that has seen no buffer: \<open>unseen\<close> is no value of the 8-bit sequence numbers, so the
  definitions below do not depend on how many reads there were.
\<close>

definition unseen :: int where "unseen = 1000"

definition fresh_parser :: hsh_parser_s where
  "fresh_parser = hsh_parser_init\<lparr>ps_sequence_id := unseen\<rparr>"

abbreviation max_buf :: int where "max_buf \<equiv> i32 HTTP_MAX_REQUEST_BUF_SIZE"

lemma max_buf: "max_buf = 8388608"
  by (simp add: HTTP_MAX_REQUEST_BUF_SIZE_def i32_id)

text \<open>
  The state of a connection while a head comes in, as a function of the bytes received: the buffer
  holds them, and parser and tokens are what one parse of all of them gives.
\<close>

definition collecting :: "hsh_token_s list \<Rightarrow> http_request_s \<Rightarrow> string \<Rightarrow> hsh_token_s list \<Rightarrow> bool" where
  "collecting old rq xs ts \<longleftrightarrow>
     (let bf = rq_buffer rq; ps = rq_parser rq in
        buffer_holds bf xs \<and> bf_capacity bf = HTTP_REQUEST_BUF_SIZE \<and> length xs < 1024
        \<and> bf_index bf = int (length xs) \<and> - 128 \<le> bf_sequence_id bf \<and> bf_sequence_id bf < 128
        \<and> tokens_hold (rq_tokens rq) (old @ ts) \<and> length old < 100000000 \<and> list_all collected ts
        \<and> (\<exists>n\<le>4096. token_calls n 0 max_buf fresh_parser (bf\<lparr>bf_index := 0\<rparr>) = Inr (ts, ps, bf))
        \<and> ps_sequence_id ps = bf_sequence_id bf \<and> \<not> over_limit ps)"

lemma buffer_holds_received:
  "buffer_holds bf xs \<Longrightarrow> length xs < 2147483648 \<Longrightarrow> received bf xs \<and> bf_buf bf \<noteq> None"
  by (auto simp: received_def elim!: buffer_holdsE)

lemma fresh_in_head:
  assumes "buffer_holds bf xs" and "length xs < 1024" and "bf_index bf = 0" and "bf_sequence_id bf < 128"
  shows "in_head fresh_parser bf xs" and "\<not> over_limit fresh_parser"
  using assms buffer_holds_received [of bf xs]
  by (auto simp: in_head_def fresh_parser_def hsh_parser_init_def parser_zero_def hsh_http_start_def head_state_def
      ready_def finished_def flag_ops unseen_def over_limit_def)

lemma buffer_holds_index [simp]: "buffer_holds (bf\<lparr>bf_index := i\<rparr>) xs = buffer_holds bf xs"
  by (simp add: buffer_holds_def split: option.split)

lemma i8_next: "i8 (n + 1) \<noteq> n" "- 128 \<le> i8 n" "i8 n < 128"
proof -
  show b: "- 128 \<le> i8 n" "i8 n < 128" for n
    using signed_take_bit_int_greater_eq_minus_exp [of 7 n] signed_take_bit_int_less_exp [of 7 n]
    by (simp_all add: i8_def)
  show "i8 (n + 1) \<noteq> n"
  proof
    assume e: "i8 (n + 1) = n"
    show False
    proof (cases "n = 127")
      case True
      with e show False by (simp add: i8_def signed_take_bit_eq_if_positive)
    next
      case False
      with e b [of "n + 1"] have "i8 (n + 1) = n + 1" by (intro i8_id) auto
      with e show False by simp
    qed
  qed
qed

text \<open>Going on after a read gives what one parse of all the bytes gives.\<close>

lemma collecting_step:
  assumes c: "collecting old rq xs ts" and b: "buffer_holds bf (xs @ p)" "length (xs @ p) < 1024"
    and bf: "bf_index bf = int (length xs)" "bf_sequence_id bf = i8 (bf_sequence_id (rq_buffer rq) + 1)"
    and one: "token_calls n 0 max_buf fresh_parser (bf\<lparr>bf_index := 0\<rparr>) = Inr (vs, q, b')"
  shows "\<exists>us ps s. vs = ts @ us \<and> q = ps\<lparr>ps_sequence_id := s\<rparr>
    \<and> (s = bf_sequence_id bf \<longleftrightarrow> ps_sequence_id ps = bf_sequence_id bf)
    \<and> token_calls (parse_fuel bf) 0 max_buf (rq_parser rq) bf = Inr (us, ps, b') \<and> in_head (rq_parser rq) bf (xs @ p)"
proof -
  let ?bf = "rq_buffer rq" and ?ps = "rq_parser rq"
  note col = c [unfolded collecting_def Let_def]
  from col obtain k where k: "token_calls k 0 max_buf fresh_parser (?bf\<lparr>bf_index := 0\<rparr>) = Inr (ts, ?ps, ?bf)" by blast
  have h1: "in_head fresh_parser (?bf\<lparr>bf_index := 0\<rparr>) xs" using col by (intro fresh_in_head) auto
  have h2: "in_head fresh_parser (bf\<lparr>bf_index := 0\<rparr>) (xs @ p)" using b bf(2) i8_next(3) by (intro fresh_in_head) auto
  have seq: "bf_sequence_id (bf\<lparr>bf_index := 0\<rparr>) \<noteq> bf_sequence_id (?bf\<lparr>bf_index := 0\<rparr>)" using bf(2) i8_next(1) by simp
  have w: "ps_sequence_id ?ps = bf_sequence_id (?bf\<lparr>bf_index := 0\<rparr>)" "ps_state ?ps = 0 \<or> \<not> over_limit ?ps"
    using col by auto
  from token_calls_split [OF h1 h2 _ k w seq] obtain j where
    j: "?bf = (?bf\<lparr>bf_index := 0\<rparr>)\<lparr>bf_index := j\<rparr>" "in_head ?ps ((bf\<lparr>bf_index := 0\<rparr>)\<lparr>bf_index := j\<rparr>) (xs @ p)"
    and sp: "\<And>m us ps2 b. token_calls m 0 max_buf ?ps ((bf\<lparr>bf_index := 0\<rparr>)\<lparr>bf_index := j\<rparr>) = Inr (us, ps2, b) \<Longrightarrow>
      \<exists>s. token_calls (k + m) 0 max_buf fresh_parser (bf\<lparr>bf_index := 0\<rparr>) = Inr (ts @ us, ps2\<lparr>ps_sequence_id := s\<rparr>, b)
        \<and> (s = bf_sequence_id bf \<longleftrightarrow> ps_sequence_id ps2 = bf_sequence_id bf)"
    by auto
  have "j = int (length xs)" using j(1) col by (metis hsh_buffer_s.select_convs(4) hsh_buffer_s.surjective hsh_buffer_s.update_convs(4))
  then have bj: "(bf\<lparr>bf_index := 0\<rparr>)\<lparr>bf_index := j\<rparr> = bf" using bf(1) by (cases bf) simp
  from j(2) bj have ih: "in_head ?ps bf (xs @ p)" by simp
  moreover have "need ?ps bf \<le> parse_fuel bf" by (simp add: need_def parse_fuel_def)
  ultimately obtain us ps b2 where
    u: "token_calls (parse_fuel bf) 0 max_buf ?ps bf = Inr (us, ps, b2)"
    using token_calls_return by blast
  from sp [unfolded bj, OF u] obtain s where
    s: "token_calls (k + parse_fuel bf) 0 max_buf fresh_parser (bf\<lparr>bf_index := 0\<rparr>) = Inr (ts @ us, ps\<lparr>ps_sequence_id := s\<rparr>, b2)"
      "s = bf_sequence_id bf \<longleftrightarrow> ps_sequence_id ps = bf_sequence_id bf" by blast
  from token_calls_more [OF s(1), of "k + parse_fuel bf + n"] token_calls_more [OF one, of "k + parse_fuel bf + n"]
  have "vs = ts @ us" "q = ps\<lparr>ps_sequence_id := s\<rparr>" "b' = b2" by auto
  with u s(2) ih show ?thesis by blast
qed

section \<open>Well-formed heads\<close>

lemma parse_tokens_calls:
  "parse_tokens k mv mx ps bf = Inr (ts @ [t], q, b) \<Longrightarrow> list_all collected ts \<Longrightarrow>
     \<not> collected t \<Longrightarrow> tk_type t \<noteq> HSH_TOK_NONE \<Longrightarrow> token_calls k mv mx ps bf = Inr (ts @ [t], q, b)"
proof (induction k arbitrary: ps bf ts)
  case (Suc k)
  from Suc.prems(1) obtain u p c vs where e: "hsh_parser_exec mv ps bf mx = Inr (u, p, c)"
    "parse_tokens k mv mx p c = Inr (vs, q, b)" "ts @ [t] = u # vs" by (auto simp: bindr_Inr_iff)
  show ?case
  proof (cases ts)
    case Nil
    have "length vs = k" using e(2) by (induction k arbitrary: p c vs) (auto simp: bindr_Inr_iff)
    with Nil e Suc.prems(3,4) show ?thesis by auto
  next
    case (Cons v ts')
    then have v: "v = u" "vs = ts' @ [t]" "collected u" using e(3) Suc.prems(2) by auto
    from Suc.IH [OF e(2) [unfolded v(2)]] Suc.prems Cons v e(1) show ?thesis by (auto simp: collected_def)
  qed
qed simp

lemma head_calls:
  fixes h rest
  defines "cl \<equiv> announced_length (hd_headers h) 0" and "ch \<equiv> announced_chunked (hd_headers h) False"
    and "i \<equiv> int (length (render_head h))"
  assumes h: "head_ok h" and r: "received bf (render_head h @ rest)" "bf_index bf = 0" "bf_sequence_id bf < 128"
    and cl: "0 \<le> cl" "cl < 9223372036854775808" and len: "i < 2147483600"
  shows "\<exists>ts ps. token_calls (4 + 2 * length (hd_headers h)) 0 max_buf fresh_parser bf
      = Inr (ts @ [headers_done (head_flags max_buf i cl ch)], ps, head_buffer max_buf i cl ch bf)
    \<and> list_all collected ts
    \<and> map (slice (render_head h @ rest)) ts @ [(HSH_TOK_HEADERS_DONE, [])] = head_parts h
    \<and> list_all (in_text (render_head h @ rest)) ts
    \<and> ps_state ps = gcode (body_pos max_buf i cl ch) \<and> ps_content_length ps = cl \<and> ps_content_remaining ps = cl
    \<and> between bf cl ch (body_pos max_buf i cl ch) ps"
proof -
  have "bf_sequence_id bf \<noteq> unseen" using r(3) by (simp add: unseen_def)
  from parse_head_seq [OF h r(1,2) this, of max_buf] cl len obtain ts ps where
    t: "parse_tokens (4 + 2 * length (hd_headers h)) 0 max_buf fresh_parser bf
      = Inr (ts @ [headers_done (head_flags max_buf i cl ch)], ps, head_buffer max_buf i cl ch bf)"
    "map (slice (render_head h @ rest)) ts @ [(HSH_TOK_HEADERS_DONE, [])] = head_parts h"
    "list_all (in_text (render_head h @ rest)) ts"
    "ps_state ps = gcode (body_pos max_buf i cl ch)" "ps_content_length ps = cl" "ps_content_remaining ps = cl"
    "between bf cl ch (body_pos max_buf i cl ch) ps"
    unfolding cl_def ch_def i_def fresh_parser_def max_buf by auto
  have "list_all (\<lambda>(ty, s). ty \<in> {HSH_TOK_METHOD, HSH_TOK_TARGET, HSH_TOK_VERSION, HSH_TOK_HEADER_KEY, HSH_TOK_HEADER_VALUE})
      (butlast (head_parts h))"
    by (auto simp: head_parts_def header_parts_def butlast_append list_all_iff)
  then have "list_all (\<lambda>(ty, s). ty \<in> {HSH_TOK_METHOD, HSH_TOK_TARGET, HSH_TOK_VERSION, HSH_TOK_HEADER_KEY, HSH_TOK_HEADER_VALUE})
      (map (slice (render_head h @ rest)) ts)" unfolding t(2) [symmetric] by simp
  then have c: "list_all collected ts" by (auto simp: list_all_iff slice_def collected_def)
  have "\<not> collected (headers_done f)" "tk_type (headers_done f) \<noteq> HSH_TOK_NONE" for f
    by (simp_all add: headers_done_def collected_def)
  from parse_tokens_calls [OF t(1) c this] t c show ?thesis by blast
qed

section \<open>One read event\<close>

text \<open>
  The request when an event is handled: its state is set, and on the first event its buffer is
  allocated.
\<close>

definition opened :: "http_request_s \<Rightarrow> world \<Rightarrow> http_request_s \<times> world" where
  "opened rq w =
     (let rq = rq\<lparr>rq_state := HTTP_SESSION_READ, rq_timeout := HTTP_REQUEST_TIMEOUT\<rparr>
      in if bf_buf (rq_buffer rq) = None
         then (rq\<lparr>rq_buffer := fst (hs_buffer_init HTTP_REQUEST_BUF_SIZE 0), rq_parser := hsh_parser_init\<rparr>,
               set_memused (i64 (w_memused w + HTTP_REQUEST_BUF_SIZE)) w)
         else (rq, w))"

lemma opened_world:
  assumes "opened rq w = (rq1, w1)"
  shows "w_reads w1 = w_reads w" "w_build w1 = w_build w" "w_shift w1 = w_shift w"
    "sv_request_handler (w_server w1) = sv_request_handler (w_server w)"
    "rq_socket rq1 = rq_socket rq" "rq_handler rq1 = rq_handler rq" "rq_state rq1 = HTTP_SESSION_READ"
    "rq_timeout rq1 = HTTP_REQUEST_TIMEOUT"
    "rq_tokens rq1 = rq_tokens rq" "w_accepts w1 = w_accepts w"
  using assms by (auto simp: opened_def Let_def set_memused_def split: if_splits)

lemma opened_fresh:
  assumes "bf_buf (rq_buffer rq) = None" and "tokens_hold (rq_tokens rq) old" and "length old < 100000000"
  shows "collecting old (fst (opened rq w)) [] []"
proof -
  let ?bf = "fst (hs_buffer_init HTTP_REQUEST_BUF_SIZE 0)"
  have b: "buffer_holds ?bf []" by (rule buffer_init_holds) (simp add: HTTP_REQUEST_BUF_SIZE_def)
  have f: "bf_index ?bf = 0" "bf_sequence_id ?bf = 0" "bf_capacity ?bf = HTTP_REQUEST_BUF_SIZE"
    by (simp_all add: hs_buffer_init_def buffer_zero_def)
  have h: "in_head fresh_parser ?bf []" using b f by (intro fresh_in_head) auto
  have "fresh_parser\<lparr>ps_sequence_id := 0\<rparr> = hsh_parser_init"
    by (simp add: fresh_parser_def hsh_parser_init_def parser_zero_def)
  with exec_not_run [OF h, of 0 max_buf] f have one: "token_calls 1 0 max_buf fresh_parser ?bf = Inr ([], hsh_parser_init, ?bf)"
    by (simp add: token_none_def)
  have "?bf\<lparr>bf_index := 0\<rparr> = ?bf" using f(1) by (metis hsh_buffer_s.surjective hsh_buffer_s.update_convs(4) hsh_buffer_s.select_convs(4))
  with one have "\<exists>n\<le>4096. token_calls n 0 max_buf fresh_parser (?bf\<lparr>bf_index := 0\<rparr>) = Inr ([], hsh_parser_init, ?bf)"
    by (intro exI [of _ 1]) simp
  moreover have "ps_sequence_id hsh_parser_init = 0" "\<not> over_limit hsh_parser_init"
    by (simp_all add: hsh_parser_init_def parser_zero_def over_limit_def)
  ultimately show ?thesis using assms b f
    by (simp add: opened_def Let_def collecting_def hs_buffer_init_def set_memused_def)
qed

text \<open>All that is in the buffer has been parsed, and the buffer is the initial one.\<close>

definition drained :: "http_request_s \<Rightarrow> string \<Rightarrow> bool" where
  "drained rq xs \<longleftrightarrow> buffer_holds (rq_buffer rq) xs \<and> bf_capacity (rq_buffer rq) = HTTP_REQUEST_BUF_SIZE
     \<and> bf_index (rq_buffer rq) = int (length xs)"

lemma collecting_drained: "collecting old rq xs ts \<Longrightarrow> drained rq xs"
  by (simp add: collecting_def drained_def Let_def)

lemma read_request_piece:
  assumes d: "deref r w = Inr rq" and o: "opened rq w = (rq1, w1)" and c: "drained rq1 xs"
    and p: "length (xs @ p) < 1024" and rd: "w_reads w (rq_socket rq) = arrives p @ evs"
  shows "\<exists>bf. buffer_holds bf (xs @ p) \<and> bf_capacity bf = HTTP_REQUEST_BUF_SIZE \<and> bf_index bf = int (length xs)
    \<and> bf_sequence_id bf = i8 (bf_sequence_id (rq_buffer rq1) + 1)
    \<and> bf_after_headers_index bf = bf_after_headers_index (rq_buffer rq1)
    \<and> hs_read_request_and_exec_user_cb call r read_opts w
        = hs_parse_buffer_and_exec_user_cb call r max_buf
            (assign r (rq1\<lparr>rq_buffer := bf\<rparr>) (reads_done (rq_socket rq) evs w1))"
proof -
  let ?bf = "rq_buffer rq1"
  note col = c [unfolded drained_def]
  have cap: "bf_capacity ?bf = 1024" using col by (simp add: HTTP_REQUEST_BUF_SIZE_def)
  have rd1: "w_reads w1 (rq_socket rq1) = arrives p @ evs" using rd opened_world [OF o] by simp
  have "\<exists>m. hs_read_into_buffer ?bf (rq_socket rq1) HTTP_MAX_REQUEST_BUF_SIZE w1
      = Inr (- 1, read_once ?bf m (int (length (xs @ p))), reads_done (rq_socket rq1) evs w1)
    \<and> buffer_holds (read_once ?bf m (int (length (xs @ p)))) (xs @ p)"
    using col p cap by (intro read_piece [OF _ _ _ _ rd1]) (auto simp: HTTP_MAX_REQUEST_BUF_SIZE_def)
  then obtain m where m: "hs_read_into_buffer ?bf (rq_socket rq1) HTTP_MAX_REQUEST_BUF_SIZE w1
      = Inr (- 1, read_once ?bf m (int (length (xs @ p))), reads_done (rq_socket rq1) evs w1)"
    "buffer_holds (read_once ?bf m (int (length (xs @ p)))) (xs @ p)" by blast
  define bf where "bf = read_once ?bf m (int (length (xs @ p)))"
  have b: "buffer_holds bf (xs @ p)" using m(2) by (simp add: bf_def)
  have req: "hs_buffer_requires_read ?bf" using col by (auto simp: hs_buffer_requires_read_def elim: buffer_holdsE)
  let ?rq = "rq\<lparr>rq_state := HTTP_SESSION_READ, rq_timeout := HTTP_REQUEST_TIMEOUT\<rparr>"
  have st: "(if bf_buf (rq_buffer ?rq) = None
             then let (bf, memused) = hs_buffer_init (op_initial_request_buf_capacity read_opts) (w_memused w)
                  in (?rq\<lparr>rq_buffer := bf, rq_parser := hsh_parser_init\<rparr>, set_memused memused w)
             else (?rq, w)) = (rq1, w1)"
    using o by (auto simp: opened_def Let_def read_opts_def hs_buffer_init_def split: if_splits)
  have rest: "op_max_request_buf_capacity read_opts = HTTP_MAX_REQUEST_BUF_SIZE" "op_eof_rc read_opts = 0"
    by (simp_all add: read_opts_def)
  have "hs_read_request_and_exec_user_cb call r read_opts w
      = hs_parse_buffer_and_exec_user_cb call r max_buf
          (assign r (rq1\<lparr>rq_buffer := bf\<rparr>) (reads_done (rq_socket rq1) evs w1))"
    unfolding hs_read_request_and_exec_user_cb_def d bindr_simps Let_def [of "rq\<lparr>rq_state := _, rq_timeout := _\<rparr>"] st
    by (simp add: req m(1) rest bf_def)
  with b col show ?thesis using opened_world [OF o] by (intro exI [of _ bf]) (simp add: bf_def read_once_def)
qed

section \<open>What stays as it is\<close>

text \<open>
  Reading leaves alone what has been written and what is to be written, and keeps the books: the
  server's account without what the request's buffer takes is the same as before. The request's flags
  stay, or the flag for a streamed body has been added.
\<close>

definition unowned :: "ptr \<Rightarrow> world \<Rightarrow> int" where
  "unowned r w = w_memused w - (case w_heap w r of None \<Rightarrow> 0 | Some rq \<Rightarrow> owned_bytes (rq_buffer rq))"

definition same_flags :: "8 word \<Rightarrow> 8 word \<Rightarrow> bool" where
  "same_flags f g \<longleftrightarrow> g = f \<or> g = HTTP_FLAG_SET f HTTP_FLG_STREAMED"

definition undisturbed :: "ptr \<Rightarrow> world \<Rightarrow> world \<Rightarrow> bool" where
  "undisturbed r w w' \<longleftrightarrow> w_accepts w' = w_accepts w \<and> w_sent w' = w_sent w \<and> w_writes w' = w_writes w
     \<and> sv_date (w_server w') = sv_date (w_server w)
     \<and> (\<forall>rq. deref r w = Inr rq \<longrightarrow> (\<exists>rq'. deref r w' = Inr rq' \<and> same_flags (rq_flags rq) (rq_flags rq')))
     \<and> (0 \<le> unowned r w \<and> unowned r w < 1152921504606846976 \<longrightarrow> unowned r w' = unowned r w)"

lemma same_flags_trans: "same_flags f g \<Longrightarrow> same_flags g h \<Longrightarrow> same_flags f h"
  by (auto simp: same_flags_def flag_ops or.assoc)

lemma undisturbed_trans:
  assumes a: "undisturbed r w w1" and b: "undisturbed r w1 w2"
  shows "undisturbed r w w2"
proof -
  have "\<exists>rq2. deref r w2 = Inr rq2 \<and> same_flags (rq_flags rq) (rq_flags rq2)" if rq: "deref r w = Inr rq" for rq
  proof -
    from a rq obtain rq1 where 1: "deref r w1 = Inr rq1" "same_flags (rq_flags rq) (rq_flags rq1)" by (auto simp: undisturbed_def)
    with b obtain rq2 where "deref r w2 = Inr rq2" "same_flags (rq_flags rq1) (rq_flags rq2)" by (auto simp: undisturbed_def)
    with 1 show ?thesis using same_flags_trans by blast
  qed
  with a b show ?thesis by (simp add: undisturbed_def)
qed

lemma unowned_deref: "deref r w = Inr rq \<Longrightarrow> unowned r w = w_memused w - owned_bytes (rq_buffer rq)"
  by (simp add: unowned_def deref_Inr_iff)

lemma assign_undisturbed:
  assumes "deref r w = Inr rq" and "same_flags (rq_flags rq) (rq_flags rq')"
    and "owned_bytes (rq_buffer rq') = owned_bytes (rq_buffer rq)"
  shows "undisturbed r w (assign r rq' w)"
  using assms unowned_deref [OF assms(1)] unowned_deref [OF deref_assign [of r rq' w]]
  by (simp add: undisturbed_def assign_def deref_def w_memused_def)

lemma holds_owned: "buffer_holds bf xs \<Longrightarrow> owned_bytes bf = bf_capacity bf"
  by (auto simp: owned_bytes_def elim: buffer_holdsE)

lemma opened_undisturbed:
  assumes d: "deref r w = Inr rq" and o: "opened rq w = (rq1, w1)" and c: "drained rq1 xs"
    and b: "buffer_holds bf ys" "bf_capacity bf = HTTP_REQUEST_BUF_SIZE"
  shows "undisturbed r w (assign r (rq1\<lparr>rq_buffer := bf\<rparr>) (reads_done fd evs w1))"
proof -
  let ?w = "assign r (rq1\<lparr>rq_buffer := bf\<rparr>) (reads_done fd evs w1)"
  have own: "unowned r ?w = w_memused w1 - 1024"
    using unowned_deref [OF deref_assign] holds_owned [OF b(1)] b(2)
    by (simp add: HTTP_REQUEST_BUF_SIZE_def w_memused_def)
  have "unowned r ?w = unowned r w" if "0 \<le> unowned r w" "unowned r w < 1152921504606846976"
  proof (cases "bf_buf (rq_buffer rq) = None")
    case True
    then have u: "unowned r w = w_memused w" using unowned_deref [OF d] by (simp add: owned_bytes_def)
    have "w_memused w1 = i64 (w_memused w + 1024)" using o True by (auto simp: opened_def Let_def HTTP_REQUEST_BUF_SIZE_def)
    moreover have "i64 (w_memused w + 1024) = w_memused w + 1024" using that u by (intro i64_id) auto
    ultimately show ?thesis using own u by simp
  next
    case False
    then have "w1 = w" "rq_buffer rq1 = rq_buffer rq" using o by (auto simp: opened_def Let_def)
    moreover from this have "owned_bytes (rq_buffer rq) = 1024"
      using c False by (simp add: drained_def owned_bytes_def HTTP_REQUEST_BUF_SIZE_def)
    ultimately show ?thesis using own unowned_deref [OF d] by simp
  qed
  moreover have "rq_flags rq1 = rq_flags rq" "w_sent w1 = w_sent w" "w_writes w1 = w_writes w" "w_accepts w1 = w_accepts w"
    "sv_date (w_server w1) = sv_date (w_server w)" using o by (auto simp: opened_def Let_def set_memused_def split: if_splits)
  ultimately show ?thesis using d unfolding undisturbed_def
    by (simp add: same_flags_def) (simp add: assign_def)
qed

section \<open>What the parse loop makes of it\<close>

lemma token_calls_length: "token_calls n mv mx ps bf = Inr (ts, q, b) \<Longrightarrow> length ts \<le> n"
proof (induction n arbitrary: ps bf ts)
  case (Suc n)
  then show ?case by (fastforce simp: bindr_Inr_iff split: if_splits)
qed simp

lemma headers_length: "length (hd_headers h) \<le> length (render_head h)"
proof -
  have "length hs \<le> length (concat (map render_header hs))" for hs
    by (induction hs) (auto simp: render_header_def split: prod.splits)
  from this [of "hd_headers h"] show ?thesis by (simp add: render_head_def)
qed

text \<open>The whole head in a buffer of its own, to compare with.\<close>

definition sealed :: "string \<Rightarrow> hsh_buffer_s" where
  "sealed data = buffer_zero\<lparr>bf_buf := Some (map Some data), bf_capacity := int (length data), bf_length := int (length data)\<rparr>"

lemma sealed_holds: "data \<noteq> [] \<Longrightarrow> buffer_holds (sealed data) data" "bf_index (sealed data) = 0" "bf_sequence_id (sealed data) = 0"
  by (simp_all add: sealed_def buffer_zero_def buffer_holds_def holds_def)

lemma head_buffer_bf_index: "bf_index (head_buffer mx after cl ch bf) = after"
  by (simp add: head_buffer_def Let_def)

text \<open>A head that fits into the first buffer, whose announced length is one.\<close>

definition short_head :: "request_head \<Rightarrow> bool" where
  "short_head h \<longleftrightarrow> head_ok h \<and> length (render_head h) < 1024
     \<and> 0 \<le> announced_length (hd_headers h) 0 \<and> announced_length (hd_headers h) 0 < 9223372036854775808"

lemma collecting_waits:
  assumes h: "short_head h" and c: "collecting old rq xs ts" and b: "buffer_holds bf (xs @ p)" "bf_capacity bf = HTTP_REQUEST_BUF_SIZE"
    and bf: "bf_index bf = int (length xs)" "bf_sequence_id bf = i8 (bf_sequence_id (rq_buffer rq) + 1)"
    and d: "render_head h = (xs @ p) @ zs" "zs \<noteq> []"
    and r: "deref r w = Inr (rq\<lparr>rq_buffer := bf\<rparr>)" "w_shift w = 0"
  shows "\<exists>ps b arr us. hs_parse_buffer_and_exec_user_cb call r max_buf w
      = Inr (HS_READ_RC_SUCCESS, assign r (rq\<lparr>rq_parser := ps, rq_buffer := b, rq_tokens := arr\<rparr>) w)
    \<and> collecting old (rq\<lparr>rq_parser := ps, rq_buffer := b, rq_tokens := arr\<rparr>) (xs @ p) (ts @ us)"
proof -
  define data where data: "data = render_head h"
  have head: "head_ok h" and short: "length data < 1024"
    and cl: "0 \<le> announced_length (hd_headers h) 0" "announced_length (hd_headers h) 0 < 9223372036854775808"
    using h by (simp_all add: short_head_def data)
  have d: "data = (xs @ p) @ zs" "zs \<noteq> []" using d by (simp_all add: data)
  let ?N = "4 + 2 * length (hd_headers h)" and ?b = "bf\<lparr>bf_index := 0\<rparr>" and ?q = "bf\<lparr>bf_index := int (length (xs @ p))\<rparr>"
  note col = c [unfolded collecting_def Let_def]
  have len: "length (xs @ p) < 1024" "length (xs @ p) < length data" using d short by simp_all
  have ne: "data \<noteq> []" using d(2) d(1) by simp
  have N: "?N \<le> 4096" using headers_length [of h] data short by simp
  have seq: "bf_sequence_id bf < 128" "- 128 \<le> bf_sequence_id bf" using bf(2) i8_next by simp_all
  have h1: "in_head fresh_parser ?b (xs @ p)" using b(1) len(1) seq by (intro fresh_in_head) auto
  have h2: "in_head fresh_parser (sealed data) ((xs @ p) @ zs)"
    using sealed_holds(1) [OF ne] sealed_holds(2,3) short d(1) by (intro fresh_in_head) auto
  have lim: "\<not> over_limit fresh_parser" using fresh_in_head(2) [OF sealed_holds(1) [OF ne] short] sealed_holds(2,3) by simp
  have "received (sealed data) (render_head h @ [])"
    using buffer_holds_received [OF sealed_holds(1) [OF ne]] short data by simp
  from head_calls [OF head this sealed_holds(2)] sealed_holds(3) cl short data obtain vs q where
    v: "token_calls ?N 0 max_buf fresh_parser (sealed data)
      = Inr (vs @ [headers_done (head_flags max_buf (int (length data)) (announced_length (hd_headers h) 0) (announced_chunked (hd_headers h) False))], q,
         head_buffer max_buf (int (length data)) (announced_length (hd_headers h) 0) (announced_chunked (hd_headers h) False) (sealed data))"
    "list_all collected vs" by auto
  have "bf_index (sealed data) = bf_index ?b" using sealed_holds(2) by simp
  from token_calls_prefix [OF h1 h2 this lim v] len(2) obtain us q1 where
    u: "token_calls ?N 0 max_buf fresh_parser ?b = Inr (us, q1, ?b\<lparr>bf_index := int (length (xs @ p))\<rparr>)"
      "list_all collected us" "ps_sequence_id q1 = bf_sequence_id ?b" "\<not> over_limit q1"
    by (auto simp: headers_done_def head_buffer_bf_index)
  from collecting_step [OF c b(1) len(1) bf u(1)] obtain us2 ps s where
    s: "us = ts @ us2" "q1 = ps\<lparr>ps_sequence_id := s\<rparr>" "s = bf_sequence_id bf \<longleftrightarrow> ps_sequence_id ps = bf_sequence_id bf"
      "token_calls (parse_fuel bf) 0 max_buf (rq_parser rq) bf = Inr (us2, ps, ?q)" by auto
  have ps: "q1 = ps" using s(2,3) u(3) by simp
  have th: "tokens_hold (rq_tokens (rq\<lparr>rq_buffer := bf\<rparr>)) (old @ ts)" using col by simp
  have lt: "length ts \<le> 4096" using col token_calls_length by fastforce
  have pf: "length (old @ ts) + parse_fuel bf < 268435456"
    using col lt len(1) b(1) by (auto simp: parse_fuel_def bf(1) elim!: buffer_holdsE)
  have tc: "token_calls (parse_fuel bf) (w_shift w) max_buf (rq_parser (rq\<lparr>rq_buffer := bf\<rparr>)) (rq_buffer (rq\<lparr>rq_buffer := bf\<rparr>)) = Inr (us2 @ [], ps, ?q)"
    using s(4) r(2) by simp
  have "list_all collected us2" using u(2) s(1) by simp
  from parse_loop_tokens [where call = call, OF r(1) th pf tc this disjI1 [OF refl]] obtain arr k where
    l: "tokens_hold arr ((old @ ts) @ us2)" "parse_loop (parse_fuel bf) call r max_buf w
      = bindr (handle_token call r (last_token []) (assign r (rq\<lparr>rq_parser := ps, rq_buffer := ?q, rq_tokens := arr\<rparr>) w))
        (\<lambda>(rc, w). case rc of Some rc \<Rightarrow> Inr (rc, w) | None \<Rightarrow> parse_loop k call r max_buf w)" by auto
  have "handle_token call r (last_token []) v = Inr (Some HS_READ_RC_SUCCESS, v)" for v
    by (rule handle_none) (simp add: last_token_def token_none_def)
  with l(2) r(1) have "hs_parse_buffer_and_exec_user_cb call r max_buf w
      = Inr (HS_READ_RC_SUCCESS, assign r (rq\<lparr>rq_parser := ps, rq_buffer := ?q, rq_tokens := arr\<rparr>) w)"
    by (simp add: hs_parse_buffer_and_exec_user_cb_def)
  moreover have "collecting old (rq\<lparr>rq_parser := ps, rq_buffer := ?q, rq_tokens := arr\<rparr>) (xs @ p) (ts @ us2)"
    unfolding collecting_def Let_def
    using b len(1) seq l(1) u ps s(1) N col by (auto intro!: exI [of _ ?N])
  ultimately show ?thesis by blast
qed

definition bodiless :: "request_head \<Rightarrow> bool" where
  "bodiless h \<longleftrightarrow> announced_length (hd_headers h) 0 = 0 \<and> \<not> announced_chunked (hd_headers h) False"

text \<open>
  The request as the user's callback finds it: behind the tokens \<open>old\<close> that were in its array
  before there are those of the head, each with its part of it. The flag for a body that has to be
  read in pieces is set, although there is no body.
\<close>

definition delivered :: "hsh_token_s list \<Rightarrow> request_head \<Rightarrow> http_request_s \<Rightarrow> bool" where
  "delivered old h rq \<longleftrightarrow>
     (\<exists>tts. array_holds (rq_tokens rq) (old @ map fst tts)
       \<and> list_all (\<lambda>(t, s). token_text (bf_buf (rq_buffer rq)) t s) tts
       \<and> map (\<lambda>(t, s). (tk_type t, s)) tts = head_parts h)
     \<and> HTTP_FLAG_CHECK (rq_flags rq) HTTP_FLG_STREAMED"

lemma token_text_slice:
  assumes "holds m data" and "in_text data t"
  shows "token_text m t (snd (slice data t))"
proof -
  let ?i = "nat (tk_index t)" and ?n = "nat (tk_len t)"
  have d: "data = take ?i data @ take ?n (drop ?i data) @ drop (?i + ?n) data"
    by (metis append_take_drop_id drop_drop add.commute)
  have "length (take ?i data) = ?i" "length (take ?n (drop ?i data)) = ?n" using assms(2) by (auto simp: in_text_def)
  with points_to_holds [of m "take ?i data" "take ?n (drop ?i data)" "drop (?i + ?n) data"] assms d show ?thesis
    by (simp add: token_text_def slice_def in_text_def)
qed

lemma delivered_tokens:
  assumes "array_holds (rq_tokens rq) (old @ ts @ [headers_done fl])" and "holds (bf_buf (rq_buffer rq)) data"
    and "map (slice data) ts @ [(HSH_TOK_HEADERS_DONE, [])] = head_parts h" and "list_all (in_text data) ts"
    and "HTTP_FLAG_CHECK (rq_flags rq) HTTP_FLG_STREAMED"
  shows "delivered old h rq"
proof -
  let ?tts = "map (\<lambda>t. (t, snd (slice data t))) ts @ [(headers_done fl, [])]"
  have "array_holds (rq_tokens rq) (old @ map fst ?tts) \<and> list_all (\<lambda>(t, s). token_text (bf_buf (rq_buffer rq)) t s) ?tts"
    using assms(1,2,4) token_text_slice
    by (auto simp: list_all_iff comp_def token_text_def headers_done_def)
  moreover have "map (\<lambda>(t, s). (tk_type t, s)) ?tts = head_parts h"
    unfolding assms(3) [symmetric] by (simp add: slice_def headers_done_def)
  ultimately show ?thesis using assms(5) unfolding delivered_def by blast
qed

text \<open>Each token of the head leaves room for a further round of the loop.\<close>

lemma need_positive: "0 < need ps bf"
  by (simp add: need_def)

lemma token_calls_need:
  assumes "loop_ready ps bf" and "token_calls n mv mx ps bf = Inr (ts, q, b)" and "list_all (\<lambda>t. \<not> closing t) ts"
  shows "length ts < need ps bf"
  using assms
proof (induction n arbitrary: ps bf ts)
  case (Suc n)
  from Suc.prems(2) obtain t ps1 bf1 where e: "hsh_parser_exec mv ps bf mx = Inr (t, ps1, bf1)" by (auto simp: bindr_Inr_iff)
  have step: "closing t \<or> loop_ready ps1 bf1 \<and> need ps1 bf1 < need ps bf"
    using exec_head [OF Suc.prems(1), of mv mx] exec_body [OF Suc.prems(1), of mv mx] e
    by (cases "head_state (ps_state ps)") auto
  show ?case
  proof (cases "collected t")
    case True
    with Suc.prems(2) e obtain ts' where ts: "token_calls n mv mx ps1 bf1 = Inr (ts', q, b)" "ts = t # ts'"
      by (auto simp: collected_def bindr_Inr_iff)
    with step Suc.IH [OF _ ts(1)] Suc.prems(3) show ?thesis by auto
  next
    case False
    with Suc.prems(2,3) e step need_positive [of ps1 bf1] need_positive [of ps bf] show ?thesis by (auto split: if_splits)
  qed
qed simp

text \<open>The piece that completes the head: its tokens are there, and the token that ends the headers is handled.\<close>

lemma collecting_head_done:
  fixes h rest
  defines "cl \<equiv> announced_length (hd_headers h) 0" and "ch \<equiv> announced_chunked (hd_headers h) False"
    and "i \<equiv> int (length (render_head h))"
  assumes h: "short_head h" and c: "collecting old rq xs ts"
    and b: "buffer_holds bf (xs @ p)" "bf_capacity bf = HTTP_REQUEST_BUF_SIZE" "length (xs @ p) < 1024"
    and bf: "bf_index bf = int (length xs)" "bf_sequence_id bf = i8 (bf_sequence_id (rq_buffer rq) + 1)"
    and d: "xs @ p = render_head h @ rest"
    and r: "deref r w = Inr (rq\<lparr>rq_buffer := bf\<rparr>)" "w_shift w = 0"
  shows "\<exists>arr vs ps k. tokens_hold arr (old @ vs) \<and> length vs \<le> 4096
    \<and> map (slice (xs @ p)) vs @ [(HSH_TOK_HEADERS_DONE, [])] = head_parts h \<and> list_all (in_text (xs @ p)) vs
    \<and> between bf cl ch (body_pos max_buf i cl ch) ps
    \<and> hs_parse_buffer_and_exec_user_cb call r max_buf w
      = bindr (handle_token call r (headers_done (head_flags max_buf i cl ch))
          (assign r (rq\<lparr>rq_parser := ps, rq_buffer := head_buffer max_buf i cl ch bf, rq_tokens := arr\<rparr>) w))
        (\<lambda>(rc, w). case rc of Some rc \<Rightarrow> Inr (rc, w) | None \<Rightarrow> parse_loop (Suc k) call r max_buf w)"
proof -
  let ?N = "4 + 2 * length (hd_headers h)" and ?b = "bf\<lparr>bf_index := 0\<rparr>"
  let ?bf = "head_buffer max_buf i cl ch bf" and ?hd = "headers_done (head_flags max_buf i cl ch)"
  note col = c [unfolded collecting_def Let_def]
  have seq: "bf_sequence_id bf < 128" using bf(2) i8_next by simp
  have rc: "received ?b (render_head h @ rest)" using buffer_holds_received [of ?b "xs @ p"] b(1,3) d by simp
  have hb: "head_buffer max_buf i cl ch ?b = ?bf" by (simp add: head_buffer_def Let_def)
  have "i < 2147483600" using h by (simp add: i_def short_head_def)
  with head_calls [OF _ rc] h seq obtain vs q where
    v: "token_calls ?N 0 max_buf fresh_parser ?b = Inr (vs @ [?hd], q, ?bf)" "list_all collected vs"
    "map (slice (xs @ p)) vs @ [(HSH_TOK_HEADERS_DONE, [])] = head_parts h" "list_all (in_text (xs @ p)) vs"
    "between ?b cl ch (body_pos max_buf i cl ch) q"
    unfolding cl_def ch_def i_def hb [unfolded cl_def ch_def i_def, symmetric] d by (auto simp: short_head_def)
  from collecting_step [OF c b(1,3) bf v(1)] obtain us ps s where
    s: "vs @ [?hd] = ts @ us" "token_calls (parse_fuel bf) 0 max_buf (rq_parser rq) bf = Inr (us, ps, ?bf)"
      "in_head (rq_parser rq) bf (xs @ p)" "q = ps\<lparr>ps_sequence_id := s\<rparr>"
      "s = bf_sequence_id bf \<longleftrightarrow> ps_sequence_id ps = bf_sequence_id bf"
    by blast
  have nc: "\<not> collected (headers_done f)" for f by (simp add: headers_done_def collected_def)
  have "us \<noteq> []"
  proof
    assume "us = []"
    with s(1) col have "list_all collected (vs @ [?hd])" by simp
    with nc show False by simp
  qed
  then have us: "us = butlast us @ [?hd]" "vs = ts @ butlast us"
    using s(1) by (metis append_butlast_last_id last_appendR last_snoc, metis append_butlast_last_id butlast_append butlast_snoc)
  have lc: "list_all collected (butlast us)" using v(2) us(2) by simp
  have th: "tokens_hold (rq_tokens (rq\<lparr>rq_buffer := bf\<rparr>)) (old @ ts)" using col by simp
  have lt: "length ts \<le> 4096" using col token_calls_length by fastforce
  have pf: "length (old @ ts) + parse_fuel bf < 268435456"
    using col lt b(1,3) by (auto simp: parse_fuel_def bf(1) elim!: buffer_holdsE)
  have tc: "token_calls (parse_fuel bf) (w_shift w) max_buf (rq_parser (rq\<lparr>rq_buffer := bf\<rparr>)) (rq_buffer (rq\<lparr>rq_buffer := bf\<rparr>))
      = Inr (butlast us @ [?hd], ps, ?bf)"
    using s(2) r(2) us(1) by simp
  have "[?hd] = [] \<or> (\<exists>t. [?hd] = [t] \<and> \<not> collected t)" using nc by blast
  from parse_loop_tokens [where call = call, OF r(1) th pf tc lc this] obtain arr k where
    l: "tokens_hold arr (old @ vs)" "k + length (butlast us) + 1 = parse_fuel bf" "parse_loop (parse_fuel bf) call r max_buf w
      = bindr (handle_token call r ?hd (assign r (rq\<lparr>rq_parser := ps, rq_buffer := ?bf, rq_tokens := arr\<rparr>) w))
        (\<lambda>(rc, w). case rc of Some rc \<Rightarrow> Inr (rc, w) | None \<Rightarrow> parse_loop k call r max_buf w)"
    by (auto simp: us(2) last_token_def)
  have "collected t \<Longrightarrow> \<not> closing t" for t by (auto simp: collected_def closing_def)
  moreover have "\<not> closing ?hd" by (simp add: closing_def headers_done_def)
  ultimately have "list_all (\<lambda>t. \<not> closing t) (butlast us @ [?hd])" using lc by (auto simp: list_all_iff)
  then have "length us < need (rq_parser rq) bf"
    using token_calls_need [OF in_head_loop_ready [OF s(3)] s(2)] us(1) by metis
  moreover have "need (rq_parser rq) bf \<le> parse_fuel bf" by (simp add: need_def parse_fuel_def)
  moreover have "length us = Suc (length (butlast us))" using \<open>us \<noteq> []\<close> by simp
  ultimately have "0 < k" using l(2) by linarith
  then obtain k' where k: "k = Suc k'" by (cases k) simp_all
  have "hs_parse_buffer_and_exec_user_cb call r max_buf w
      = bindr (handle_token call r ?hd (assign r (rq\<lparr>rq_parser := ps, rq_buffer := ?bf, rq_tokens := arr\<rparr>) w))
        (\<lambda>(rc, w). case rc of Some rc \<Rightarrow> Inr (rc, w) | None \<Rightarrow> parse_loop (Suc k') call r max_buf w)"
    using l(3) r(1) unfolding k hs_parse_buffer_and_exec_user_cb_def by (simp del: parse_loop.simps)
  moreover have "between bf cl ch (body_pos max_buf i cl ch) ps" using v(5) s(4,5) by (auto simp: between_def)
  moreover have "length vs \<le> 4096"
    using token_calls_length [OF v(1)] headers_length [of h] h by (simp add: short_head_def)
  ultimately show ?thesis using l(1) v(3,4) by blast
qed

text \<open>Without a body, the handler of the server is called then, whatever bytes follow the head.\<close>

lemma collecting_completes:
  assumes h: "short_head h" "bodiless h" and c: "collecting old rq xs ts"
    and b: "buffer_holds bf (xs @ p)" "bf_capacity bf = HTTP_REQUEST_BUF_SIZE"
    and bf: "bf_index bf = int (length xs)" "bf_sequence_id bf = i8 (bf_sequence_id (rq_buffer rq) + 1)"
    and d: "xs @ p = render_head h @ rest" "length (xs @ p) < 1024"
    and r: "deref r w = Inr (rq\<lparr>rq_buffer := bf\<rparr>)" "w_shift w = 0"
  shows "\<exists>rq'. hs_parse_buffer_and_exec_user_cb call r max_buf w
      = bindr (call (sv_request_handler (w_server w)) r (assign r rq' w)) (\<lambda>w. Inr (HS_READ_RC_SUCCESS, w))
    \<and> delivered old h rq' \<and> rq_socket rq' = rq_socket rq \<and> rq_handler rq' = rq_handler rq
    \<and> rq_flags rq' = HTTP_FLAG_SET (rq_flags rq) HTTP_FLG_STREAMED \<and> owned_bytes (rq_buffer rq') = owned_bytes bf
    \<and> (\<exists>us. tokens_hold (rq_tokens rq') us \<and> length us \<le> length old + 4097)"
proof -
  let ?i = "int (length (render_head h))" and ?hd = "headers_done HSH_TOK_FLAG_NO_BODY"
  note col = c [unfolded collecting_def Let_def]
  let ?bf = "bf\<lparr>bf_after_headers_index := ?i, bf_index := ?i\<rparr>"
  have "head_buffer max_buf ?i 0 False bf = ?bf" "head_flags max_buf ?i 0 False = HSH_TOK_FLAG_NO_BODY"
    by (simp_all add: head_buffer_def head_flags_def)
  with collecting_head_done [where call = call, OF h(1) c b d(2) bf d(1) r] h(2) obtain arr vs ps k where
    l: "tokens_hold arr (old @ vs)" "length vs \<le> 4096" "map (slice (xs @ p)) vs @ [(HSH_TOK_HEADERS_DONE, [])] = head_parts h"
      "list_all (in_text (xs @ p)) vs" "hs_parse_buffer_and_exec_user_cb call r max_buf w
      = bindr (handle_token call r ?hd (assign r (rq\<lparr>rq_parser := ps, rq_buffer := ?bf, rq_tokens := arr\<rparr>) w))
        (\<lambda>(rc, w). case rc of Some rc \<Rightarrow> Inr (rc, w) | None \<Rightarrow> parse_loop (Suc k) call r max_buf w)"
    unfolding bodiless_def by auto
  let ?rq = "rq\<lparr>rq_parser := ps, rq_buffer := ?bf, rq_tokens := arr\<rparr>"
  have th2: "tokens_hold (rq_tokens ?rq) (old @ vs)" "length (old @ vs) < 268435456" using l(1,2) col by simp_all
  from push_token_holds [where t = ?hd, OF deref_assign [of r ?rq w] th2] obtain arr' where
    a: "push_token r ?hd (assign r ?rq w) = Inr (assign r (?rq\<lparr>rq_tokens := arr'\<rparr>) w)" "tokens_hold arr' ((old @ vs) @ [?hd])"
    by auto
  let ?rq' = "?rq\<lparr>rq_tokens := arr', rq_flags := HTTP_FLAG_SET (rq_flags rq) HTTP_FLG_STREAMED, rq_state := HTTP_SESSION_NOP\<rparr>"
  have "HTTP_FLAG_CHECK HSH_TOK_FLAG_NO_BODY HSH_TOK_FLAG_NO_BODY" by code_simp
  then have "handle_token call r ?hd (assign r ?rq w) = bindr (call (sv_request_handler (w_server w)) r (assign r ?rq' w))
      (\<lambda>w. Inr (Some HS_READ_RC_SUCCESS, w))"
    using a(1) by (simp add: handle_token_def headers_done_def modify_def exec_request_handler_def hs_exec_callback_def)
  then have "hs_parse_buffer_and_exec_user_cb call r max_buf w
      = bindr (call (sv_request_handler (w_server w)) r (assign r ?rq' w)) (\<lambda>w. Inr (HS_READ_RC_SUCCESS, w))"
    using l(5) by (simp add: bindr_assoc del: parse_loop.simps)
  moreover have hb: "holds (bf_buf bf) (xs @ p)" using b(1) by (auto elim: buffer_holdsE)
  have "(f OR 1) AND 1 \<noteq> (0 :: 8 word)" for f by (simp add: bit.conj_disj_distrib2)
  then have "HTTP_FLAG_CHECK (rq_flags ?rq') HTTP_FLG_STREAMED" by (simp add: flag_ops HTTP_FLG_STREAMED_def)
  with hb have "delivered old h ?rq'" using a(2) l(3,4) by (intro delivered_tokens [of _ _ vs]) (auto simp: tokens_hold_def)
  moreover have "tokens_hold (rq_tokens ?rq') ((old @ vs) @ [?hd])" "length ((old @ vs) @ [?hd]) \<le> length old + 4097"
    using a(2) l(2) by simp_all
  then have "\<exists>us. tokens_hold (rq_tokens ?rq') us \<and> length us \<le> length old + 4097" by blast
  moreover have "rq_socket ?rq' = rq_socket rq" "rq_handler ?rq' = rq_handler rq"
    "rq_flags ?rq' = HTTP_FLAG_SET (rq_flags rq) HTTP_FLG_STREAMED" "owned_bytes (rq_buffer ?rq') = owned_bytes bf"
    by (simp_all add: owned_bytes_def)
  ultimately show ?thesis by (intro exI [of _ ?rq'] conjI)
qed

section \<open>A connection that receives a head\<close>

definition receiving ::
    "hsh_token_s list \<Rightarrow> build \<Rightarrow> fnptr \<Rightarrow> ptr \<Rightarrow> int \<Rightarrow> string \<Rightarrow> read_event list \<Rightarrow> world \<Rightarrow> bool"
  where
  "receiving old b H r fd xs evs w \<longleftrightarrow>
     w_build w = b \<and> w_shift w = 0 \<and> sv_request_handler (w_server w) = H \<and> w_reads w fd = evs
     \<and> (\<exists>rq ts. deref r w = Inr rq \<and> rq_socket rq = fd \<and> rq_handler rq = client_handler b
          \<and> collecting old (fst (opened rq w)) xs ts)"

text \<open>A read event has just been handled, and the connection waits for the next one.\<close>

definition reading :: "ptr \<Rightarrow> world \<Rightarrow> bool" where
  "reading r w \<longleftrightarrow> (\<exists>rq. deref r w = Inr rq \<and> rq_state rq = HTTP_SESSION_READ \<and> rq_timeout rq = HTTP_REQUEST_TIMEOUT)"

text \<open>The user's code is called: the request is complete, and the socket has nothing more for the moment.\<close>

definition handed ::
    "hsh_token_s list \<Rightarrow> build \<Rightarrow> fnptr \<Rightarrow> ptr \<Rightarrow> int \<Rightarrow> request_head \<Rightarrow> http_request_s \<Rightarrow> world \<Rightarrow> bool"
  where
  "handed old b H r fd h rq w \<longleftrightarrow>
     deref r w = Inr rq \<and> delivered old h rq \<and> rq_socket rq = fd \<and> rq_handler rq = client_handler b
     \<and> owned_bytes (rq_buffer rq) = 1024 \<and> (\<exists>us. tokens_hold (rq_tokens rq) us \<and> length us \<le> length old + 4097)
     \<and> w_build w = b \<and> w_shift w = 0 \<and> sv_request_handler (w_server w) = H \<and> w_errno w = EAGAIN"

lemma collecting_same:
  "rq_buffer rq' = rq_buffer rq \<Longrightarrow> rq_parser rq' = rq_parser rq \<Longrightarrow> rq_tokens rq' = rq_tokens rq \<Longrightarrow>
     collecting old rq' xs ts = collecting old rq xs ts"
  by (simp add: collecting_def)

lemma opened_again: "collecting old rq xs ts \<Longrightarrow> collecting old (fst (opened rq w)) xs ts"
  by (auto simp: opened_def Let_def collecting_def buffer_holds_def split: option.splits)

lemma receiving_opened:
  assumes "receiving old b H r fd xs (arrives p @ evs) w" and "length (xs @ p) < 1024"
  shows "\<exists>rq1 w1 bf ts. collecting old rq1 xs ts \<and> buffer_holds bf (xs @ p) \<and> bf_capacity bf = HTTP_REQUEST_BUF_SIZE
    \<and> bf_index bf = int (length xs) \<and> bf_sequence_id bf = i8 (bf_sequence_id (rq_buffer rq1) + 1)
    \<and> w_build w1 = b \<and> undisturbed r w w1 \<and> w_errno w1 = EAGAIN \<and> w_shift w1 = 0 \<and> sv_request_handler (w_server w1) = H \<and> w_reads w1 fd = evs
    \<and> rq_socket rq1 = fd \<and> rq_handler rq1 = client_handler b \<and> rq_state rq1 = HTTP_SESSION_READ
    \<and> rq_timeout rq1 = HTTP_REQUEST_TIMEOUT
    \<and> deref r w1 = Inr (rq1\<lparr>rq_buffer := bf\<rparr>)
    \<and> hs_read_request_and_exec_user_cb call r read_opts w = hs_parse_buffer_and_exec_user_cb call r max_buf w1"
proof -
  from assms(1) obtain rq ts where r: "deref r w = Inr rq" "rq_socket rq = fd" "rq_handler rq = client_handler b"
    "collecting old (fst (opened rq w)) xs ts" "w_reads w (rq_socket rq) = arrives p @ evs"
    and w: "w_build w = b" "w_shift w = 0" "sv_request_handler (w_server w) = H"
    by (auto simp: receiving_def)
  obtain rq1 w1 where o: "opened rq w = (rq1, w1)" by fastforce
  with r(4) have c: "collecting old rq1 xs ts" by simp
  from read_request_piece [where call = call, OF r(1) o collecting_drained [OF c] assms(2) r(5)] obtain bf where
    "buffer_holds bf (xs @ p)" "bf_capacity bf = HTTP_REQUEST_BUF_SIZE" "bf_index bf = int (length xs)"
    "bf_sequence_id bf = i8 (bf_sequence_id (rq_buffer rq1) + 1)"
    "hs_read_request_and_exec_user_cb call r read_opts w
        = hs_parse_buffer_and_exec_user_cb call r max_buf (assign r (rq1\<lparr>rq_buffer := bf\<rparr>) (reads_done (rq_socket rq) evs w1))"
    by blast
  with c w r(2,3) opened_world [OF o] opened_undisturbed [OF r(1) o collecting_drained [OF c], of bf] show ?thesis
    by (intro exI [of _ rq1] exI [of _ "assign r (rq1\<lparr>rq_buffer := bf\<rparr>) (reads_done fd evs w1)"]
        exI [of _ bf] exI [of _ ts] conjI) (assumption | simp | simp add: assign_def)+
qed

text \<open>Until the last piece, an event adds its piece and nothing else happens.\<close>

lemma event_waits:
  assumes h: "short_head h" and g: "receiving old b H r fd xs (arrives p @ evs) w"
    and d: "render_head h = (xs @ p) @ zs" "zs \<noteq> []"
  shows "\<exists>w'. request_cycle user (Suc n) E_Read r w = Inr w' \<and> receiving old b H r fd (xs @ p) evs w' \<and> reading r w'
    \<and> undisturbed r w w'"
proof -
  let ?call = "\<lambda>f. request_cycle user n (E_Call f)"
  have "length (xs @ p) < 1024" using h d by (simp add: short_head_def)
  from receiving_opened [where call = ?call, OF g this] obtain rq1 w1 bf ts where
    c: "collecting old rq1 xs ts" and b: "buffer_holds bf (xs @ p)" "bf_capacity bf = HTTP_REQUEST_BUF_SIZE"
    "bf_index bf = int (length xs)" "bf_sequence_id bf = i8 (bf_sequence_id (rq_buffer rq1) + 1)"
    and w: "w_build w1 = b" "w_shift w1 = 0" "sv_request_handler (w_server w1) = H" "w_reads w1 fd = evs"
    "undisturbed r w w1"
    and r: "rq_socket rq1 = fd" "rq_handler rq1 = client_handler b" "rq_state rq1 = HTTP_SESSION_READ"
    "deref r w1 = Inr (rq1\<lparr>rq_buffer := bf\<rparr>)" "rq_timeout rq1 = HTTP_REQUEST_TIMEOUT"
    and e: "hs_read_request_and_exec_user_cb ?call r read_opts w = hs_parse_buffer_and_exec_user_cb ?call r max_buf w1"
    by blast
  from collecting_waits [where call = ?call, OF h c b d r(4) w(2)] obtain ps b' arr us where
    p: "hs_parse_buffer_and_exec_user_cb ?call r max_buf w1
      = Inr (HS_READ_RC_SUCCESS, assign r (rq1\<lparr>rq_parser := ps, rq_buffer := b', rq_tokens := arr\<rparr>) w1)"
    "collecting old (rq1\<lparr>rq_parser := ps, rq_buffer := b', rq_tokens := arr\<rparr>) (xs @ p) (ts @ us)" by blast
  let ?w = "assign r (rq1\<lparr>rq_parser := ps, rq_buffer := b', rq_tokens := arr\<rparr>) w1"
  have "request_cycle user (Suc n) E_Read r w = Inr ?w"
    using e p(1) by (simp add: hs_read_socket_and_handle_return_code_def)
  moreover have "receiving old b H r fd (xs @ p) evs ?w"
    unfolding receiving_def using w r opened_again [OF p(2)] by (auto simp: assign_def deref_def)
  moreover have "reading r ?w" using r(3,5) by (simp add: reading_def assign_def deref_def)
  moreover have "owned_bytes b' = owned_bytes bf"
    using p(2) b(2) holds_owned [of b' "xs @ p"] holds_owned [OF b(1)] by (simp add: collecting_def Let_def)
  with assign_undisturbed [OF r(4)] have "undisturbed r w1 ?w" by (simp add: same_flags_def)
  with w(5) have "undisturbed r w ?w" by (rule undisturbed_trans)
  ultimately show ?thesis by blast
qed

lemma event_completes:
  assumes h: "short_head h" "bodiless h" and g: "receiving old b H r fd xs (arrives p @ evs) w"
    and d: "xs @ p = render_head h @ rest" "length (xs @ p) < 1024"
  shows "\<exists>rq' w'. request_cycle user (Suc n) E_Read r w = request_cycle user n (E_Call H) r w'
    \<and> handed old b H r fd h rq' w' \<and> w_reads w' fd = evs \<and> undisturbed r w w'"
proof -
  let ?call = "\<lambda>f. request_cycle user n (E_Call f)"
  from receiving_opened [where call = ?call, OF g d(2)] obtain rq1 w1 bf ts where
    c: "collecting old rq1 xs ts" and b: "buffer_holds bf (xs @ p)" "bf_capacity bf = HTTP_REQUEST_BUF_SIZE"
    "bf_index bf = int (length xs)" "bf_sequence_id bf = i8 (bf_sequence_id (rq_buffer rq1) + 1)"
    and w: "w_shift w1 = 0" "sv_request_handler (w_server w1) = H" "w_reads w1 fd = evs" "w_build w1 = b"
    "undisturbed r w w1" "w_errno w1 = EAGAIN" "rq_socket rq1 = fd" "rq_handler rq1 = client_handler b"
    and r: "deref r w1 = Inr (rq1\<lparr>rq_buffer := bf\<rparr>)"
    and e: "hs_read_request_and_exec_user_cb ?call r read_opts w = hs_parse_buffer_and_exec_user_cb ?call r max_buf w1"
    by blast
  from collecting_completes [where call = ?call, OF h c b d r w(1)] obtain rq' where
    p: "hs_parse_buffer_and_exec_user_cb ?call r max_buf w1
      = bindr (?call H r (assign r rq' w1)) (\<lambda>w. Inr (HS_READ_RC_SUCCESS, w))" "delivered old h rq'"
    "rq_socket rq' = rq_socket rq1" "rq_handler rq' = rq_handler rq1"
    "rq_flags rq' = HTTP_FLAG_SET (rq_flags rq1) HTTP_FLG_STREAMED" "owned_bytes (rq_buffer rq') = owned_bytes bf"
    "\<exists>us. tokens_hold (rq_tokens rq') us \<and> length us \<le> length old + 4097"
    using w(2) by blast
  have "bindr m Inr = m" for m :: "world result" by (cases m) simp_all
  then have "request_cycle user (Suc n) E_Read r w = ?call H r (assign r rq' w1)"
    using e p(1) by (simp add: hs_read_socket_and_handle_return_code_def bindr_assoc)
  moreover have "undisturbed r w1 (assign r rq' w1)"
    using assign_undisturbed [OF r] p(5,6) by (simp add: same_flags_def)
  with w(5) have "undisturbed r w (assign r rq' w1)" by (rule undisturbed_trans)
  moreover have "handed old b H r fd h rq' (assign r rq' w1)"
    using p w b(2) holds_owned [OF b(1)] by (simp add: handed_def assign_def deref_def HTTP_REQUEST_BUF_SIZE_def)
  moreover have "w_reads (assign r rq' w1) fd = evs" using w(3) by (simp add: assign_def)
  ultimately show ?thesis by blast
qed

lemma read_event_handled:
  assumes "receiving old b H r fd xs evs w" and "reading r w"
  shows "handle_event (run_handler user n) (Ev_Request r) w = request_cycle user n E_Read r w"
  using assms
  by (cases b) (auto simp: receiving_def reading_def handle_event_def event_handler_def event_handler_kqueue_def
      event_handler_epoll_def run_handler_def kqueue_client_event hs_on_epoll_client_connection_event_def)

lemma length_last_concat: "xss \<noteq> [] \<Longrightarrow> length (last xss) \<le> length (concat xss)"
  by (induction xss) auto

lemma last_piece_needed:
  assumes "xs @ concat (p # ps) = us @ rest" and "ps \<noteq> []" and "length rest < length (last ps)"
  shows "\<exists>zs. us = (xs @ p) @ zs \<and> zs \<noteq> []"
proof -
  have "length (xs @ p) + length (concat ps) = length us + length rest"
    using arg_cong [OF assms(1), of length] by simp
  then have "length (xs @ p) < length us" using assms(3) length_last_concat [OF assms(2)] by linarith
  moreover have "(xs @ p) @ concat ps = us @ rest" using assms(1) by simp
  ultimately show ?thesis by (auto simp: append_eq_append_conv2)
qed

lemma pieces_delivered:
  assumes "short_head h" and "bodiless h" and "receiving old b H r fd xs (concat (map arrives (p # ps)) @ evs) w"
    and "xs @ concat (p # ps) = render_head h @ rest" and "length rest < length (last (p # ps))" and "length (render_head h @ rest) < 1024"
  shows "\<exists>rq' w'. bindr (request_cycle user (Suc n) E_Read r w)
        (event_loop (run_handler user (Suc n)) (replicate (length ps) (Ev_Request r)))
      = request_cycle user n (E_Call H) r w'
    \<and> handed old b H r fd h rq' w' \<and> w_reads w' fd = evs \<and> undisturbed r w w'"
  using assms(3-6)
proof (induction ps arbitrary: p xs w)
  case Nil
  have "receiving old b H r fd xs (arrives p @ evs) w" "xs @ p = render_head h @ rest" "length (xs @ p) < 1024" using Nil by simp_all
  from event_completes [where user = user and n = n, OF assms(1,2) this] obtain rq' w' where
    "request_cycle user (Suc n) E_Read r w = request_cycle user n (E_Call H) r w'"
    "handed old b H r fd h rq' w'" "w_reads w' fd = evs" "undisturbed r w w'" by blast
  moreover have "bindr m (event_loop run []) = m" for m run by (cases m) simp_all
  ultimately show ?case by (intro exI [of _ rq'] exI [of _ w']) (simp del: request_cycle.simps event_loop.simps)
next
  case (Cons q ps)
  have g: "receiving old b H r fd xs (arrives p @ concat (map arrives (q # ps)) @ evs) w" using Cons.prems(1) by simp
  have last: "length rest < length (last (q # ps))" using Cons.prems(3) by simp
  obtain zs where "render_head h = (xs @ p) @ zs" "zs \<noteq> []" using last_piece_needed [OF Cons.prems(2) _ last] by blast
  then obtain w1 where w1: "request_cycle user (Suc n) E_Read r w = Inr w1"
    "receiving old b H r fd (xs @ p) (concat (map arrives (q # ps)) @ evs) w1" "reading r w1" "undisturbed r w w1"
    using event_waits [OF assms(1) g] by blast
  have "(xs @ p) @ concat (q # ps) = render_head h @ rest" using Cons.prems(2) by simp
  from Cons.IH [OF w1(2) this last Cons.prems(4)] obtain rq' w' where
    "bindr (request_cycle user (Suc n) E_Read r w1)
        (event_loop (run_handler user (Suc n)) (replicate (length ps) (Ev_Request r)))
      = request_cycle user n (E_Call H) r w'"
    "handed old b H r fd h rq' w'" "w_reads w' fd = evs" "undisturbed r w1 w'" by blast
  with w1(1) read_event_handled [OF w1(2,3)] undisturbed_trans [OF w1(4)] show ?case
    by (intro exI [of _ rq'] exI [of _ w']) (simp del: request_cycle.simps)
qed

lemma reads_when_fresh:
  assumes "deref r w = Inr rq" and "bf_buf (rq_buffer rq) = None" and "tokens_hold (rq_tokens rq) old"
    and "length old < 100000000" and "rq_handler rq = client_handler (w_build w)" and "w_shift w = 0"
  shows "receiving old (w_build w) (sv_request_handler (w_server w)) r (rq_socket rq) [] (w_reads w (rq_socket rq)) w"
  using assms opened_fresh by (auto simp: receiving_def)

end
