(* ===== verification/Delivered.thy ===== *)
theory Delivered
  imports Delivery
begin

text \<open>
  A request on its way to the user's code: the first one on a new connection, from the start of the
  server, and a later one on the same connection.
\<close>

lemma receiving_same:
  assumes "receiving old b H r fd xs evs w" and "w_build w' = w_build w" and "w_shift w' = w_shift w"
    and "sv_request_handler (w_server w') = sv_request_handler (w_server w)" and "w_reads w' fd = w_reads w fd"
    and "deref r w' = deref r w"
  shows "receiving old b H r fd xs evs w'"
proof -
  have "fst (opened rq w') = fst (opened rq w)" for rq by (simp add: opened_def Let_def)
  with assms show ?thesis by (simp add: receiving_def)
qed

lemma begin_read_receives:
  assumes "receiving old b H r fd xs evs w"
  shows "\<exists>w'. receiving old b H r fd xs evs w' \<and> w_memused w' = w_memused w \<and> undisturbed r w w'
    \<and> hs_request_begin_read read_socket r w = read_socket r w'"
proof -
  from assms obtain rq ts where r: "deref r w = Inr rq" "rq_socket rq = fd" "rq_handler rq = client_handler b"
    "collecting old (fst (opened rq w)) xs ts" by (auto simp: receiving_def)
  let ?w = "assign r (rq\<lparr>rq_state := HTTP_SESSION_READ\<rparr>) w"
  obtain w' where w': "hs_add_read_event r ?w = Inr w'"
    "w_build w' = w_build ?w" "w_shift w' = w_shift ?w" "w_server w' = w_server ?w" "w_reads w' = w_reads ?w"
    "w_heap w' = w_heap ?w" "w_accepts w' = w_accepts w" "w_sent w' = w_sent w" "w_writes w' = w_writes w"
    by (cases "w_build w") (auto simp: hs_add_read_event_def hs_add_read_event_kqueue_def os_log_def assign_def deref_def)
  have "fst (opened (rq\<lparr>rq_state := HTTP_SESSION_READ\<rparr>) v) = fst (opened rq w)" for v
    by (simp add: opened_def Let_def)
  with r assms have "receiving old b H r fd xs evs ?w" by (auto simp: receiving_def assign_def deref_def)
  then have "receiving old b H r fd xs evs w'" by (rule receiving_same) (use w' in \<open>simp_all add: deref_def\<close>)
  moreover have "undisturbed r w ?w" using assign_undisturbed [OF r(1)] by (simp add: same_flags_def)
  then have "undisturbed r w w'" using w' by (simp add: undisturbed_def unowned_def deref_def assign_def w_memused_def)
  ultimately show ?thesis using w' r(1)
    by (intro exI [of _ w']) (simp add: hs_request_begin_read_def modify_def w_memused_def assign_def)
qed

text \<open>A new connection, compared with the state before it was accepted.\<close>

definition joined :: "ptr \<Rightarrow> world \<Rightarrow> world \<Rightarrow> bool" where
  "joined r w w' \<longleftrightarrow> w_sent w' = w_sent w \<and> w_writes w' = w_writes w \<and> sv_date (w_server w') = sv_date (w_server w)
     \<and> (\<exists>rq. deref r w' = Inr rq \<and> same_flags HTTP_AUTOMATIC (rq_flags rq))
     \<and> (0 \<le> w_memused w \<and> w_memused w < 1152921504606846976 \<longrightarrow> unowned r w' = w_memused w)"

lemma joined_undisturbed:
  assumes "joined r w w1" and "undisturbed r w1 w2"
  shows "joined r w w2"
proof -
  from assms(1) obtain rq1 where 1: "deref r w1 = Inr rq1" "same_flags HTTP_AUTOMATIC (rq_flags rq1)" by (auto simp: joined_def)
  with assms(2) obtain rq2 where "deref r w2 = Inr rq2" "same_flags (rq_flags rq1) (rq_flags rq2)" by (auto simp: undisturbed_def)
  with 1 assms same_flags_trans show ?thesis by (auto simp: joined_def undisturbed_def)
qed

lemma accept_receives:
  assumes "w_accepts w = fd # fds" and "0 < fd" and "w_shift w = 0" and "w_reads w fd = evs"
  shows "\<exists>w'. hs_server_accept_connection (client_handler (w_build w)) (client_timer_handler (w_build w)) w
      = Inr (Some (w_next w), w')
    \<and> receiving [] (w_build w) (sv_request_handler (w_server w)) (w_next w) fd [] evs w'
    \<and> w_accepts w' = fds \<and> w_memused w' = w_memused w \<and> joined (w_next w) w w'"
proof -
  have t: "tokens_hold (hs_token_array_init 32) []"
    by (simp add: tokens_hold_def array_holds_def hs_token_array_init_def malloc_block_def holds_def)
  obtain w' where a: "hs_server_accept_connection (client_handler (w_build w)) (client_timer_handler (w_build w)) w
      = Inr (Some (w_next w), w')" and
    w': "w_build w' = w_build w" "w_shift w' = w_shift w" "w_server w' = w_server w" "w_reads w' = w_reads w"
    "w_accepts w' = fds" "w_sent w' = w_sent w" "w_writes w' = w_writes w"
    "\<exists>rq. deref (w_next w) w' = Inr rq \<and> rq_socket rq = fd \<and> rq_handler rq = client_handler (w_build w) \<and> rq_flags rq = HTTP_AUTOMATIC
      \<and> bf_buf (rq_buffer rq) = None \<and> rq_tokens rq = hs_token_array_init 32"
    using assms(1,2)
    by (cases "w_build w") (auto simp: hs_server_accept_connection_def hs_add_timer_event_def hs_add_timer_event_kqueue_def
        modify_def Let_def os_new_fd_eq os_log_def assign_def deref_def hs_request_init_def buffer_zero_def)
  from w'(8) obtain rq where rq: "deref (w_next w) w' = Inr rq" "rq_socket rq = fd" "rq_handler rq = client_handler (w_build w')"
    "bf_buf (rq_buffer rq) = None" "tokens_hold (rq_tokens rq) []" "rq_flags rq = HTTP_AUTOMATIC" using t w'(1) by auto
  from reads_when_fresh [OF rq(1,4,5) _ rq(3)] w' assms(3,4) rq(2)
  have "receiving [] (w_build w) (sv_request_handler (w_server w)) (w_next w) fd [] evs w'" by simp
  moreover have "joined (w_next w) w w'"
    using w' rq(1,4,6) unowned_deref [OF rq(1)] by (simp add: joined_def same_flags_def owned_bytes_def w_memused_def)
  ultimately show ?thesis using a w'(3,5) by (intro exI [of _ w']) (simp add: w_memused_def)
qed

text \<open>The event of a waiting connection: it is accepted, its first bytes are read, and the loop of \<open>accept\<close> ends.\<close>

lemma accept_event_receives:
  assumes h: "short_head h" and sv: "sv_handler (w_server w) = server_handler (w_build w)"
    and acc: "w_accepts w = [fd]" "0 < fd" "w_shift w = 0" "w_reads w fd = arrives p @ evs" "w_memused w \<le> HTTP_MAX_TOTAL_EST_MEM_USAGE"
    and d: "render_head h = p @ zs" "zs \<noteq> []"
  shows "\<exists>w'. handle_event (run_handler user (Suc n)) Ev_Server_Socket w = Inr w'
    \<and> receiving [] (w_build w) (sv_request_handler (w_server w)) (w_next w) fd p evs w' \<and> reading (w_next w) w'
    \<and> joined (w_next w) w w'"
proof -
  let ?r = "w_next w" and ?H = "sv_request_handler (w_server w)"
  let ?rd = "request_cycle user (Suc n) E_Read" and ?wr = "request_cycle user (Suc n) E_Write"
  have ev: "handle_event (run_handler user (Suc n)) Ev_Server_Socket w =
      hs_accept_and_begin_request_cycle (hs_request_begin_write ?wr) (hs_request_begin_read ?rd)
        (client_handler (w_build w)) (client_timer_handler (w_build w)) w"
    using sv by (cases "w_build w") (simp_all add: handle_event_def event_handler_def event_handler_kqueue_def event_handler_epoll_def
        run_handler_def Let_def hs_on_epoll_server_connection_event_def hs_on_kqueue_server_event_def del: request_cycle.simps)
  from accept_receives [OF acc(1-4)] obtain w1 where
    w1: "hs_server_accept_connection (client_handler (w_build w)) (client_timer_handler (w_build w)) w = Inr (Some ?r, w1)"
      "receiving [] (w_build w) ?H ?r fd [] (arrives p @ evs) w1" "w_accepts w1 = []" "w_memused w1 = w_memused w" "joined ?r w w1" by blast
  from begin_read_receives [OF w1(2)] obtain w2 where
    w2: "receiving [] (w_build w) ?H ?r fd [] (arrives p @ evs) w2" "undisturbed ?r w1 w2"
      "hs_request_begin_read ?rd ?r w1 = ?rd ?r w2" by auto
  from event_waits [where user = user and n = n, OF h w2(1) _ d(2)] d(1) obtain w3 where
    w3: "?rd ?r w2 = Inr w3" "receiving [] (w_build w) ?H ?r fd p evs w3" "reading ?r w3" "undisturbed ?r w2 w3"
    by auto
  have acc3: "w_accepts w3 = []" and j3: "joined ?r w w3"
    using w1(3) w2(2) w3(4) joined_undisturbed [OF joined_undisturbed [OF w1(5) w2(2)] w3(4)] by (simp_all add: undisturbed_def)
  let ?w = "os_log (Accept (- 1)) (w3\<lparr>w_accepts := []\<rparr>)"
  have "hs_server_accept_connection cb tcb w3 = Inr (None, ?w)" for cb tcb
    using acc3 by (simp add: hs_server_accept_connection_def)
  then have "handle_event (run_handler user (Suc n)) Ev_Server_Socket w = Inr ?w"
    using ev w1(1,4) w2(3) w3(1) acc(1,5) by (simp add: hs_accept_and_begin_request_cycle_def del: request_cycle.simps)
  moreover have "receiving [] (w_build w) ?H ?r fd p evs ?w"
    by (rule receiving_same [OF w3(2)]) (simp_all add: os_log_def deref_def)
  moreover have "reading ?r ?w" using w3(3) by (simp add: reading_def os_log_def deref_def)
  moreover have "joined ?r w ?w" using j3 by (simp add: joined_def os_log_def deref_def unowned_def w_memused_def)
  ultimately show ?thesis by blast
qed

lemma started_ready:
  assumes "started serv port handler now w = Inr w1"
  shows "w_accepts w1 = w_accepts w" "w_reads w1 = w_reads w" "w_shift w1 = w_shift w" "w_memused w1 = 0"
    "sv_request_handler (w_server w1) = handler" "w_sent w1 = w_sent w" "w_writes w1 = w_writes w"
  using assms
  by (cases "w_build w"; auto simp: started_def http_server_init_def hs_server_init_def hs_server_init_events_def
      hs_server_init_events_kqueue_def hs_generate_date_time_def hs_server_listen_on_addr_def hs_bind_localhost_def
      hs_add_server_sock_events_def hs_add_server_sock_events_kqueue_def os_log_def os_new_fd_eq Let_def w_memused_def)+

lemma request_handed:
  assumes "started serv port handler now w = Inr w1" and "w_shift w = 0"
    and "w_accepts w = [fd]" and "0 < fd" and "w_reads w fd = concat (map arrives (p # ps)) @ evs"
    and "short_head h" and "bodiless h" and "concat (p # ps) = render_head h @ rest" and "ps \<noteq> []"
    and "length rest < length (last ps)" and "length (render_head h @ rest) < 1024"
  shows "\<exists>rq' w'. event_loop (run_handler user (Suc n)) (Ev_Server_Socket # replicate (length ps) (Ev_Request (w_next w))) w1
      = request_cycle user n (E_Call handler) (w_next w) w'
    \<and> handed [] (w_build w) handler (w_next w) fd h rq' w' \<and> w_reads w' fd = evs \<and> joined (w_next w) w1 w'"
proof -
  note st = started_ready [OF assms(1)] started_simps [OF assms(1)]
  obtain q qs where ps: "ps = q # qs" using assms(9) by (cases ps) auto
  obtain zs where zs: "render_head h = p @ zs" "zs \<noteq> []"
    using last_piece_needed [of "[]", OF _ assms(9,10)] assms(8) by auto
  have "w_memused w1 \<le> HTTP_MAX_TOTAL_EST_MEM_USAGE" using st(4) by (simp add: HTTP_MAX_TOTAL_EST_MEM_USAGE_def)
  with accept_event_receives [where user = user and n = n and w = w1 and evs = "concat (map arrives ps) @ evs", OF assms(6) _ _ assms(4) _ _ _ zs]
    st assms(2,3,5) obtain w2 where
    w2: "handle_event (run_handler user (Suc n)) Ev_Server_Socket w1 = Inr w2"
      "receiving [] (w_build w) handler (w_next w) fd p (concat (map arrives ps) @ evs) w2" "reading (w_next w) w2"
      "joined (w_next w) w1 w2" by auto
  have "p @ concat (q # qs) = render_head h @ rest" "length rest < length (last (q # qs))" using assms(8,10) ps by simp_all
  from pieces_delivered [where user = user and n = n, OF assms(6,7) w2(2) [unfolded ps] this assms(11)] obtain rq' w' where
    d: "bindr (request_cycle user (Suc n) E_Read (w_next w) w2)
        (event_loop (run_handler user (Suc n)) (replicate (length qs) (Ev_Request (w_next w))))
      = request_cycle user n (E_Call handler) (w_next w) w'"
    "handed [] (w_build w) handler (w_next w) fd h rq' w'" "w_reads w' fd = evs" "undisturbed (w_next w) w2 w'" by blast
  from d(1) have "event_loop (run_handler user (Suc n)) (Ev_Server_Socket # replicate (length ps) (Ev_Request (w_next w))) w1
      = request_cycle user n (E_Call handler) (w_next w) w'"
    using w2(1) read_event_handled [OF w2(2,3), of user "Suc n"] by (simp add: ps del: request_cycle.simps)
  with d(2,3) joined_undisturbed [OF w2(4) d(4)] show ?thesis by blast
qed

text \<open>
  C2. A request reaches the user's handler, however it is cut on the way: on a server that has been
  started, a connection is accepted and the bytes of a head without a body arrive in any pieces, one
  per event (an empty piece stands for an event with nothing to read). The connection waits until
  the last piece; that event calls the server's request handler, and the tokens it finds in the
  request are the parts of the head, each pointing at its own bytes.
\<close>

theorem request_reaches_handler:
  assumes "started serv port handler now w = Inr w1" and "w_shift w = 0"
    and "w_accepts w = [fd]" and "0 < fd" and "w_reads w fd = concat (map arrives (p # ps))"
    and "short_head h" and "bodiless h" and "concat (p # ps) = render_head h" and "ps \<noteq> []" and "last ps \<noteq> []"
  shows "\<exists>rq' w'. event_loop (run_handler user (Suc n)) (Ev_Server_Socket # replicate (length ps) (Ev_Request (w_next w))) w1
      = request_cycle user n (E_Call handler) (w_next w) w'
    \<and> deref (w_next w) w' = Inr rq' \<and> delivered [] h rq' \<and> w_reads w' fd = []"
proof -
  have "length (render_head h @ []) < 1024" using assms(6) by (simp add: short_head_def)
  with request_handed [where evs = "[]" and rest = "[]", OF assms(1-4) _ assms(6,7) _ assms(9)] assms(5,8,10)
  show ?thesis by (fastforce simp: handed_def)
qed

section \<open>A later request on the same connection\<close>

lemma find_type_plain: "find_type (map (\<lambda>t. (t, s)) ts) ty = map_option (\<lambda>t. (t, s)) (find (\<lambda>t. tk_type t = ty) ts)"
  by (induction ts) auto

lemma find_append_Some: "find P xs = Some x \<Longrightarrow> find P (xs @ ys) = Some x"
  by (induction xs) auto

lemma get_token_string_first:
  assumes "array_holds (rq_tokens rq) (old @ ts)" and "find (\<lambda>t. tk_type t = ty) old = Some t"
  shows "hs_get_token_string rq ty = Inr (token_string t)"
proof -
  let ?tts = "map (\<lambda>t. (t, [] :: string)) (old @ ts)"
  have m: "map fst ?tts = old @ ts" by (simp add: comp_def)
  from assms(1) have h: "holds (ta_buf (rq_tokens rq)) (old @ ts)" "ta_buf (rq_tokens rq) \<noteq> None"
    "nat (ta_size (rq_tokens rq)) = length ?tts" by (auto elim: array_holdsE)
  have "holds (ta_buf (rq_tokens rq)) (map fst ([] @ ?tts))" using h(1) m by simp
  from find_token_type [OF this] h(2,3) show ?thesis
    using find_append_Some [OF assms(2)]
    by (auto simp: hs_get_token_string_def find_type_plain header_string_def option.map_comp comp_def simp del: map_append)
qed

lemma write_keeps_request:
  assumes "hs_write_socket r w = Inr (rc, w1)" and "deref r w = Inr rq"
  shows "\<exists>k. deref r w1 = Inr (rq\<lparr>rq_bytes_written := k\<rparr>) \<and> w_build w1 = w_build w \<and> w_shift w1 = w_shift w
    \<and> w_server w1 = w_server w \<and> w_reads w1 = w_reads w"
proof -
  from assms obtain bytes w2 where o: "os_write (rq_socket rq) (bf_buf (rq_buffer rq)) (rq_bytes_written rq)
      (bf_length (rq_buffer rq) - rq_bytes_written rq) w = Inr (bytes, w2)"
    by (auto simp: hs_write_socket_def bindr_Inr_iff Let_def)
  then have w: "w_build w2 = w_build w \<and> w_shift w2 = w_shift w \<and> w_server w2 = w_server w \<and> w_reads w2 = w_reads w"
    by (auto simp: os_write_def bindr_Inr_iff Let_def split: list.splits write_event.splits)
  define k where "k = (if 0 < bytes then i64 (rq_bytes_written rq + bytes) else rq_bytes_written rq)"
  have "deref r w1 = Inr (rq\<lparr>rq_bytes_written := k\<rparr>)"
    using assms o by (auto simp: hs_write_socket_def Let_def k_def)
  moreover have "\<exists>rq'. w1 = assign r rq' w2" using assms o by (auto simp: hs_write_socket_def Let_def)
  ultimately show ?thesis using w by (auto simp: assign_def)
qed

text \<open>When a response has been written and the connection is kept, the next request is read with an empty buffer and the old tokens.\<close>

lemma buffer_free_account:
  assumes "0 \<le> m - owned_bytes bf" and "m - owned_bytes bf < 1152921504606846976"
  shows "snd (hs_buffer_free bf m) = m - owned_bytes bf"
  using assms by (auto simp: hs_buffer_free_def owned_bytes_def intro!: i64_id)

lemma kept_alive_receives:
  assumes "hs_write_socket r w = Inr (HS_WRITE_RC_SUCCESS, w1)" and "deref r w = Inr rq"
    and "tokens_hold (rq_tokens rq) old" and "length old < 100000000"
    and "rq_handler rq = client_handler (w_build w)" and "w_shift w = 0"
  shows "\<exists>w'. receiving old (w_build w) (sv_request_handler (w_server w)) r (rq_socket rq) [] (w_reads w (rq_socket rq)) w'
    \<and> request_cycle user (Suc (Suc n)) E_Write r w = request_cycle user (Suc n) E_Read r w'
    \<and> w_sent w' = w_sent w1 \<and> w_writes w' = w_writes w1 \<and> (0 \<le> unowned r w \<and> unowned r w < 1152921504606846976 \<longrightarrow> unowned r w' = unowned r w)"
proof -
  from write_keeps_request [OF assms(1,2)] obtain k where
    k: "deref r w1 = Inr (rq\<lparr>rq_bytes_written := k\<rparr>)" "w_build w1 = w_build w" "w_shift w1 = w_shift w"
      "w_server w1 = w_server w" "w_reads w1 = w_reads w" by blast
  let ?rq = "rq\<lparr>rq_bytes_written := k, rq_timeout := HTTP_KEEP_ALIVE_TIMEOUT\<rparr>"
  obtain bf m where bf: "hs_buffer_free (rq_buffer rq) (w_memused w1) = (bf, m)" "bf_buf bf = None"
    by (cases "hs_buffer_free (rq_buffer rq) (w_memused w1)") (auto simp: hs_buffer_free_def split: if_splits)
  let ?w2 = "assign r (?rq\<lparr>rq_buffer := bf\<rparr>) (set_memused m (assign r ?rq w1))"
  have "request_buffer_free r (assign r ?rq w1) = Inr ?w2" using bf(1) by (simp add: request_buffer_free_def)
  then have e: "request_cycle user (Suc (Suc n)) E_Write r w = hs_request_begin_read (request_cycle user (Suc n) E_Read) r ?w2"
    using assms(1) k(1) by (simp add: hs_write_socket_and_handle_return_code_def modify_def del: request_cycle.simps(2)
        add: request_cycle.simps(2) [of user "Suc n"])
  have d: "deref r ?w2 = Inr (?rq\<lparr>rq_buffer := bf\<rparr>)" by simp
  from reads_when_fresh [OF this] bf(2) assms(3-6) k(2-5)
  have "receiving old (w_build w) (sv_request_handler (w_server w)) r (rq_socket rq) [] (w_reads w (rq_socket rq)) ?w2"
    by (simp add: assign_def set_memused_def)
  from begin_read_receives [OF this] e obtain w' where
    w': "receiving old (w_build w) (sv_request_handler (w_server w)) r (rq_socket rq) [] (w_reads w (rq_socket rq)) w'"
      "request_cycle user (Suc (Suc n)) E_Write r w = request_cycle user (Suc n) E_Read r w'" "undisturbed r ?w2 w'" by metis
  have "unowned r ?w2 = m" using unowned_deref [OF d] bf(2) by (simp add: owned_bytes_def)
  moreover have "m = unowned r w" if "0 \<le> unowned r w" "unowned r w < 1152921504606846976"
    using buffer_free_account [of "w_memused w1" "rq_buffer rq"] unowned_deref [OF assms(2)] k(4) that bf(1)
    by (simp add: w_memused_def)
  ultimately have "unowned r w' = unowned r w" if "0 \<le> unowned r w" "unowned r w < 1152921504606846976"
    using w'(3) that unfolding undisturbed_def by presburger
  moreover have "w_sent w' = w_sent w1" "w_writes w' = w_writes w1" using w'(3) by (simp_all add: undisturbed_def assign_def set_memused_def)
  ultimately show ?thesis using w'(1,2) by blast
qed

text \<open>
  C31. The second request of a connection that is kept alive is not read right. When the response
  to the first one has been written, the buffer is given back and the parser starts anew, but the
  tokens stay in the array and those of the next request go behind them. What the handler asks for
  is found in the old tokens first, so the method, the target and the version it gets are cut out of
  the new bytes at the offsets and with the lengths of the first request.
\<close>

theorem kept_alive_request_reads_old_tokens:
  assumes "hs_write_socket r w = Inr (HS_WRITE_RC_SUCCESS, w1)" and "deref r w = Inr rq"
    and "tokens_hold (rq_tokens rq) old" and "length old < 100000000"
    and "rq_handler rq = client_handler (w_build w)" and "w_shift w = 0"
    and "w_reads w (rq_socket rq) = concat (map arrives (p # ps))"
    and "short_head h" and "bodiless h" and "concat (p # ps) = render_head h" and "last (p # ps) \<noteq> []"
    and "find (\<lambda>t. tk_type t = ty) old = Some t"
  shows "\<exists>rq' w'. bindr (request_cycle user (Suc (Suc n)) E_Write r w)
        (event_loop (run_handler user (Suc n)) (replicate (length ps) (Ev_Request r)))
      = request_cycle user n (E_Call (sv_request_handler (w_server w))) r w'
    \<and> deref r w' = Inr rq' \<and> delivered old h rq' \<and> hs_get_token_string rq' ty = Inr (token_string t)"
proof -
  from kept_alive_receives [OF assms(1-6), of user n] obtain w2 where
    w2: "receiving old (w_build w) (sv_request_handler (w_server w)) r (rq_socket rq) [] (concat (map arrives (p # ps))) w2"
      "request_cycle user (Suc (Suc n)) E_Write r w = request_cycle user (Suc n) E_Read r w2"
    using assms(7) by metis
  have "length (render_head h @ []) < 1024" using assms(8) by (simp add: short_head_def)
  with pieces_delivered [where user = user and n = n and evs = "[]" and rest = "[]", OF assms(8,9)] w2(1) assms(10,11) obtain rq' w' where
    d: "bindr (request_cycle user (Suc n) E_Read r w2)
        (event_loop (run_handler user (Suc n)) (replicate (length ps) (Ev_Request r)))
      = request_cycle user n (E_Call (sv_request_handler (w_server w))) r w'"
    "deref r w' = Inr rq'" "delivered old h rq'" by (fastforce simp: handed_def)
  then have "hs_get_token_string rq' ty = Inr (token_string t)"
    using get_token_string_first [OF _ assms(12)] by (auto simp: delivered_def)
  with d w2(2) show ?thesis by (metis (no_types))
qed

text \<open>The head of a request for \<open>/\<close>.\<close>

definition small_head :: request_head where
  "small_head = \<lparr>hd_method = ''GET'', hd_target = ''/'', hd_minor = CHR ''1'', hd_headers = [(''Host'', '' '', ''a'')]\<rparr>"

lemma small_head_short: "short_head small_head" "bodiless small_head"
  by code_simp+

text \<open>
  C33. The time-out for kept connections is never in force. When a response has been written and the
  connection is kept, the time-out is set to 120 ticks, but the read that follows at once sets it to
  the 20 ticks of a request: with nothing to read yet, the connection waits on the shorter one.
\<close>

theorem keep_alive_timeout_lost:
  assumes "hs_write_socket r w = Inr (HS_WRITE_RC_SUCCESS, w1)" and "deref r w = Inr rq"
    and "tokens_hold (rq_tokens rq) old" and "length old < 100000000"
    and "rq_handler rq = client_handler (w_build w)" and "w_shift w = 0"
    and "w_reads w (rq_socket rq) = R_Fail EAGAIN # evs"
  shows "\<exists>rq' w'. request_cycle user (Suc (Suc n)) E_Write r w = Inr w' \<and> deref r w' = Inr rq'
    \<and> rq_state rq' = HTTP_SESSION_READ \<and> rq_timeout rq' = HTTP_REQUEST_TIMEOUT"
proof -
  from kept_alive_receives [OF assms(1-6), of user n] assms(7) obtain w2 where
    w2: "receiving old (w_build w) (sv_request_handler (w_server w)) r (rq_socket rq) [] (arrives [] @ evs) w2"
      "request_cycle user (Suc (Suc n)) E_Write r w = request_cycle user (Suc n) E_Read r w2"
    by (auto simp: arrives_def)
  have "render_head small_head = ([] @ []) @ render_head small_head" "render_head small_head \<noteq> []"
    by (simp_all add: render_head_def)
  from event_waits [where user = user and n = n, OF small_head_short(1) w2(1) this] obtain w3 where
    "request_cycle user (Suc n) E_Read r w2 = Inr w3" "reading r w3" by blast
  with w2(2) show ?thesis by (auto simp: reading_def)
qed

section \<open>Instances\<close>

definition small_pieces :: "string list" where
  "small_pieces = [take 7 (render_head small_head), [], drop 7 (render_head small_head)]"

lemma small_head_facts:
  "short_head small_head" "bodiless small_head" "concat small_pieces = render_head small_head"
  "drop 7 (render_head small_head) \<noteq> []"
proof -
  show "short_head small_head" "bodiless small_head" by (fact small_head_short)+
  show "concat small_pieces = render_head small_head" by (simp add: small_pieces_def)
  show "drop 7 (render_head small_head) \<noteq> []" by code_simp
qed

lemma started_total: "\<exists>w'. started serv port handler now w = Inr w'"
  by (cases "w_build w") (simp_all add: started_def hs_server_listen_on_addr_def hs_bind_localhost_def Let_def split: prod.split)

text \<open>The head of a request for \<open>/\<close> in two pieces, with an event for nothing in between.\<close>

definition arriving_world :: world where
  "arriving_world = (idle_world EPOLL)\<lparr>w_reads := (\<lambda>_. [])(7 := concat (map arrives small_pieces))\<rparr>"

theorem request_reaches_handler_witness:
  "\<exists>w1 rq w'. started sample_server 8080 0 0 arriving_world = Inr w1
    \<and> event_loop (run_handler (\<lambda>_ _ _. Return) 2) [Ev_Server_Socket, Ev_Request 0, Ev_Request 0] w1 = Inr w'
    \<and> deref 0 w' = Inr rq \<and> delivered [] small_head rq \<and> w_reads w' 7 = []"
proof -
  obtain w1 where w1: "started sample_server 8080 0 0 arriving_world = Inr w1"
    using started_total by blast
  have w: "w_shift arriving_world = 0" "w_accepts arriving_world = [7]" "w_next arriving_world = 0"
    "w_reads arriving_world 7 = concat (map arrives (hd small_pieces # tl small_pieces))"
    by (simp_all add: arriving_world_def idle_world_def sample_world_def small_pieces_def)
  have "concat (hd small_pieces # tl small_pieces) = render_head small_head" "tl small_pieces \<noteq> []" "last (tl small_pieces) \<noteq> []"
    "length (tl small_pieces) = 2"
    using small_head_facts by (simp_all add: small_pieces_def)
  with request_reaches_handler [where user = "\<lambda>_ _ _. Return" and n = 1, OF w1 w(1,2) _ w(4) small_head_facts(1,2)] w(3) w1
  show ?thesis by (simp add: numeral_2_eq_2 del: event_loop.simps)
qed

text \<open>The tokens of a request for \<open>/index.html\<close>, answered on a connection that was kept.\<close>

definition index_tokens :: "hsh_token_s list" where
  "index_tokens =
     [\<lparr>tk_type = HSH_TOK_METHOD, tk_flags = 0, tk_len = 3, tk_index = 0\<rparr>,
      \<lparr>tk_type = HSH_TOK_TARGET, tk_flags = 0, tk_len = 11, tk_index = 4\<rparr>,
      \<lparr>tk_type = HSH_TOK_VERSION, tk_flags = 0, tk_len = 8, tk_index = 16\<rparr>,
      \<lparr>tk_type = HSH_TOK_HEADERS_DONE, tk_flags = HSH_TOK_FLAG_NO_BODY, tk_len = 0, tk_index = 0\<rparr>]"

definition kept_request :: http_request_s where
  "kept_request = (hs_request_init 7 On_Client_Connection)\<lparr>rq_state := HTTP_SESSION_WRITE,
     rq_tokens := \<lparr>ta_buf = Some (map Some index_tokens @ replicate 28 None), ta_capacity = 32, ta_size = 4\<rparr>,
     rq_buffer := buffer_zero\<lparr>bf_buf := Some [Some CHR ''x''], bf_capacity := 1, bf_length := 1\<rparr>,
     rq_flags := HTTP_KEEP_ALIVE\<rparr>"

lemma kept_request_written:
  "\<exists>w1. hs_write_socket 0 (assign 0 kept_request arriving_world) = Inr (HS_WRITE_RC_SUCCESS, w1)"
proof -
  have "case hs_write_socket 0 (assign 0 kept_request arriving_world) of Inl e \<Rightarrow> False | Inr (rc, w) \<Rightarrow> rc = HS_WRITE_RC_SUCCESS"
    by code_simp
  then show ?thesis by (auto split: sum.splits)
qed

theorem kept_alive_request_reads_old_tokens_witness:
  "\<exists>rq w'. bindr (request_cycle (\<lambda>_ _ _. Return) 3 E_Write 0 (assign 0 kept_request arriving_world))
      (event_loop (run_handler (\<lambda>_ _ _. Return) 2) [Ev_Request 0, Ev_Request 0]) = Inr w'
    \<and> deref 0 w' = Inr rq \<and> delivered index_tokens small_head rq
    \<and> hs_get_token_string rq HSH_TOK_TARGET = Inr \<lparr>st_buf = Some 4, st_len = 11\<rparr>"
proof -
  let ?w = "assign 0 kept_request arriving_world"
  obtain w1 where w1: "hs_write_socket 0 ?w = Inr (HS_WRITE_RC_SUCCESS, w1)" using kept_request_written by blast
  have r: "deref 0 ?w = Inr kept_request" "length index_tokens < 100000000"
    "tokens_hold (rq_tokens kept_request) index_tokens" "rq_handler kept_request = client_handler (w_build ?w)" "w_shift ?w = 0"
    "w_reads ?w (rq_socket kept_request) = concat (map arrives (hd small_pieces # tl small_pieces))"
    by (simp_all add: kept_request_def hs_request_init_def tokens_hold_def array_holds_def holds_def
        index_tokens_def arriving_world_def idle_world_def sample_world_def small_pieces_def assign_def deref_def)
  have p: "concat (hd small_pieces # tl small_pieces) = render_head small_head" "last (hd small_pieces # tl small_pieces) \<noteq> []"
    "length (tl small_pieces) = 2"
    using small_head_facts by (simp_all add: small_pieces_def)
  have "find (\<lambda>t. tk_type t = HSH_TOK_TARGET) index_tokens = Some \<lparr>tk_type = HSH_TOK_TARGET, tk_flags = 0, tk_len = 11, tk_index = 4\<rparr>"
    by (simp add: index_tokens_def)
  from kept_alive_request_reads_old_tokens [where user = "\<lambda>_ _ _. Return" and n = 1, OF w1 r(1,3,2,4-6) small_head_facts(1,2) p(1,2) this] p(3)
  show ?thesis by (simp add: numeral_2_eq_2 numeral_3_eq_3 token_string_def del: event_loop.simps)
qed

theorem keep_alive_timeout_lost_witness:
  "\<exists>rq w'. request_cycle (\<lambda>_ _ _. Return) 2 E_Write 0
      ((assign 0 kept_request arriving_world)\<lparr>w_reads := (\<lambda>_. [R_Fail EAGAIN])\<rparr>) = Inr w'
    \<and> deref 0 w' = Inr rq \<and> rq_timeout rq = 20"
proof -
  let ?w = "(assign 0 kept_request arriving_world)\<lparr>w_reads := (\<lambda>_. [R_Fail EAGAIN])\<rparr>"
  have "case hs_write_socket 0 ?w of Inl e \<Rightarrow> False | Inr (rc, w) \<Rightarrow> rc = HS_WRITE_RC_SUCCESS" by code_simp
  then obtain w1 where w1: "hs_write_socket 0 ?w = Inr (HS_WRITE_RC_SUCCESS, w1)" by (auto split: sum.splits)
  have r: "deref 0 ?w = Inr kept_request" "length index_tokens < 100000000"
    "tokens_hold (rq_tokens kept_request) index_tokens" "rq_handler kept_request = client_handler (w_build ?w)" "w_shift ?w = 0"
    "w_reads ?w (rq_socket kept_request) = R_Fail EAGAIN # []"
    by (simp_all add: kept_request_def hs_request_init_def tokens_hold_def array_holds_def holds_def
        index_tokens_def arriving_world_def idle_world_def sample_world_def assign_def deref_def)
  from keep_alive_timeout_lost [where user = "\<lambda>_ _ _. Return" and n = 0, OF w1 r(1,3,2,4-6)] show ?thesis
    by (auto simp: numeral_2_eq_2 HTTP_REQUEST_TIMEOUT_def simp del: request_cycle.simps)
qed

end
