(* ===== verification/Unanswered.thy ===== *)
theory Unanswered
  imports Delivery
begin

text \<open>
  Requests that get no answer: bytes that the parser rejects, and requests whose sender closes its
  side right behind them.
\<close>

section \<open>No parse error is ever reported\<close>

abbreviation no_err :: "hsh_parser_s \<Rightarrow> bool" where
  "no_err ps \<equiv> tk_type (ps_token ps) \<noteq> HSH_TOK_ERR"

primrec ctl_parser :: "ctl \<Rightarrow> hsh_parser_s" where
  "ctl_parser (Cont x) = x_ps x"
| "ctl_parser (Stop x) = x_ps x"

lemma do_action_no_err:
  "do_action mv mx pe c a x = Inr y \<Longrightarrow> no_err (x_ps x) \<Longrightarrow> no_err (ctl_parser y)"
  by (cases a) (auto simp: HSH_ENTER_TOKEN_def act_body_def act_emit_token_def act_content_length_digit_def
      act_transfer_encoding_def act_reset_count_def act_inc_count_def act_done_headers_def act_chunk_start_def
      act_chunk_size_def act_chunk_read_def act_end_stream_def act_small_body_read_def act_large_body_read_def
      fbreak_def fhold_def Let_def set_ready_def set_done_def token_flag_set_def token_zero_def bindr_Inr_iff
      split: if_splits option.splits)

lemma run_actions_no_err:
  "run_actions mv mx pe c as x = Inr y \<Longrightarrow> no_err (x_ps x) \<Longrightarrow> no_err (ctl_parser y)"
  by (induction mv mx pe c as x rule: run_actions.induct) (fastforce dest: do_action_no_err split: sum.splits ctl.splits)+

lemma scan_no_err: "scan mv mx pe x = Inr y \<Longrightarrow> no_err (x_ps x) \<Longrightarrow> no_err (x_ps y)"
proof (induction mv mx pe x rule: scan.induct)
  case (1 mv mx pe x)
  from 1(2) obtain c r where c: "rd (bf_buf (x_bf x)) (x_p x) = Inr c"
    "run_actions mv mx pe c (snd (hsh_trans (x_cs x) c)) (x\<lparr>x_cs := fst (hsh_trans (x_cs x) c)\<rparr>) = Inr r"
    by (subst (asm) scan.simps) (auto split: sum.splits)
  with run_actions_no_err 1(3) have "no_err (ctl_parser r)" by fastforce
  with 1 c show ?case
    by (subst (asm) (2) scan.simps) (auto split: ctl.splits if_splits)
qed

lemma exec_no_err:
  assumes "hsh_parser_exec mv ps bf mx = Inr (t, ps', bf')" and "no_err ps"
  shows "tk_type t \<noteq> HSH_TOK_ERR \<and> no_err ps'"
proof (cases "HTTP_FLAG_CHECK (ps_flags ps) HSH_P_FLAG_DONE \<or> ps_sequence_id ps = bf_sequence_id bf")
  case True
  with assms show ?thesis by (auto simp: hsh_parser_exec_def token_none_def)
next
  case False
  with assms(1) obtain y where y: "scan_exec mv mx (bf_length bf)
      \<lparr>x_cs = ps_state ps, x_p = bf_index bf, x_ps = ps, x_bf = bf\<rparr> = Inr y"
    by (simp add: hsh_parser_exec_def bindr_Inr_iff) blast
  then have "no_err (x_ps y)"
    using assms(2) by (auto simp: scan_exec_def test_eof_def dest: scan_no_err split: if_splits)
  with y False assms(1) show ?thesis
    by (auto simp: hsh_parser_exec_def Let_def token_none_def split: if_splits)
qed

lemma parse_loop_no_err:
  assumes "parse_loop n call r mx w = Inr (rc, w')" and "deref r w = Inr rq" and "no_err (rq_parser rq)"
  shows "rc \<noteq> HS_READ_RC_PARSE_ERR"
  using assms
proof (induction n arbitrary: w rq)
  case (Suc n)
  from Suc.prems(1,2) obtain t ps bf where t: "hsh_parser_exec (w_shift w) (rq_parser rq) (rq_buffer rq) mx = Inr (t, ps, bf)"
    by (auto simp: parse_token_def bindr_Inr_iff)
  let ?w = "assign r (rq\<lparr>rq_parser := ps, rq_buffer := bf\<rparr>) w"
  note ne = exec_no_err [OF t Suc.prems(3)]
  from Suc.prems(1,2) t obtain res w1 where h: "handle_token call r t ?w = Inr (res, w1)"
    "case res of Some rc' \<Rightarrow> rc' = rc | None \<Rightarrow> parse_loop n call r mx w1 = Inr (rc, w')"
    by (auto simp: parse_token_def bindr_Inr_iff split: option.splits)
  show ?case
  proof (cases res)
    case None
    from handle_token_next(2) [OF h(1) [unfolded None] deref_assign] obtain rq' where
      "deref r w1 = Inr rq'" "rq_parser rq' = ps" by auto
    with Suc.IH [of w1 rq'] h(2) None ne show ?thesis by simp
  next
    case (Some rc')
    with h ne show ?thesis
      by (cases "tk_type t") (auto simp: handle_token_def bindr_Inr_iff split: if_splits)
  qed
qed simp

lemma read_request_parses:
  assumes "hs_read_request_and_exec_user_cb call r opts w = Inr (rc, w')" and "deref r w = Inr rq"
  shows "rc = HS_READ_RC_SOCKET_ERR \<or> (\<exists>w1 rq1 mx. hs_parse_buffer_and_exec_user_cb call r mx w1 = Inr (rc, w')
    \<and> deref r w1 = Inr rq1 \<and> rq_parser rq1 \<in> {rq_parser rq, hsh_parser_init})"
proof -
  let ?rq = "rq\<lparr>rq_state := HTTP_SESSION_READ, rq_timeout := HTTP_REQUEST_TIMEOUT\<rparr>"
  obtain rq1 w1 where st: "(if bf_buf (rq_buffer ?rq) = None
      then let (bf, memused) = hs_buffer_init (op_initial_request_buf_capacity opts) (w_memused w)
           in (?rq\<lparr>rq_buffer := bf, rq_parser := hsh_parser_init\<rparr>, set_memused memused w)
      else (?rq, w)) = (rq1, w1)"
    by (meson surj_pair)
  then have "rq_parser rq1 \<in> {rq_parser rq, hsh_parser_init}" by (auto split: if_splits prod.splits)
  with assms(1) show ?thesis
    unfolding hs_read_request_and_exec_user_cb_def assms(2) bindr_simps Let_def [of "rq\<lparr>rq_state := _, rq_timeout := _\<rparr>"] st
    by (fastforce simp: bindr_Inr_iff split: if_splits)
qed

text \<open>
  C34. No request is ever reported as malformed. The parser never returns the error token, so
  \<open>hs_read_request_and_exec_user_cb\<close> never returns the code for which the caller
  answers \<open>400 Bad Request\<close>.
\<close>

theorem parse_error_never_reported:
  assumes "hs_read_request_and_exec_user_cb call r opts w = Inr (rc, w')" and "deref r w = Inr rq"
    and "tk_type (ps_token (rq_parser rq)) \<noteq> HSH_TOK_ERR"
  shows "rc \<noteq> HS_READ_RC_PARSE_ERR"
proof -
  have "no_err hsh_parser_init" by (simp add: hsh_parser_init_def parser_zero_def token_zero_def)
  with read_request_parses [OF assms(1,2)] assms(3) show ?thesis
    by (auto simp: hs_parse_buffer_and_exec_user_cb_def bindr_Inr_iff dest: parse_loop_no_err)
qed

section \<open>Rejected bytes\<close>

text \<open>
  The automaton is in its error state. The action of the edge into it has moved the cursor behind
  the rejected byte, so the cursor is at the end of the data if that byte was the last one.
\<close>

definition rejected :: "http_request_s \<Rightarrow> bool" where
  "rejected rq \<longleftrightarrow> ps_state (rq_parser rq) = hsh_http_error \<and> \<not> ready (rq_parser rq) \<and> \<not> finished (rq_parser rq)
     \<and> bf_buf (rq_buffer rq) \<noteq> None \<and> 0 \<le> bf_index (rq_buffer rq)
     \<and> bf_index (rq_buffer rq) \<le> bf_length (rq_buffer rq) \<and> bf_length (rq_buffer rq) < 2147483648"

definition waited :: "http_request_s \<Rightarrow> http_request_s" where
  "waited rq = rq\<lparr>rq_timeout := HTTP_REQUEST_TIMEOUT,
     rq_parser := (rq_parser rq)\<lparr>ps_sequence_id := bf_sequence_id (rq_buffer rq)\<rparr>\<rparr>"

lemma waited_simps [simp]:
  "rejected (waited rq) = rejected rq" "waited (waited rq) = waited rq" "rq_state (waited rq) = rq_state rq"
  "rq_handler (waited rq) = rq_handler rq" "rq_buffer (waited rq) = rq_buffer rq"
  by (simp_all add: waited_def rejected_def ready_def finished_def)

lemma exec_rejected:
  assumes "rejected rq"
  shows "hsh_parser_exec mv (rq_parser rq) (rq_buffer rq) mx
    = Inr (token_none, (rq_parser rq)\<lparr>ps_sequence_id := bf_sequence_id (rq_buffer rq)\<rparr>, rq_buffer rq)"
proof (cases "ps_sequence_id (rq_parser rq) = bf_sequence_id (rq_buffer rq)")
  case True
  then have "(rq_parser rq)\<lparr>ps_sequence_id := bf_sequence_id (rq_buffer rq)\<rparr> = rq_parser rq"
    by (cases "rq_parser rq") simp
  with True show ?thesis by (simp add: hsh_parser_exec_def)
next
  case False
  with assms show ?thesis
    by (auto simp: rejected_def hsh_parser_exec_def scan_exec_def test_eof_def Let_def ready_def finished_def i32_id)
qed

lemma parse_rejected:
  assumes "rejected rq"
  shows "hs_parse_buffer_and_exec_user_cb call r mx (assign r (rq\<lparr>rq_timeout := HTTP_REQUEST_TIMEOUT\<rparr>) w)
    = Inr (HS_READ_RC_SUCCESS, assign r (waited rq) w)"
proof -
  let ?rq = "rq\<lparr>rq_timeout := HTTP_REQUEST_TIMEOUT\<rparr>"
  have tok: "parse_token mx r (assign r ?rq w) = Inr (token_none, assign r (waited rq) w)"
    using exec_rejected [OF assms] by (simp add: parse_token_def waited_def)
  have "handle_token call r token_none v = Inr (Some HS_READ_RC_SUCCESS, v)" for v
    by (rule handle_none) (simp add: token_none_def)
  then have "parse_loop (Suc m) call r mx (assign r ?rq w) = Inr (HS_READ_RC_SUCCESS, assign r (waited rq) w)" for m
    using tok by simp
  then show ?thesis
    by (simp add: hs_parse_buffer_and_exec_user_cb_def parse_fuel_def)
qed

text \<open>With bytes behind the cursor nothing is read; without, the next piece is read and kept.\<close>

lemma rejected_event:
  assumes "deref r w = Inr rq" and "rejected rq" and "rq_state rq = HTTP_SESSION_READ"
    and "bf_index (rq_buffer rq) < bf_length (rq_buffer rq)"
  shows "request_cycle user (Suc n) E_Read r w = Inr (assign r (waited rq) w)"
proof -
  have rq: "rq\<lparr>rq_state := HTTP_SESSION_READ, rq_timeout := HTTP_REQUEST_TIMEOUT\<rparr>
      = rq\<lparr>rq_timeout := HTTP_REQUEST_TIMEOUT\<rparr>" using assms(3) by simp
  obtain b where "\<not> hs_buffer_requires_read (rq_buffer rq)" "bf_buf (rq_buffer rq) = Some b"
    using assms(2,4) by (auto simp: rejected_def hs_buffer_requires_read_def)
  then show ?thesis
    using assms(1) rq parse_rejected [OF assms(2)]
    by (simp add: hs_read_socket_and_handle_return_code_def hs_read_request_and_exec_user_cb_def Let_def)
qed

lemma rejected_last_event:
  assumes "deref r w = Inr rq" and "rejected rq" and "rq_state rq = HTTP_SESSION_READ"
    and "bf_index (rq_buffer rq) = bf_length (rq_buffer rq)" and "buffer_holds (rq_buffer rq) xs"
    and "int (length (xs @ p)) < bf_capacity (rq_buffer rq)" and "bf_capacity (rq_buffer rq) < HTTP_MAX_REQUEST_BUF_SIZE"
    and "w_reads w (rq_socket rq) = arrives p @ evs"
  shows "\<exists>bf. request_cycle user (Suc n) E_Read r w
      = Inr (assign r (waited (rq\<lparr>rq_buffer := bf\<rparr>)) (reads_done (rq_socket rq) evs w))
    \<and> buffer_holds bf (xs @ p) \<and> bf_index bf = bf_index (rq_buffer rq) \<and> rejected (rq\<lparr>rq_buffer := bf\<rparr>)"
proof -
  let ?fd = "rq_socket rq"
  have rq: "rq\<lparr>rq_state := HTTP_SESSION_READ, rq_timeout := HTTP_REQUEST_TIMEOUT\<rparr>
      = rq\<lparr>rq_timeout := HTTP_REQUEST_TIMEOUT\<rparr>" using assms(3) by simp
  from read_piece [OF assms(5,6,7) _ assms(8)] obtain m where
    m: "hs_read_into_buffer (rq_buffer rq) ?fd HTTP_MAX_REQUEST_BUF_SIZE w
        = Inr (- 1, read_once (rq_buffer rq) m (int (length (xs @ p))), reads_done ?fd evs w)"
      "buffer_holds (read_once (rq_buffer rq) m (int (length (xs @ p)))) (xs @ p)"
    by (auto simp: HTTP_MAX_REQUEST_BUF_SIZE_def)
  define bf where "bf = read_once (rq_buffer rq) m (int (length (xs @ p)))"
  have len: "bf_length (rq_buffer rq) = int (length xs)" using assms(5) by (auto elim: buffer_holdsE)
  have h: "buffer_holds bf (xs @ p)" using m(2) by (simp only: bf_def)
  then have bf: "bf_buf bf \<noteq> None" "bf_length bf = int (length (xs @ p))" by (auto elim: buffer_holdsE)
  have idx: "bf_index bf = bf_index (rq_buffer rq)" by (simp add: bf_def read_once_def)
  have rej: "rejected (rq\<lparr>rq_buffer := bf\<rparr>)"
    using assms(2,4,6,7) bf idx len by (auto simp: rejected_def HTTP_MAX_REQUEST_BUF_SIZE_def)
  obtain b where b: "hs_buffer_requires_read (rq_buffer rq)" "bf_buf (rq_buffer rq) = Some b"
    using assms(2,4) by (auto simp: rejected_def hs_buffer_requires_read_def)
  have comm: "rq\<lparr>rq_timeout := HTTP_REQUEST_TIMEOUT, rq_buffer := bf\<rparr>
      = rq\<lparr>rq_buffer := bf, rq_timeout := HTTP_REQUEST_TIMEOUT\<rparr>" by simp
  from b have "request_cycle user (Suc n) E_Read r w
      = Inr (assign r (waited (rq\<lparr>rq_buffer := bf\<rparr>)) (reads_done ?fd evs w))"
    using assms(1) rq m(1) [folded bf_def] parse_rejected [OF rej, folded comm]
    by (simp add: hs_read_socket_and_handle_return_code_def hs_read_request_and_exec_user_cb_def Let_def
        read_opts_def)
  with rej idx h show ?thesis by blast
qed

text \<open>The event of the request's socket, in both builds.\<close>

lemma client_event:
  assumes "deref r w = Inr rq" and "rq_handler rq = client_handler (w_build w)" and "rq_state rq = HTTP_SESSION_READ"
  shows "handle_event (run_handler user (Suc n)) (Ev_Request r) w = request_cycle user (Suc n) E_Read r w"
  using assms
  by (cases "w_build w") (simp_all add: handle_event_def event_handler_def event_handler_kqueue_def
    event_handler_epoll_def run_handler_def kqueue_client_event hs_on_epoll_client_connection_event_def del: request_cycle.simps)

lemma rejected_events:
  assumes "deref r w = Inr rq" and "rejected rq" and "rq_state rq = HTTP_SESSION_READ"
    and "rq_handler rq = client_handler (w_build w)" and "bf_index (rq_buffer rq) < bf_length (rq_buffer rq)"
  shows "event_loop (run_handler user (Suc n)) (replicate (Suc k) (Ev_Request r)) w = Inr (assign r (waited rq) w)"
  using assms
proof (induction k arbitrary: w rq)
  case 0
  then show ?case using client_event rejected_event by (simp del: request_cycle.simps)
next
  case (Suc k)
  have one: "handle_event (run_handler user (Suc n)) (Ev_Request r) w = Inr (assign r (waited rq) w)"
    using client_event [OF Suc.prems(1,4,3)] rejected_event [OF Suc.prems(1-3,5)] by simp
  have "event_loop (run_handler user (Suc n)) (replicate (Suc k) (Ev_Request r)) (assign r (waited rq) w)
      = Inr (assign r (waited rq) w)"
    using Suc.IH [of "assign r (waited rq) w" "waited rq"] Suc.prems(2-5)
    by (simp add: assign_def deref_def del: event_loop.simps replicate_Suc)
  then show ?case using one by simp
qed

text \<open>
  C35. A request that the parser has rejected stalls, over any number of events on its socket.
  When received bytes remain behind the rejected one, no further byte is read from the socket and
  none is sent, whatever arrives: the events only set the time-out anew, so as long as the client
  keeps sending, the connection stays. When the rejected byte is the last one received, the first
  event reads the next piece (which is taken to fit the block) into the buffer, behind the
  rejected byte; it is not parsed, and from then on nothing is read and nothing is sent either.
\<close>

theorem rejected_request_stalls:
  assumes "deref r w = Inr rq" and "rejected rq" and "rq_state rq = HTTP_SESSION_READ"
    and "rq_handler rq = client_handler (w_build w)"
    and "bf_index (rq_buffer rq) = bf_length (rq_buffer rq) \<Longrightarrow>
      buffer_holds (rq_buffer rq) xs \<and> w_reads w (rq_socket rq) = arrives p @ evs \<and> p \<noteq> []
      \<and> int (length (xs @ p)) < bf_capacity (rq_buffer rq) \<and> bf_capacity (rq_buffer rq) < HTTP_MAX_REQUEST_BUF_SIZE"
  shows "if bf_index (rq_buffer rq) < bf_length (rq_buffer rq)
    then event_loop (run_handler user (Suc n)) (replicate (Suc k) (Ev_Request r)) w = Inr (assign r (waited rq) w)
    else \<exists>bf. event_loop (run_handler user (Suc n)) (replicate (Suc k) (Ev_Request r)) w
        = Inr (assign r (waited (rq\<lparr>rq_buffer := bf\<rparr>)) (reads_done (rq_socket rq) evs w))
      \<and> buffer_holds bf (xs @ p) \<and> bf_index bf = bf_index (rq_buffer rq)"
proof (cases "bf_index (rq_buffer rq) < bf_length (rq_buffer rq)")
  case True
  then show ?thesis using rejected_events [OF assms(1-4) True] by simp
next
  case False
  with assms(2) have eq: "bf_index (rq_buffer rq) = bf_length (rq_buffer rq)" by (simp add: rejected_def)
  let ?w = "reads_done (rq_socket rq) evs w"
  from rejected_last_event [OF assms(1-3) eq] assms(5) [OF eq] obtain bf where
    bf: "request_cycle user (Suc n) E_Read r w = Inr (assign r (waited (rq\<lparr>rq_buffer := bf\<rparr>)) ?w)"
      "buffer_holds bf (xs @ p)" "bf_index bf = bf_index (rq_buffer rq)" "rejected (rq\<lparr>rq_buffer := bf\<rparr>)"
    by blast
  let ?rq = "waited (rq\<lparr>rq_buffer := bf\<rparr>)"
  have first: "handle_event (run_handler user (Suc n)) (Ev_Request r) w = Inr (assign r ?rq ?w)"
    using client_event [OF assms(1,4,3)] bf(1) by simp
  have "bf_length bf = int (length (xs @ p))" "bf_length (rq_buffer rq) = int (length xs)"
    using bf(2) assms(5) [OF eq] by (auto elim: buffer_holdsE)
  then have unread: "bf_index bf < bf_length bf" using bf(3) eq assms(5) [OF eq] by simp
  have "event_loop (run_handler user (Suc n)) (replicate k (Ev_Request r)) (assign r ?rq ?w) = Inr (assign r ?rq ?w)"
  proof (cases k)
    case (Suc k')
    have "rq_state ?rq = HTTP_SESSION_READ" "rq_handler ?rq = client_handler (w_build (assign r ?rq ?w))"
      using assms(3,4) by (simp_all add: assign_def)
    then show ?thesis
      using rejected_events [of r "assign r ?rq ?w" ?rq user n k'] bf(4) unread Suc
      by (simp add: assign_def deref_def del: event_loop.simps replicate_Suc)
  qed simp
  with first bf(2,3) False show ?thesis by auto
qed

section \<open>A half-closed connection\<close>

text \<open>
  C36. A client that closes its sending side right behind its request is not answered. When the end
  of the stream is seen in the same event as the last bytes, the connection is dropped before those
  bytes are parsed: the request is freed, no user code has run, nothing has been sent.
\<close>

theorem half_closed_request_dropped:
  assumes "deref r w = Inr rq" and "bf_buf (rq_buffer rq) = None"
    and "w_reads w (rq_socket rq) = R_Data p # R_Eof # evs" and "p \<noteq> []" and "length p < 1024"
  shows "\<exists>w'. request_cycle user (Suc n) E_Read r w = Inr w' \<and> w_heap w' r = None \<and> w_sent w' = w_sent w
    \<and> Close (rq_socket rq) \<in> set (w_calls w')"
proof -
  define bf0 where "bf0 = fst (hs_buffer_init HTTP_REQUEST_BUF_SIZE 0)"
  let ?rq = "rq\<lparr>rq_state := HTTP_SESSION_READ, rq_timeout := HTTP_REQUEST_TIMEOUT, rq_buffer := bf0, rq_parser := hsh_parser_init\<rparr>"
  let ?w = "set_memused (i64 (w_memused w + HTTP_REQUEST_BUF_SIZE)) w"
  have b: "buffer_holds bf0 []" unfolding bf0_def by (rule buffer_init_holds) (simp add: HTTP_REQUEST_BUF_SIZE_def)
  have cap: "bf_capacity bf0 = 1024" "bf_index bf0 = 0" "bf_length bf0 = 0"
    by (simp_all add: bf0_def hs_buffer_init_def HTTP_REQUEST_BUF_SIZE_def buffer_zero_def)
  have "\<exists>m. hs_read_into_buffer bf0 (rq_socket rq) HTTP_MAX_REQUEST_BUF_SIZE ?w
    = Inr (0, read_once bf0 m (int (length ([] @ p))), ?w\<lparr>w_reads := (w_reads ?w)(rq_socket rq := R_Eof # evs)\<rparr>)"
    using b assms cap by (intro read_piece_eof) (auto simp: HTTP_MAX_REQUEST_BUF_SIZE_def set_memused_def)
  then obtain bf where rd: "hs_read_into_buffer bf0 (rq_socket rq) HTTP_MAX_REQUEST_BUF_SIZE ?w
    = Inr (0, bf, ?w\<lparr>w_reads := (w_reads ?w)(rq_socket rq := R_Eof # evs)\<rparr>)" by blast
  define v where "v = assign r (?rq\<lparr>rq_buffer := bf\<rparr>) (?w\<lparr>w_reads := (w_reads ?w)(rq_socket rq := R_Eof # evs)\<rparr>)"
  have init: "hs_buffer_init HTTP_REQUEST_BUF_SIZE m = (bf0, i64 (m + HTTP_REQUEST_BUF_SIZE))" for m
    by (simp add: bf0_def hs_buffer_init_def)
  have "hs_read_request_and_exec_user_cb call r read_opts w = Inr (HS_READ_RC_SOCKET_ERR, v)" for call
    using assms(1,2) rd cap
    by (simp add: hs_read_request_and_exec_user_cb_def Let_def read_opts_def init hs_buffer_requires_read_def v_def)
  then have e: "request_cycle user (Suc n) E_Read r w = hs_request_terminate_connection r v"
    by (simp add: hs_read_socket_and_handle_return_code_def)
  have d: "deref r v = Inr (?rq\<lparr>rq_buffer := bf\<rparr>)" by (simp add: v_def)
  from terminate_total [OF d] obtain m where "hs_request_terminate_connection r v = Inr (freed (w_build v) r (?rq\<lparr>rq_buffer := bf\<rparr>) m v)"
    by blast
  moreover have "w_sent v = w_sent w" by (simp add: v_def assign_def set_memused_def)
  ultimately show ?thesis using e by (simp add: freed_def set_memused_def)
qed

section \<open>Instances\<close>

text \<open>A new connection on which the given events happen.\<close>

definition new_connection :: "read_event list \<Rightarrow> world" where
  "new_connection evs = assign 0 (hs_request_init 7 On_Client_Connection)
     (sample_world\<lparr>w_next := 1, w_reads := (\<lambda>_. [])(7 := evs)\<rparr>)"

definition bad_bytes :: string where "bad_bytes = [lf] @ ''x''"

text \<open>The options of the server, with a small buffer.\<close>

definition small_opts :: hs_read_opts_s where
  "small_opts = \<lparr>op_max_request_buf_capacity = 64, op_eof_rc = 0, op_initial_request_buf_capacity = 16\<rparr>"

definition bad_read :: "(hs_read_rc_e \<times> world) result" where
  "bad_read = hs_read_request_and_exec_user_cb (\<lambda>_ _. Inr) 0 small_opts (new_connection [R_Data bad_bytes])"

definition stalls :: "string \<Rightarrow> (hs_read_rc_e \<times> world) result \<Rightarrow> bool" where
  "stalls xs res = (case res of Inl e \<Rightarrow> False
    | Inr (rc, w) \<Rightarrow> w_build w = EPOLL \<and> (case w_heap w 0 of None \<Rightarrow> False
        | Some rq \<Rightarrow> rejected rq \<and> rq_state rq = HTTP_SESSION_READ \<and> rq_handler rq = On_Client_Connection
            \<and> bf_index (rq_buffer rq) = 1 \<and> buffer_holds (rq_buffer rq) xs \<and> bf_capacity (rq_buffer rq) = 16
            \<and> rq_socket rq = 7))"

lemma bad_read_stalls: "stalls bad_bytes bad_read"
  by code_simp

text \<open>The same with the rejected byte alone; the rest of the line comes later.\<close>

definition bad_last :: "(hs_read_rc_e \<times> world) result" where
  "bad_last = hs_read_request_and_exec_user_cb (\<lambda>_ _. Inr) 0 small_opts
     (new_connection (arrives [lf] @ arrives ''abc''))"

lemma bad_last_stalls: "stalls [lf] bad_last"
  by code_simp

definition left_to_read :: "(hs_read_rc_e \<times> world) result \<Rightarrow> read_event list \<Rightarrow> bool" where
  "left_to_read res evs = (case res of Inl e \<Rightarrow> False | Inr (rc, w) \<Rightarrow> w_reads w 7 = evs)"

lemma bad_last_left: "left_to_read bad_last (arrives ''abc'')"
  by code_simp

theorem parse_error_never_reported_witness:
  "\<exists>rc w'. bad_read = Inr (rc, w') \<and> rc \<noteq> HS_READ_RC_PARSE_ERR"
proof -
  from bad_read_stalls obtain rc w' where r: "bad_read = Inr (rc, w')" by (auto simp: stalls_def split: sum.splits)
  have d: "deref 0 (new_connection [R_Data bad_bytes]) = Inr (hs_request_init 7 On_Client_Connection)"
    by (simp add: new_connection_def)
  have "tk_type (ps_token (rq_parser (hs_request_init 7 On_Client_Connection))) \<noteq> HSH_TOK_ERR"
    by (simp add: hs_request_init_def parser_zero_def token_zero_def)
  from parse_error_never_reported [OF r [unfolded bad_read_def] d this] r show ?thesis by blast
qed

theorem rejected_request_stalls_witness:
  "(\<exists>rc w rq. bad_read = Inr (rc, w) \<and> deref 0 w = Inr rq
    \<and> event_loop (run_handler (\<lambda>_ _ _. Return) 1) (replicate 3 (Ev_Request 0)) w = Inr (assign 0 (waited rq) w))
   \<and> (\<exists>rc w rq bf. bad_last = Inr (rc, w) \<and> deref 0 w = Inr rq
    \<and> event_loop (run_handler (\<lambda>_ _ _. Return) 1) (replicate 3 (Ev_Request 0)) w
        = Inr (assign 0 (waited (rq\<lparr>rq_buffer := bf\<rparr>)) (reads_done 7 [] w))
    \<and> buffer_holds bf ([lf] @ ''abc'') \<and> bf_index bf = 1)"
proof
  have three: "replicate 3 (Ev_Request 0) = replicate (Suc 2) (Ev_Request 0)" by (simp add: numeral_3_eq_3)
  from bad_read_stalls obtain rc w rq where r: "bad_read = Inr (rc, w)" "deref 0 w = Inr rq" "rejected rq"
    "rq_state rq = HTTP_SESSION_READ" "rq_handler rq = client_handler (w_build w)" "bf_index (rq_buffer rq) = 1"
    "buffer_holds (rq_buffer rq) bad_bytes"
    by (auto simp: stalls_def deref_def split: sum.splits option.splits)
  have "bf_length (rq_buffer rq) = 2" using r(7) by (auto simp: bad_bytes_def elim: buffer_holdsE)
  have "event_loop (run_handler (\<lambda>_ _ _. Return) 1) (replicate 3 (Ev_Request 0)) w = Inr (assign 0 (waited rq) w)"
    using rejected_request_stalls [OF r(2-5), of "[]" "[]" "[]" "\<lambda>_ _ _. Return" 0 2] \<open>bf_length _ = 2\<close> r(6)
    unfolding three One_nat_def by (simp del: event_loop.simps replicate_Suc)
  with r(1,2) show "\<exists>rc w rq. bad_read = Inr (rc, w) \<and> deref 0 w = Inr rq
    \<and> event_loop (run_handler (\<lambda>_ _ _. Return) 1) (replicate 3 (Ev_Request 0)) w = Inr (assign 0 (waited rq) w)"
    by blast
next
  have three: "replicate 3 (Ev_Request 0) = replicate (Suc 2) (Ev_Request 0)" by (simp add: numeral_3_eq_3)
  from bad_last_stalls obtain rc w rq where r: "bad_last = Inr (rc, w)" "deref 0 w = Inr rq" "rejected rq"
    "rq_state rq = HTTP_SESSION_READ" "rq_handler rq = client_handler (w_build w)" "bf_index (rq_buffer rq) = 1"
    "buffer_holds (rq_buffer rq) [lf]" "bf_capacity (rq_buffer rq) = 16" "rq_socket rq = 7"
    by (auto simp: stalls_def deref_def split: sum.splits option.splits)
  have reads: "w_reads w 7 = arrives ''abc''" using bad_last_left unfolding r(1) by (simp add: left_to_read_def)
  have "bf_length (rq_buffer rq) = 1" using r(7) by (auto elim: buffer_holdsE)
  then have late: "buffer_holds (rq_buffer rq) [lf] \<and> w_reads w (rq_socket rq) = arrives ''abc'' @ [] \<and> ''abc'' \<noteq> []
      \<and> int (length ([lf] @ ''abc'')) < bf_capacity (rq_buffer rq) \<and> bf_capacity (rq_buffer rq) < HTTP_MAX_REQUEST_BUF_SIZE"
    using r(7-9) reads by (simp add: HTTP_MAX_REQUEST_BUF_SIZE_def)
  have "\<exists>bf. event_loop (run_handler (\<lambda>_ _ _. Return) 1) (replicate 3 (Ev_Request 0)) w
        = Inr (assign 0 (waited (rq\<lparr>rq_buffer := bf\<rparr>)) (reads_done 7 [] w))
      \<and> buffer_holds bf ([lf] @ ''abc'') \<and> bf_index bf = 1"
    using rejected_request_stalls [OF r(2-5) late, of "\<lambda>_ _ _. Return" 0 2] \<open>bf_length _ = 1\<close> r(6,9)
    unfolding three One_nat_def by (metis less_irrefl)
  with r(1,2) show "\<exists>rc w rq bf. bad_last = Inr (rc, w) \<and> deref 0 w = Inr rq
    \<and> event_loop (run_handler (\<lambda>_ _ _. Return) 1) (replicate 3 (Ev_Request 0)) w
        = Inr (assign 0 (waited (rq\<lparr>rq_buffer := bf\<rparr>)) (reads_done 7 [] w))
    \<and> buffer_holds bf ([lf] @ ''abc'') \<and> bf_index bf = 1"
    by blast
qed

theorem half_closed_request_dropped_witness:
  "\<exists>w'. request_cycle (\<lambda>_ _ _. Return) 2 E_Read 0 (new_connection [R_Data sample_head, R_Eof]) = Inr w'
    \<and> w_heap w' 0 = None \<and> w_sent w' = (\<lambda>_. []) \<and> Close 7 \<in> set (w_calls w')"
proof -
  let ?w = "new_connection [R_Data sample_head, R_Eof]" and ?rq = "hs_request_init 7 On_Client_Connection"
  have r: "deref 0 ?w = Inr ?rq" "bf_buf (rq_buffer ?rq) = None" "w_reads ?w (rq_socket ?rq) = R_Data sample_head # R_Eof # []"
    "w_sent ?w = (\<lambda>_. [])" "rq_socket ?rq = 7"
    by (simp_all add: new_connection_def hs_request_init_def buffer_zero_def assign_def deref_def sample_world_def)
  have "sample_head \<noteq> []" "length sample_head < 1024" by code_simp+
  from half_closed_request_dropped [OF r(1-3) this, of "\<lambda>_ _ _. Return" 1] r(4,5) show ?thesis
    by (simp add: numeral_2_eq_2 del: request_cycle.simps)
qed

end
