(* ===== verification/Bodies.thy ===== *)
theory Bodies
  imports Delivery
begin

text \<open>
  A request with a small body, from its bytes to the user: the head is parsed as it arrives, then
  the parser waits for the body in the same buffer.
\<close>

section \<open>One call of the parser on a small body\<close>

definition small_token :: "int \<Rightarrow> int \<Rightarrow> hsh_token_s" where
  "small_token a n = \<lparr>tk_type = HSH_TOK_BODY, tk_flags = HSH_TOK_FLAG_SMALL_BODY, tk_len = n, tk_index = a\<rparr>"

definition small_wait :: "int \<Rightarrow> hsh_parser_s \<Rightarrow> int \<Rightarrow> bool" where
  "small_wait n ps a \<longleftrightarrow>
     (ps_state ps = gcode G_Small \<or> ps_state ps = gcode G_Small_Rest \<and> ps_token ps = small_token a n)
     \<and> ps_content_length ps = n \<and> \<not> ready ps \<and> \<not> finished ps"

lemma small_edges:
  "hsh_trans (gcode G_Small) c = (gcode G_Small_Rest, [A_body, A_small_body_read])"
  "hsh_trans (gcode G_Small_Rest) c = (gcode G_Small_Rest, [A_small_body_read])"
  "gcode G_Small \<noteq> hsh_http_error" "gcode G_Small_Rest \<noteq> hsh_http_error"
  using hsh_trans_gstep [of G_Small c] hsh_trans_gstep [of G_Small_Rest c]
  by (simp_all add: gpos_ok_def hsh_http_error_def)

lemma token_fields: "t\<lparr>tk_type := ty, tk_index := i, tk_len := l, tk_flags := f\<rparr>
    = \<lparr>tk_type = ty, tk_flags = f, tk_len = l, tk_index = i\<rparr>"
  by (cases t) simp

lemma ready_after_small:
  assumes "\<not> ready ps"
  shows "ready (set_done (set_ready ps))" "\<not> ready (ps\<lparr>ps_token := t\<rparr>)"
proof -
  have "HTTP_FLAG_CHECK (HTTP_FLAG_SET (HTTP_FLAG_SET f HSH_P_FLAG_TOKEN_READY) HSH_P_FLAG_DONE) HSH_P_FLAG_TOKEN_READY" for f
    unfolding flag_ops by (simp add: bit.conj_disj_distrib2 HSH_P_FLAG_TOKEN_READY_def)
  then show "ready (set_done (set_ready ps))" by (simp add: ready_def set_done_def set_ready_def)
qed (use assms in \<open>simp add: ready_def\<close>)

lemma exec_small:
  assumes w: "small_wait n ps a" and r: "received bf data" and seq: "ps_sequence_id ps \<noteq> bf_sequence_id bf"
    and i: "0 \<le> bf_index bf" "bf_index bf < int (length data)" and a: "bf_after_headers_index bf = a" "0 < n" "n < 2147483648"
  shows "\<exists>ps'. hsh_parser_exec mv ps bf mx
      = Inr (if a + n - 1 \<le> int (length data) then small_token a n else token_none, ps', bf\<lparr>bf_index := int (length data)\<rparr>)
    \<and> (a + n - 1 \<le> int (length data) \<or> small_wait n ps' a \<and> ps_sequence_id ps' = bf_sequence_id bf)"
proof -
  let ?x = "\<lparr>x_cs = ps_state ps, x_p = bf_index bf, x_ps = ps, x_bf = bf\<rparr>"
  have len: "bf_length bf = int (length data)" "length data < 2147483648" "holds (bf_buf bf) data"
    using r by (simp_all add: received_def)
  then have c: "rd (bf_buf bf) (bf_index bf) = Inr (data ! nat (bf_index bf))" using i by (simp add: rd_holds)
  let ?c = "data ! nat (bf_index bf)"
  let ?ps = "ps\<lparr>ps_token := small_token a n\<rparr>"
  let ?ps' = "if a + n - 1 \<le> int (length data) then set_done (set_ready ?ps) else ?ps"
  let ?y = "\<lparr>x_cs = gcode G_Small_Rest, x_p = int (length data), x_ps = ?ps', x_bf = bf\<rparr>"
  have n: "i32 n = n" using a by (simp add: i32_id)
  have "run_actions mv mx (bf_length bf) ?c (snd (hsh_trans (ps_state ps) ?c)) (?x\<lparr>x_cs := fst (hsh_trans (ps_state ps) ?c)\<rparr>)
      = Inr (Stop ?y)"
    using w
  proof (cases "ps_state ps = gcode G_Small")
    case True
    with w a n len show ?thesis
      unfolding True small_edges
      by (auto simp: small_wait_def act_body_def act_small_body_read_def Let_def fbreak_def fhold_def
        small_token_def token_flag_set_def flag_ops token_fields)
  next
    case False
    with w have t: "ps_state ps = gcode G_Small_Rest" "ps_token ps = small_token a n" by (auto simp: small_wait_def)
    with w a n len show ?thesis
      unfolding t(1) small_edges
      by (auto simp: small_wait_def act_small_body_read_def Let_def fbreak_def fhold_def
        small_token_def token_flag_set_def flag_ops)
  qed
  then have "scan mv mx (bf_length bf) ?x = Inr ?y"
    using c by (subst scan.simps) (simp add: small_edges)
  moreover have "ps_state ps \<noteq> hsh_http_error" using w small_edges(3,4) by (auto simp: small_wait_def)
  ultimately have s: "scan_exec mv mx (bf_length bf) ?x = Inr ?y" using i len by (simp add: scan_exec_def)
  have nf: "\<not> HTTP_FLAG_CHECK (ps_flags ps) HSH_P_FLAG_DONE" "\<not> ready ps" using w by (auto simp: small_wait_def finished_def)
  have idx: "i32 (int (length data)) = int (length data)" using len by (simp add: i32_id)
  show ?thesis
  proof (cases "a + n - 1 \<le> int (length data)")
    case True
    with ready_after_small(1) [of ?ps] ready_after_small(2) [OF nf(2), of "small_token a n"]
    have "HTTP_FLAG_CHECK (ps_flags (set_done (set_ready ?ps))) HSH_P_FLAG_TOKEN_READY" by (simp add: ready_def)
    with True nf seq s idx show ?thesis
      by (simp add: hsh_parser_exec_def Let_def set_done_def set_ready_def)
  next
    case False
    with nf seq s idx w show ?thesis
      by (simp add: hsh_parser_exec_def Let_def ready_def small_wait_def finished_def)
  qed
qed

lemma exec_small_end:
  assumes w: "small_wait n ps a" and r: "received bf data" "bf_buf bf \<noteq> None" and seq: "ps_sequence_id ps \<noteq> bf_sequence_id bf"
    and i: "bf_index bf = int (length data)"
  shows "hsh_parser_exec mv ps bf mx = Inr (token_none, ps\<lparr>ps_sequence_id := bf_sequence_id bf\<rparr>, bf)"
proof -
  have "i32 (bf_index bf) = bf_index bf" using r i by (simp add: i32_id received_def)
  with assms show ?thesis
    by (auto simp: hsh_parser_exec_def scan_exec_def test_eof_def received_def small_wait_def ready_def finished_def Let_def)
qed

section \<open>The parse loop on a small body\<close>

lemma parse_loop_first:
  assumes "deref r w = Inr rq" and "hsh_parser_exec (w_shift w) (rq_parser rq) (rq_buffer rq) mx = Inr (t, ps, bf)"
  shows "parse_loop (Suc k) call r mx w
    = bindr (handle_token call r t (assign r (rq\<lparr>rq_parser := ps, rq_buffer := bf\<rparr>) w))
        (\<lambda>(rc, w). case rc of Some rc \<Rightarrow> Inr (rc, w) | None \<Rightarrow> parse_loop k call r mx w)"
  using assms by (simp add: parse_token_def)

text \<open>A request in the loop: what arrived is \<open>data\<close>, its body of \<open>n\<close> bytes begins at \<open>a\<close>.\<close>

definition in_body :: "int \<Rightarrow> int \<Rightarrow> hsh_token_s list \<Rightarrow> http_request_s \<Rightarrow> string \<Rightarrow> bool" where
  "in_body a n us rq data \<longleftrightarrow>
     (let bf = rq_buffer rq in
        small_wait n (rq_parser rq) a \<and> bf_after_headers_index bf = a \<and> 0 < n \<and> n < 2147483648
        \<and> buffer_holds bf data \<and> length data < 1024 \<and> 0 \<le> bf_index bf \<and> bf_index bf \<le> int (length data)
        \<and> ps_sequence_id (rq_parser rq) \<noteq> bf_sequence_id bf
        \<and> tokens_hold (rq_tokens rq) us \<and> length us < 268435456)"

lemma loop_small_waits:
  assumes "in_body a n us rq data" and "deref r w = Inr rq"
    and "bf_index (rq_buffer rq) = int (length data) \<or> int (length data) < a + n - 1"
  shows "\<exists>ps. parse_loop (Suc k) call r mx w = Inr (HS_READ_RC_SUCCESS,
      assign r (rq\<lparr>rq_parser := ps, rq_buffer := (rq_buffer rq)\<lparr>bf_index := int (length data)\<rparr>\<rparr>) w)
    \<and> small_wait n ps a \<and> ps_sequence_id ps = bf_sequence_id (rq_buffer rq)"
proof -
  let ?bf = "rq_buffer rq"
  note b = assms(1) [unfolded in_body_def Let_def]
  have rc: "received ?bf data" "bf_buf ?bf \<noteq> None" using b buffer_holds_received [of ?bf data] by auto
  have "\<exists>ps. hsh_parser_exec (w_shift w) (rq_parser rq) ?bf mx = Inr (token_none, ps, ?bf\<lparr>bf_index := int (length data)\<rparr>)
    \<and> small_wait n ps a \<and> ps_sequence_id ps = bf_sequence_id ?bf"
  proof (cases "bf_index ?bf = int (length data)")
    case True
    have "?bf\<lparr>bf_index := int (length data)\<rparr> = ?bf" unfolding True [symmetric] by simp
    moreover have "small_wait n ((rq_parser rq)\<lparr>ps_sequence_id := s\<rparr>) a" for s
      using b by (simp add: small_wait_def ready_def finished_def)
    ultimately show ?thesis using exec_small_end [OF _ rc _ True] b by auto
  next
    case False
    with assms(3) b have "\<not> a + n - 1 \<le> int (length data)" "bf_index ?bf < int (length data)" by auto
    with exec_small [of n "rq_parser rq" a ?bf data "w_shift w" mx] rc(1) b show ?thesis by auto
  qed
  then obtain ps where ps: "hsh_parser_exec (w_shift w) (rq_parser rq) ?bf mx = Inr (token_none, ps, ?bf\<lparr>bf_index := int (length data)\<rparr>)"
    "small_wait n ps a" "ps_sequence_id ps = bf_sequence_id ?bf" by blast
  have "handle_token call r token_none v = Inr (Some HS_READ_RC_SUCCESS, v)" for v
    by (rule handle_none) (simp add: token_none_def)
  with parse_loop_first [OF assms(2) ps(1)] ps(2,3) show ?thesis by auto
qed

lemma loop_small_calls:
  assumes "in_body a n us rq data" and "deref r w = Inr rq"
    and "bf_index (rq_buffer rq) < int (length data)" and "a + n - 1 \<le> int (length data)"
  shows "\<exists>rq'. parse_loop (Suc k) call r mx w
      = bindr (call (sv_request_handler (w_server w)) r (assign r rq' w)) (\<lambda>w. Inr (HS_READ_RC_SUCCESS, w))
    \<and> rq_buffer rq' = (rq_buffer rq)\<lparr>bf_index := int (length data)\<rparr>
    \<and> tokens_hold (rq_tokens rq') (us @ [small_token a n])"
proof -
  let ?bf = "rq_buffer rq"
  note b = assms(1) [unfolded in_body_def Let_def]
  have rc: "received ?bf data" using b buffer_holds_received [of ?bf data] by auto
  from exec_small [of n "rq_parser rq" a ?bf data "w_shift w" mx] rc b assms(3,4) obtain ps where
    ps: "hsh_parser_exec (w_shift w) (rq_parser rq) ?bf mx = Inr (small_token a n, ps, ?bf\<lparr>bf_index := int (length data)\<rparr>)"
    by auto
  let ?rq = "rq\<lparr>rq_parser := ps, rq_buffer := ?bf\<lparr>bf_index := int (length data)\<rparr>\<rparr>"
  have th: "tokens_hold (rq_tokens ?rq) us" "length us < 268435456" using b by simp_all
  from push_token_holds [where t = "small_token a n", OF deref_assign [of r ?rq w] th] obtain arr where
    a: "push_token r (small_token a n) (assign r ?rq w) = Inr (assign r (?rq\<lparr>rq_tokens := arr\<rparr>) w)"
      "tokens_hold arr (us @ [small_token a n])" by auto
  have "HTTP_FLAG_CHECK HSH_TOK_FLAG_SMALL_BODY HSH_TOK_FLAG_SMALL_BODY" by code_simp
  then have "handle_token call r (small_token a n) (assign r ?rq w)
      = bindr (call (sv_request_handler (w_server w)) r (assign r (?rq\<lparr>rq_tokens := arr, rq_state := HTTP_SESSION_NOP\<rparr>) w))
          (\<lambda>w. Inr (Some HS_READ_RC_SUCCESS, w))"
    using a(1) by (simp add: handle_token_def small_token_def exec_request_handler_def hs_exec_callback_def modify_def)
  with parse_loop_first [OF assms(2) ps] have "parse_loop (Suc k) call r mx w
      = bindr (call (sv_request_handler (w_server w)) r (assign r (?rq\<lparr>rq_tokens := arr, rq_state := HTTP_SESSION_NOP\<rparr>) w))
          (\<lambda>w. Inr (HS_READ_RC_SUCCESS, w))"
    by (simp add: bindr_assoc del: parse_loop.simps)
  with a(2) show ?thesis
    by (intro exI [of _ "?rq\<lparr>rq_tokens := arr, rq_state := HTTP_SESSION_NOP\<rparr>"]) simp
qed

section \<open>A connection that waits for a small body\<close>

text \<open>A head that announces \<open>n\<close> bytes, with which it fits into the first buffer.\<close>

definition small_post :: "request_head \<Rightarrow> nat \<Rightarrow> bool" where
  "small_post h n \<longleftrightarrow> head_ok h \<and> announced_length (hd_headers h) 0 = int n \<and> 0 < n
     \<and> \<not> announced_chunked (hd_headers h) False \<and> length (render_head h) + n < 1024"

lemma small_post_facts:
  assumes "small_post h n"
  defines "i \<equiv> int (length (render_head h))"
  shows "short_head h" "head_flags max_buf i (int n) False = 0" "body_pos max_buf i (int n) False = G_Small"
    "bf_capacity bf = HTTP_REQUEST_BUF_SIZE \<Longrightarrow>
       head_buffer max_buf i (int n) False bf = bf\<lparr>bf_after_headers_index := i, bf_index := i\<rparr>"
  using assms by (simp_all add: small_post_def short_head_def head_flags_def body_pos_def head_buffer_def max_buf
      HTTP_REQUEST_BUF_SIZE_def del: One_nat_def)

text \<open>The tokens of the head, and where they are among the bytes received.\<close>

definition head_read :: "hsh_token_s list \<Rightarrow> request_head \<Rightarrow> hsh_token_s list \<Rightarrow> string \<Rightarrow> bool" where
  "head_read old h us xs \<longleftrightarrow> (\<exists>ts. us = old @ ts @ [headers_done 0] \<and> length ts \<le> 4096
     \<and> map (slice xs) ts @ [(HSH_TOK_HEADERS_DONE, [])] = head_parts h \<and> list_all (in_text xs) ts)"

definition awaiting :: "hsh_token_s list \<Rightarrow> request_head \<Rightarrow> nat \<Rightarrow> http_request_s \<Rightarrow> string \<Rightarrow> bool" where
  "awaiting old h n rq xs \<longleftrightarrow>
     drained rq xs \<and> length xs < 1024 \<and> length old < 100000000
     \<and> bf_after_headers_index (rq_buffer rq) = int (length (render_head h))
     \<and> - 128 \<le> bf_sequence_id (rq_buffer rq) \<and> bf_sequence_id (rq_buffer rq) < 128
     \<and> small_wait (int n) (rq_parser rq) (int (length (render_head h)))
     \<and> ps_sequence_id (rq_parser rq) = bf_sequence_id (rq_buffer rq)
     \<and> (\<exists>us. tokens_hold (rq_tokens rq) us \<and> head_read old h us xs)"

text \<open>The request as the user's callback finds it, its body at the end of the array.\<close>

definition delivered_body :: "hsh_token_s list \<Rightarrow> request_head \<Rightarrow> nat \<Rightarrow> string \<Rightarrow> http_request_s \<Rightarrow> bool" where
  "delivered_body old h n xs rq \<longleftrightarrow>
     (\<exists>tts. array_holds (rq_tokens rq) (old @ map fst tts @ [small_token (int (length (render_head h))) (int n)])
       \<and> list_all (\<lambda>(t, s). token_text (bf_buf (rq_buffer rq)) t s) tts
       \<and> map (\<lambda>(t, s). (tk_type t, s)) tts = head_parts h)
     \<and> buffer_holds (rq_buffer rq) xs"

lemma slice_append: "in_text xs t \<Longrightarrow> slice (xs @ p) t = slice xs t \<and> in_text (xs @ p) t"
  by (auto simp: slice_def in_text_def)

lemma head_read_append: "head_read old h us xs \<Longrightarrow> head_read old h us (xs @ p)"
proof -
  assume "head_read old h us xs"
  then obtain ts where t: "us = old @ ts @ [headers_done 0]" "length ts \<le> 4096"
    "map (slice xs) ts @ [(HSH_TOK_HEADERS_DONE, [])] = head_parts h" "list_all (in_text xs) ts"
    by (auto simp: head_read_def)
  from t(4) have m: "map (slice (xs @ p)) ts = map (slice xs) ts" "list_all (in_text (xs @ p)) ts"
    by (auto simp: list_all_iff slice_append)
  have "map (slice (xs @ p)) ts @ [(HSH_TOK_HEADERS_DONE, [])] = head_parts h" unfolding m(1) by (rule t(3))
  with t(1,2) m(2) show ?thesis unfolding head_read_def by blast
qed

lemma head_read_delivered:
  assumes "head_read old h us xs" and "tokens_hold (rq_tokens rq) (us @ [small_token (int (length (render_head h))) (int n)])"
    and "buffer_holds (rq_buffer rq) xs"
  shows "delivered_body old h n xs rq"
proof -
  from assms(1) obtain ts where t: "us = old @ ts @ [headers_done 0]"
    "map (slice xs) ts @ [(HSH_TOK_HEADERS_DONE, [])] = head_parts h" "list_all (in_text xs) ts"
    by (auto simp: head_read_def)
  let ?tts = "map (\<lambda>t. (t, snd (slice xs t))) ts @ [(headers_done 0, [])]"
  have "holds (bf_buf (rq_buffer rq)) xs" using assms(3) by (auto elim: buffer_holdsE)
  then have "list_all (\<lambda>(t, s). token_text (bf_buf (rq_buffer rq)) t s) ?tts"
    using t(3) token_text_slice by (auto simp: list_all_iff token_text_def headers_done_def)
  moreover have "map (\<lambda>(t, s). (tk_type t, s)) ?tts = head_parts h"
    unfolding t(2) [symmetric] by (simp add: slice_def headers_done_def)
  moreover have "array_holds (rq_tokens rq) (old @ map fst ?tts @ [small_token (int (length (render_head h))) (int n)])"
    using assms(2) t(1) by (simp add: tokens_hold_def comp_def)
  ultimately show ?thesis unfolding delivered_body_def using assms(3) by blast
qed

text \<open>What a round of the loop makes of a request in its body, as the state to wait in or as the call.\<close>

definition body_step :: "callback \<Rightarrow> hsh_token_s list \<Rightarrow> request_head \<Rightarrow> nat \<Rightarrow> string \<Rightarrow> bool \<Rightarrow> http_request_s
    \<Rightarrow> ptr \<Rightarrow> world \<Rightarrow> (hs_read_rc_e \<times> world) result \<Rightarrow> bool" where
  "body_step call old h n xs complete rq r w res \<longleftrightarrow>
     (if complete
      then \<exists>rq'. res = bindr (call (sv_request_handler (w_server w)) r (assign r rq' w)) (\<lambda>w. Inr (HS_READ_RC_SUCCESS, w))
             \<and> delivered_body old h n xs rq'
      else \<exists>rq'. res = Inr (HS_READ_RC_SUCCESS, assign r rq' w) \<and> awaiting old h n rq' xs
             \<and> rq_socket rq' = rq_socket rq \<and> rq_handler rq' = rq_handler rq \<and> rq_state rq' = rq_state rq
             \<and> rq_timeout rq' = rq_timeout rq)"

lemma loop_body_step:
  assumes b: "in_body (int (length (render_head h))) (int n) us rq xs" and d: "deref r w = Inr rq"
    and t: "head_read old h us xs" "length old < 100000000" "bf_capacity (rq_buffer rq) = HTTP_REQUEST_BUF_SIZE"
    and q: "- 128 \<le> bf_sequence_id (rq_buffer rq)" "bf_sequence_id (rq_buffer rq) < 128"
  shows "body_step call old h n xs
    (bf_index (rq_buffer rq) < int (length xs) \<and> int (length (render_head h)) + int n - 1 \<le> int (length xs)) rq r w
    (parse_loop (Suc k) call r mx w)"
proof (cases "bf_index (rq_buffer rq) < int (length xs) \<and> int (length (render_head h)) + int n - 1 \<le> int (length xs)")
  case True
  note bd = b [unfolded in_body_def Let_def]
  from loop_small_calls [where call = call and k = k and mx = mx, OF b d] True obtain rq' where
    r: "parse_loop (Suc k) call r mx w = bindr (call (sv_request_handler (w_server w)) r (assign r rq' w)) (\<lambda>w. Inr (HS_READ_RC_SUCCESS, w))"
    "rq_buffer rq' = (rq_buffer rq)\<lparr>bf_index := int (length xs)\<rparr>"
    "tokens_hold (rq_tokens rq') (us @ [small_token (int (length (render_head h))) (int n)])" by blast
  have "buffer_holds (rq_buffer rq') xs" using r(2) bd by simp
  from head_read_delivered [OF t(1) r(3) this] r(1) True show ?thesis by (auto simp: body_step_def)
next
  case False
  note bd = b [unfolded in_body_def Let_def]
  from loop_small_waits [where call = call and k = k and mx = mx, OF b d] False bd obtain ps where
    r: "parse_loop (Suc k) call r mx w = Inr (HS_READ_RC_SUCCESS,
      assign r (rq\<lparr>rq_parser := ps, rq_buffer := (rq_buffer rq)\<lparr>bf_index := int (length xs)\<rparr>\<rparr>) w)"
    "small_wait (int n) ps (int (length (render_head h)))" "ps_sequence_id ps = bf_sequence_id (rq_buffer rq)" by fastforce
  let ?rq = "rq\<lparr>rq_parser := ps, rq_buffer := (rq_buffer rq)\<lparr>bf_index := int (length xs)\<rparr>\<rparr>"
  have "awaiting old h n ?rq xs"
    unfolding awaiting_def drained_def using r(2,3) bd t q by auto
  with r(1) False show ?thesis unfolding body_step_def by (auto intro!: exI [of _ ?rq])
qed

lemma body_step_same:
  assumes "rq_socket rq2 = rq_socket rq1" and "rq_handler rq2 = rq_handler rq1" and "rq_state rq2 = rq_state rq1"
    and "rq_timeout rq2 = rq_timeout rq1"
  shows "body_step call old h n xs complete rq2 r w res = body_step call old h n xs complete rq1 r w res"
    "body_step call old h n xs complete rq r (assign r q w) res = body_step call old h n xs complete rq r w res"
  using assms by (simp_all add: body_step_def)

lemma buffer_holds_after [simp]: "buffer_holds (bf\<lparr>bf_after_headers_index := i\<rparr>) xs = buffer_holds bf xs"
  by (simp add: buffer_holds_def split: option.split)

lemma between_small_wait:
  "between bf (int n) False G_Small ps \<Longrightarrow> small_wait (int n) ps a \<and> ps_sequence_id ps \<noteq> bf_sequence_id bf"
  by (simp add: between_def small_wait_def chunk_flags_def ready_def finished_def flag_ops)

text \<open>
  The piece that completes the head, with a part of the body or not. When head and body do not fit the
  block, it is enlarged to hold just both.
\<close>

lemma head_buffer_holds:
  assumes "buffer_holds bf xs" and "0 < n" and "0 \<le> i" and "int (length xs) \<le> i + int n"
  shows "buffer_holds (head_buffer mx i (int n) False bf) xs"
proof -
  from assms(1) obtain b where b: "bf_buf bf = Some b" "int (length b) = bf_capacity bf" "length xs \<le> length b"
    "take (length xs) b = map Some xs" "bf_length bf = int (length xs)" "0 < bf_capacity bf"
    by (auto simp: buffer_holds_def holds_def split: option.splits)
  have "take (length xs) (take (nat (int n + i)) b @ zs) = map Some xs" for zs
  proof -
    have m: "length xs \<le> nat (int n + i)" using assms(3,4) by simp
    then have "take (length xs) (take (nat (int n + i)) b) = map Some xs" using b(4) by (simp add: min_absorb1)
    moreover have "length xs \<le> length (take (nat (int n + i)) b)" using m b(3) by simp
    ultimately show ?thesis by simp
  qed
  with b assms show ?thesis by (auto simp: head_buffer_def Let_def buffer_holds_def realloc_block_def holds_def)
qed

lemma head_then_body:
  assumes h: "short_head h" and n: "announced_length (hd_headers h) 0 = int n" "\<not> announced_chunked (hd_headers h) False"
      "0 < n" "length (render_head h) + n \<le> 8388608"
    and c: "collecting old rq xs ts"
    and b: "buffer_holds bf (xs @ p)" "bf_capacity bf = HTTP_REQUEST_BUF_SIZE" "length (xs @ p) < 1024"
    and bf: "bf_index bf = int (length xs)" "bf_sequence_id bf = i8 (bf_sequence_id (rq_buffer rq) + 1)"
    and d: "xs @ p = render_head h @ rest" "length rest \<le> n"
    and r: "deref r w = Inr (rq\<lparr>rq_buffer := bf\<rparr>)" "w_shift w = 0"
  defines "i \<equiv> int (length (render_head h))"
  shows "\<exists>ps arr us k. let q = rq\<lparr>rq_parser := ps, rq_buffer := head_buffer max_buf i (int n) False bf, rq_tokens := arr\<rparr>
    in hs_parse_buffer_and_exec_user_cb call r max_buf w = parse_loop (Suc k) call r max_buf (assign r q w)
      \<and> in_body i (int n) us q (xs @ p) \<and> head_read old h us (xs @ p)"
proof -
  let ?hd = "headers_done 0" and ?bf = "head_buffer max_buf i (int n) False bf"
  note col = c [unfolded collecting_def Let_def]
  have f: "head_flags max_buf i (int n) False = 0" "body_pos max_buf i (int n) False = G_Small"
    using n(3,4) by (simp_all add: head_flags_def body_pos_def max_buf i_def)
  from collecting_head_done [where call = call, OF h c b bf d(1) r] n(2) obtain arr vs ps k where
    l: "tokens_hold arr (old @ vs)" "length vs \<le> 4096" "map (slice (xs @ p)) vs @ [(HSH_TOK_HEADERS_DONE, [])] = head_parts h"
      "list_all (in_text (xs @ p)) vs" "between bf (int n) False G_Small ps" "hs_parse_buffer_and_exec_user_cb call r max_buf w
      = bindr (handle_token call r ?hd (assign r (rq\<lparr>rq_parser := ps, rq_buffer := ?bf, rq_tokens := arr\<rparr>) w))
        (\<lambda>(rc, w). case rc of Some rc \<Rightarrow> Inr (rc, w) | None \<Rightarrow> parse_loop (Suc k) call r max_buf w)"
    unfolding n(1) i_def [symmetric] by (auto simp: f simp del: parse_loop.simps)
  let ?rq = "rq\<lparr>rq_parser := ps, rq_buffer := ?bf, rq_tokens := arr\<rparr>"
  have th: "tokens_hold (rq_tokens ?rq) (old @ vs)" "length (old @ vs) < 268435456" using l(1,2) col by simp_all
  from push_token_holds [where t = ?hd, OF deref_assign [of r ?rq w] th] obtain arr' where
    a: "push_token r ?hd (assign r ?rq w) = Inr (assign r (?rq\<lparr>rq_tokens := arr'\<rparr>) w)" "tokens_hold arr' ((old @ vs) @ [?hd])"
    by auto
  have "\<not> HTTP_FLAG_CHECK 0 HSH_TOK_FLAG_STREAMED_BODY" "\<not> HTTP_FLAG_CHECK 0 HSH_TOK_FLAG_NO_BODY" by (simp_all add: flag_ops)
  then have "handle_token call r ?hd (assign r ?rq w) = Inr (None, assign r (?rq\<lparr>rq_tokens := arr'\<rparr>) w)"
    using a(1) by (simp add: handle_token_def headers_done_def)
  with l(6) have e: "hs_parse_buffer_and_exec_user_cb call r max_buf w = parse_loop (Suc k) call r max_buf (assign r (?rq\<lparr>rq_tokens := arr'\<rparr>) w)"
    by (simp del: parse_loop.simps)
  let ?q = "?rq\<lparr>rq_tokens := arr'\<rparr>" and ?us = "old @ vs @ [?hd]"
  have "buffer_holds ?bf (xs @ p)" using d n(3) by (intro head_buffer_holds [OF b(1)]) (simp_all add: i_def)
  moreover have "bf_after_headers_index ?bf = i" "bf_index ?bf = i" "bf_sequence_id ?bf = bf_sequence_id bf"
    by (simp_all add: head_buffer_def Let_def)
  moreover have "i \<le> int (length (xs @ p))" using d(1) by (simp add: i_def)
  ultimately have "in_body i (int n) ?us ?q (xs @ p)"
    using between_small_wait [OF l(5), of i] n(3,4) b(3) a(2) th(2) l(2) col by (auto simp: in_body_def i_def)
  moreover have "head_read old h ?us (xs @ p)" unfolding head_read_def using l(2-4) by blast
  moreover have "?q = rq\<lparr>rq_parser := ps, rq_buffer := ?bf, rq_tokens := arr'\<rparr>" by simp
  ultimately show ?thesis using e unfolding Let_def by metis
qed

lemma parse_head_body_step:
  assumes h: "small_post h n" and c: "collecting old rq xs ts"
    and b: "buffer_holds bf (xs @ p)" "bf_capacity bf = HTTP_REQUEST_BUF_SIZE" "length (xs @ p) < 1024"
    and bf: "bf_index bf = int (length xs)" "bf_sequence_id bf = i8 (bf_sequence_id (rq_buffer rq) + 1)"
    and d: "xs @ p = render_head h @ rest" "length rest \<le> n"
    and r: "deref r w = Inr (rq\<lparr>rq_buffer := bf\<rparr>)" "w_shift w = 0"
  shows "body_step call old h n (xs @ p) (rest \<noteq> [] \<and> int (length (render_head h)) + int n - 1 \<le> int (length (xs @ p))) rq r w
    (hs_parse_buffer_and_exec_user_cb call r max_buf w)"
proof -
  let ?i = "int (length (render_head h))"
  have n: "announced_length (hd_headers h) 0 = int n" "\<not> announced_chunked (hd_headers h) False" "0 < n"
    "length (render_head h) + n \<le> 8388608" using h by (simp_all add: small_post_def)
  note f = small_post_facts [OF h]
  from head_then_body [where call = call, OF f(1) n c b bf d r] f(4) [OF b(2)] obtain ps arr us k where
    l: "hs_parse_buffer_and_exec_user_cb call r max_buf w = parse_loop (Suc k) call r max_buf
        (assign r (rq\<lparr>rq_parser := ps, rq_buffer := bf\<lparr>bf_after_headers_index := ?i, bf_index := ?i\<rparr>, rq_tokens := arr\<rparr>) w)"
    "in_body ?i (int n) us (rq\<lparr>rq_parser := ps, rq_buffer := bf\<lparr>bf_after_headers_index := ?i, bf_index := ?i\<rparr>, rq_tokens := arr\<rparr>) (xs @ p)"
    "head_read old h us (xs @ p)" by (auto simp: Let_def simp del: parse_loop.simps)
  let ?q = "rq\<lparr>rq_parser := ps, rq_buffer := bf\<lparr>bf_after_headers_index := ?i, bf_index := ?i\<rparr>, rq_tokens := arr\<rparr>"
  have "body_step call old h n (xs @ p)
      (bf_index (rq_buffer ?q) < int (length (xs @ p)) \<and> ?i + int n - 1 \<le> int (length (xs @ p))) ?q r (assign r ?q w)
      (parse_loop (Suc k) call r max_buf (assign r ?q w))"
    using l(2,3) b(2) c bf(2) i8_next by (intro loop_body_step deref_assign) (auto simp: collecting_def Let_def)
  moreover have "(bf_index (rq_buffer ?q) < int (length (xs @ p))) = (rest \<noteq> [])" using d(1) by simp
  moreover have "body_step call old h n (xs @ p) complete ?q r v res = body_step call old h n (xs @ p) complete rq r v res" for complete v res
    by (rule body_step_same(1)) simp_all
  ultimately show ?thesis unfolding l(1) by (simp only: body_step_same(2) [OF refl refl refl refl])
qed

text \<open>A later piece.\<close>

lemma parse_body_step:
  assumes h: "0 < n" "n < 1024" and c: "awaiting old h n rq xs"
    and b: "buffer_holds bf (xs @ p)" "bf_capacity bf = HTTP_REQUEST_BUF_SIZE" "length (xs @ p) < 1024"
    and bf: "bf_index bf = int (length xs)" "bf_sequence_id bf = i8 (bf_sequence_id (rq_buffer rq) + 1)"
      "bf_after_headers_index bf = bf_after_headers_index (rq_buffer rq)"
    and r: "deref r w = Inr (rq\<lparr>rq_buffer := bf\<rparr>)"
  shows "body_step call old h n (xs @ p) (p \<noteq> [] \<and> int (length (render_head h)) + int n - 1 \<le> int (length (xs @ p))) rq r w
    (hs_parse_buffer_and_exec_user_cb call r max_buf w)"
proof -
  let ?i = "int (length (render_head h))" and ?q = "rq\<lparr>rq_buffer := bf\<rparr>"
  note aw = c [unfolded awaiting_def]
  from aw obtain us where us: "tokens_hold (rq_tokens rq) us" "head_read old h us xs" by blast
  have "length us < 268435456" using us(2) aw by (auto simp: head_read_def)
  moreover have "ps_sequence_id (rq_parser rq) \<noteq> bf_sequence_id bf" using aw bf(2) i8_next(1) by metis
  ultimately have ib: "in_body ?i (int n) us ?q (xs @ p)"
    using aw h b bf us(1) by (simp add: in_body_def)
  have "\<exists>k. parse_fuel bf = Suc k" by (simp add: parse_fuel_def)
  then obtain k where e: "hs_parse_buffer_and_exec_user_cb call r max_buf w = parse_loop (Suc k) call r max_buf w"
    using r by (auto simp: hs_parse_buffer_and_exec_user_cb_def simp del: parse_loop.simps)
  have "body_step call old h n (xs @ p)
      (bf_index (rq_buffer ?q) < int (length (xs @ p)) \<and> ?i + int n - 1 \<le> int (length (xs @ p))) ?q r w
      (parse_loop (Suc k) call r max_buf w)"
    using ib head_read_append [OF us(2), of p] b(2) aw bf(2) i8_next by (intro loop_body_step [OF _ r]) auto
  moreover have "(bf_index (rq_buffer ?q) < int (length (xs @ p))) = (p \<noteq> [])" using bf(1) by simp
  moreover have "body_step call old h n (xs @ p) complete ?q r v res = body_step call old h n (xs @ p) complete rq r v res" for complete v res
    by (rule body_step_same(1)) simp_all
  ultimately show ?thesis unfolding e by (simp only:)
qed

end
