(* ===== verification/Body_Delivery.thy ===== *)
theory Body_Delivery
  imports Bodies Delivered
begin

text \<open>
  A request with a small body on its way to the user's code: the events of the connection, from the
  start of the server.
\<close>

section \<open>The events of a connection\<close>

definition awaits ::
    "hsh_token_s list \<Rightarrow> request_head \<Rightarrow> nat \<Rightarrow> build \<Rightarrow> fnptr \<Rightarrow> ptr \<Rightarrow> int \<Rightarrow> string \<Rightarrow> read_event list \<Rightarrow> world \<Rightarrow> bool"
  where
  "awaits old h n b H r fd xs evs w \<longleftrightarrow>
     w_build w = b \<and> w_shift w = 0 \<and> sv_request_handler (w_server w) = H \<and> w_reads w fd = evs
     \<and> (\<exists>rq. deref r w = Inr rq \<and> rq_socket rq = fd \<and> rq_handler rq = client_handler b
          \<and> awaiting old h n rq xs)"

text \<open>What an event comes to, when it brings the data to \<open>xs\<close>.\<close>

definition event_result ::
    "hsh_token_s list \<Rightarrow> request_head \<Rightarrow> nat \<Rightarrow> build \<Rightarrow> fnptr \<Rightarrow> ptr \<Rightarrow> int \<Rightarrow> string \<Rightarrow> read_event list \<Rightarrow> bool
      \<Rightarrow> (ptr \<Rightarrow> world \<Rightarrow> world result) \<Rightarrow> world result \<Rightarrow> bool"
  where
  "event_result old h n b H r fd xs evs complete handler res \<longleftrightarrow>
     (if complete
      then \<exists>rq' w'. res = handler r w' \<and> deref r w' = Inr rq' \<and> delivered_body old h n xs rq' \<and> w_reads w' fd = evs
      else \<exists>w'. res = Inr w' \<and> awaits old h n b H r fd xs evs w' \<and> reading r w')"

lemma event_of_body_step:
  assumes "hs_read_request_and_exec_user_cb (\<lambda>f. request_cycle user m (E_Call f)) r read_opts w = res"
    and "body_step (\<lambda>f. request_cycle user m (E_Call f)) old h n xs complete rq r w1 res"
    and "w_build w1 = b" "w_shift w1 = 0" "sv_request_handler (w_server w1) = H" "w_reads w1 fd = evs"
    and "rq_socket rq = fd" "rq_handler rq = client_handler b" "rq_state rq = HTTP_SESSION_READ"
    and "rq_timeout rq = HTTP_REQUEST_TIMEOUT"
  shows "event_result old h n b H r fd xs evs complete (request_cycle user m (E_Call H)) (request_cycle user (Suc m) E_Read r w)"
proof (cases complete)
  case True
  with assms(2,5) obtain rq' where r: "res = bindr (request_cycle user m (E_Call H) r (assign r rq' w1)) (\<lambda>w. Inr (HS_READ_RC_SUCCESS, w))"
    "delivered_body old h n xs rq'" by (auto simp: body_step_def)
  have "bindr x Inr = x" for x :: "world result" by (cases x) simp_all
  then have "request_cycle user (Suc m) E_Read r w = request_cycle user m (E_Call H) r (assign r rq' w1)"
    using assms(1) r(1) by (simp add: hs_read_socket_and_handle_return_code_def bindr_assoc)
  with r(2) True assms(6) show ?thesis
    unfolding event_result_def by (auto intro!: exI [of _ rq'] exI [of _ "assign r rq' w1"] simp: assign_def deref_def)
next
  case False
  with assms(2) obtain rq' where r: "res = Inr (HS_READ_RC_SUCCESS, assign r rq' w1)" "awaiting old h n rq' xs"
    "rq_socket rq' = fd" "rq_handler rq' = client_handler b" "rq_state rq' = HTTP_SESSION_READ"
    "rq_timeout rq' = HTTP_REQUEST_TIMEOUT"
    using assms(7-10) by (auto simp: body_step_def)
  have "request_cycle user (Suc m) E_Read r w = Inr (assign r rq' w1)"
    using assms(1) r(1) by (simp add: hs_read_socket_and_handle_return_code_def)
  moreover have "awaits old h n b H r fd xs evs (assign r rq' w1)" "reading r (assign r rq' w1)"
    using r(2-6) assms(3-6) by (simp_all add: awaits_def reading_def assign_def deref_def)
  ultimately show ?thesis using False unfolding event_result_def by auto
qed

lemma head_event:
  assumes h: "small_post h n" and g: "receiving old b H r fd xs (arrives p @ evs) w"
    and d: "xs @ p = render_head h @ rest" "length rest \<le> n"
  shows "event_result old h n b H r fd (xs @ p) evs
    (rest \<noteq> [] \<and> int (length (render_head h)) + int n - 1 \<le> int (length (xs @ p)))
    (request_cycle user m (E_Call H)) (request_cycle user (Suc m) E_Read r w)"
proof -
  let ?call = "\<lambda>f. request_cycle user m (E_Call f)"
  have len: "length (xs @ p) < 1024" using h d by (simp add: small_post_def)
  from receiving_opened [where call = ?call, OF g len] obtain rq1 w1 bf ts where
    c: "collecting old rq1 xs ts" and b: "buffer_holds bf (xs @ p)" "bf_capacity bf = HTTP_REQUEST_BUF_SIZE"
    and bf: "bf_index bf = int (length xs)" "bf_sequence_id bf = i8 (bf_sequence_id (rq_buffer rq1) + 1)"
    and w: "w_build w1 = b" "w_shift w1 = 0" "sv_request_handler (w_server w1) = H" "w_reads w1 fd = evs"
    and r: "rq_socket rq1 = fd" "rq_handler rq1 = client_handler b" "rq_state rq1 = HTTP_SESSION_READ"
    "rq_timeout rq1 = HTTP_REQUEST_TIMEOUT" "deref r w1 = Inr (rq1\<lparr>rq_buffer := bf\<rparr>)"
    and e: "hs_read_request_and_exec_user_cb ?call r read_opts w = hs_parse_buffer_and_exec_user_cb ?call r max_buf w1"
    by blast
  from parse_head_body_step [OF h c b len bf d r(5) w(2)]
  show ?thesis by (rule event_of_body_step [OF e _ w r(1-4)])
qed

lemma opened_awaiting:
  assumes "awaiting old h n rq xs"
  shows "opened rq w = (rq\<lparr>rq_state := HTTP_SESSION_READ, rq_timeout := HTTP_REQUEST_TIMEOUT\<rparr>, w)"
    "awaiting old h n (rq\<lparr>rq_state := HTTP_SESSION_READ, rq_timeout := HTTP_REQUEST_TIMEOUT\<rparr>) xs"
  using assms by (auto simp: opened_def Let_def awaiting_def drained_def elim: buffer_holdsE)

lemma body_event:
  assumes h: "small_post h n" and g: "awaits old h n b H r fd xs (arrives p @ evs) w" and len: "length (xs @ p) < 1024"
  shows "event_result old h n b H r fd (xs @ p) evs
    (p \<noteq> [] \<and> int (length (render_head h)) + int n - 1 \<le> int (length (xs @ p)))
    (request_cycle user m (E_Call H)) (request_cycle user (Suc m) E_Read r w)"
proof -
  let ?call = "\<lambda>f. request_cycle user m (E_Call f)"
  from g obtain rq where rq: "deref r w = Inr rq" "rq_socket rq = fd" "rq_handler rq = client_handler b" "awaiting old h n rq xs"
    "w_reads w (rq_socket rq) = arrives p @ evs" and w: "w_build w = b" "w_shift w = 0" "sv_request_handler (w_server w) = H"
    by (auto simp: awaits_def)
  let ?rq = "rq\<lparr>rq_state := HTTP_SESSION_READ, rq_timeout := HTTP_REQUEST_TIMEOUT\<rparr>"
  note o = opened_awaiting [OF rq(4)]
  have dr: "drained ?rq xs" using o(2) by (simp add: awaiting_def)
  from read_request_piece [where call = ?call, OF rq(1) o(1) dr len rq(5)] obtain bf where
    b: "buffer_holds bf (xs @ p)" "bf_capacity bf = HTTP_REQUEST_BUF_SIZE" and
    bf: "bf_index bf = int (length xs)" "bf_sequence_id bf = i8 (bf_sequence_id (rq_buffer ?rq) + 1)"
    "bf_after_headers_index bf = bf_after_headers_index (rq_buffer ?rq)" and
    e: "hs_read_request_and_exec_user_cb ?call r read_opts w
        = hs_parse_buffer_and_exec_user_cb ?call r max_buf (assign r (?rq\<lparr>rq_buffer := bf\<rparr>) (reads_done (rq_socket rq) evs w))"
    by blast
  have n: "0 < n" "n < 1024" using h by (simp_all add: small_post_def)
  let ?w1 = "assign r (?rq\<lparr>rq_buffer := bf\<rparr>) (reads_done (rq_socket rq) evs w)"
  from parse_body_step [OF n o(2) b len bf, of r ?w1 ?call]
  have "body_step ?call old h n (xs @ p) (p \<noteq> [] \<and> int (length (render_head h)) + int n - 1 \<le> int (length (xs @ p))) ?rq r ?w1
    (hs_parse_buffer_and_exec_user_cb ?call r max_buf ?w1)" by simp
  then show ?thesis
    by (rule event_of_body_step [OF e]) (use w rq(2,3) in \<open>simp_all add: assign_def\<close>)
qed

text \<open>
  How many bytes make the parser hand over a request with a body of \<open>n\<close> bytes: one of the
  body, and all of it but the last byte.
\<close>

definition enough :: "request_head \<Rightarrow> nat \<Rightarrow> nat" where
  "enough h n = length (render_head h) + max 1 (n - 1)"

definition underway ::
    "hsh_token_s list \<Rightarrow> request_head \<Rightarrow> nat \<Rightarrow> build \<Rightarrow> fnptr \<Rightarrow> ptr \<Rightarrow> int \<Rightarrow> string \<Rightarrow> read_event list \<Rightarrow> world \<Rightarrow> bool"
  where
  "underway old h n b H r fd xs evs w \<longleftrightarrow> length xs < enough h n
     \<and> (if length xs < length (render_head h) then receiving old b H r fd xs evs w else awaits old h n b H r fd xs evs w)"

lemma head_prefix:
  assumes "xs @ zs = h @ bd"
  shows "length xs < length h \<Longrightarrow> \<exists>us. h = xs @ us \<and> us \<noteq> []"
    "length h \<le> length xs \<Longrightarrow> \<exists>rest. xs = h @ rest \<and> length rest \<le> length bd"
proof -
  assume "length xs < length h"
  with assms show "\<exists>us. h = xs @ us \<and> us \<noteq> []" by (auto simp: append_eq_append_conv2)
next
  assume "length h \<le> length xs"
  with assms show "\<exists>rest. xs = h @ rest \<and> length rest \<le> length bd"
    by (auto simp: append_eq_append_conv2)
qed

lemma piece_event:
  assumes h: "small_post h n" and u: "underway old h n b H r fd xs (arrives p @ evs) w"
    and d: "(xs @ p) @ zs = render_head h @ body" "length body = n"
  shows "if enough h n \<le> length (xs @ p)
    then \<exists>rq' w'. request_cycle user (Suc m) E_Read r w = request_cycle user m (E_Call H) r w'
      \<and> deref r w' = Inr rq' \<and> delivered_body old h n (xs @ p) rq' \<and> w_reads w' fd = evs
    else \<exists>w'. request_cycle user (Suc m) E_Read r w = Inr w' \<and> underway old h n b H r fd (xs @ p) evs w' \<and> reading r w'"
proof (cases "length (xs @ p) < length (render_head h)")
  case True
  from head_prefix(1) [OF d(1) True] obtain us where us: "render_head h = (xs @ p) @ us" "us \<noteq> []" by blast
  have g: "receiving old b H r fd xs (arrives p @ evs) w" using u True by (simp add: underway_def)
  from event_waits [where user = user and n = m, OF small_post_facts(1) [OF h] g us] True show ?thesis
    by (auto simp: underway_def enough_def simp del: request_cycle.simps)
next
  case False
  with head_prefix(2) [OF d(1)] d(2) obtain rest where rest: "xs @ p = render_head h @ rest" "length rest \<le> n" by auto
  have n: "0 < n" "length (xs @ p) < 1024" using h rest by (auto simp: small_post_def)
  have "event_result old h n b H r fd (xs @ p) evs (enough h n \<le> length (xs @ p))
    (request_cycle user m (E_Call H)) (request_cycle user (Suc m) E_Read r w)"
  proof (cases "length xs < length (render_head h)")
    case True
    then have g: "receiving old b H r fd xs (arrives p @ evs) w" using u by (simp add: underway_def)
    have "(rest \<noteq> [] \<and> int (length (render_head h)) + int n - 1 \<le> int (length (xs @ p))) = (enough h n \<le> length (xs @ p))"
      unfolding rest(1) enough_def using n(1) by (cases rest) auto
    with head_event [OF h g rest, of user m] show ?thesis by (simp del: request_cycle.simps)
  next
    case inbody: False
    then have g: "awaits old h n b H r fd xs (arrives p @ evs) w" "length xs < enough h n" using u by (simp_all add: underway_def)
    have "(p \<noteq> [] \<and> int (length (render_head h)) + int n - 1 \<le> int (length (xs @ p))) = (enough h n \<le> length (xs @ p))"
      unfolding enough_def using g(2) inbody n(1) by (cases p) (auto simp: enough_def)
    with body_event [OF h g(1) n(2), of user m] show ?thesis by (simp del: request_cycle.simps)
  qed
  with False show ?thesis by (auto simp: event_result_def underway_def simp del: request_cycle.simps split: if_splits)
qed

lemma underway_handled:
  assumes "underway old h n b H r fd xs evs w" and "reading r w"
  shows "handle_event (run_handler user m) (Ev_Request r) w = request_cycle user m E_Read r w"
  using assms
  by (cases b) (auto simp: underway_def receiving_def awaits_def reading_def handle_event_def event_handler_def event_handler_kqueue_def
      event_handler_epoll_def run_handler_def kqueue_client_event hs_on_epoll_client_connection_event_def split: if_splits)

lemma body_pieces_delivered:
  assumes "small_post h n" and "length body = n"
    and "underway old h n b H r fd xs (concat (map arrives (ps @ [q]))) w" and "reading r w"
    and "(xs @ concat (ps @ [q])) @ zs = render_head h @ body"
    and "length (xs @ concat ps) < enough h n" and "enough h n \<le> length (xs @ concat (ps @ [q]))"
  shows "\<exists>rq' w'. event_loop (run_handler user (Suc m)) (replicate (Suc (length ps)) (Ev_Request r)) w
      = request_cycle user m (E_Call H) r w'
    \<and> deref r w' = Inr rq' \<and> delivered_body old h n (xs @ concat (ps @ [q])) rq' \<and> w_reads w' fd = []"
  using assms(3-7)
proof (induction ps arbitrary: xs w)
  case Nil
  have u: "underway old h n b H r fd xs (arrives q @ []) w" and d: "(xs @ q) @ zs = render_head h @ body"
    using Nil.prems(1,3) by simp_all
  from piece_event [OF assms(1) u d assms(2), of user m] Nil.prems(5) obtain rq' w' where
    r: "request_cycle user (Suc m) E_Read r w = request_cycle user m (E_Call H) r w'"
    "deref r w' = Inr rq'" "delivered_body old h n (xs @ q) rq'" "w_reads w' fd = []" by (auto simp del: request_cycle.simps)
  have "bindr x (event_loop run []) = x" for x run by (cases x) simp_all
  then have "event_loop (run_handler user (Suc m)) (replicate (Suc (length [])) (Ev_Request r)) w = request_cycle user m (E_Call H) r w'"
    using r(1) underway_handled [OF Nil.prems(1,2), of user "Suc m"] by (simp del: request_cycle.simps event_loop.simps(1))
  with r(2-4) show ?case by (intro exI [of _ rq'] exI [of _ w']) (simp del: request_cycle.simps event_loop.simps)
next
  case (Cons p ps)
  have u: "underway old h n b H r fd xs (arrives p @ concat (map arrives (ps @ [q]))) w"
    and d: "(xs @ p) @ (concat (ps @ [q]) @ zs) = render_head h @ body" using Cons.prems(1,3) by simp_all
  have "\<not> enough h n \<le> length (xs @ p)" using Cons.prems(4) by simp
  with piece_event [OF assms(1) u d assms(2), of user m] obtain w1 where
    w1: "request_cycle user (Suc m) E_Read r w = Inr w1"
      "underway old h n b H r fd (xs @ p) (concat (map arrives (ps @ [q]))) w1" "reading r w1"
    by (auto simp del: request_cycle.simps)
  from Cons.IH [OF w1(2,3)] Cons.prems(3-5) obtain rq' w' where
    "event_loop (run_handler user (Suc m)) (replicate (Suc (length ps)) (Ev_Request r)) w1 = request_cycle user m (E_Call H) r w'"
    "deref r w' = Inr rq'" "delivered_body old h n (xs @ concat ((p # ps) @ [q])) rq'" "w_reads w' fd = []"
    by (auto simp del: request_cycle.simps event_loop.simps replicate_Suc)
  with w1(1) underway_handled [OF Cons.prems(1,2), of user "Suc m"] show ?case
    by (intro exI [of _ rq'] exI [of _ w']) (simp del: request_cycle.simps)
qed

section \<open>From the start of the server\<close>

lemma find_type_append: "find_type (xs @ ys) ty = (case find_type xs ty of None \<Rightarrow> find_type ys ty | Some x \<Rightarrow> Some x)"
  by (induction xs ty rule: find_type.induct) auto

lemma no_body_in_head:
  assumes "map (\<lambda>(t, s). (tk_type t, s)) tts = head_parts h"
  shows "find_type tts HSH_TOK_BODY = None"
proof -
  have "list_all (\<lambda>x. fst x \<noteq> HSH_TOK_BODY) (head_parts h)"
    by (auto simp: head_parts_def header_parts_def list_all_iff)
  then have "list_all (\<lambda>(t, s). tk_type t \<noteq> HSH_TOK_BODY) tts"
    unfolding assms [symmetric] by (auto simp: list_all_iff)
  then show ?thesis by (induction tts HSH_TOK_BODY rule: find_type.induct) auto
qed

lemma delivered_body_found:
  assumes "delivered_body [] h n xs rq"
  shows "http_request_body rq = Inr \<lparr>st_buf = Some (int (length (render_head h))), st_len = int n\<rparr>"
proof -
  let ?b = "small_token (int (length (render_head h))) (int n)"
  from assms obtain tts where t: "array_holds (rq_tokens rq) (map fst (tts @ [(?b, [])]))"
    "map (\<lambda>(t, s). (tk_type t, s)) tts = head_parts h" by (auto simp: delivered_body_def)
  have "find_type (tts @ [(?b, [] :: string)]) HSH_TOK_BODY = Some (?b, [])"
    using no_body_in_head [OF t(2)] by (simp add: find_type_append small_token_def)
  moreover from t(1) have "holds (ta_buf (rq_tokens rq)) (map fst ([] @ tts @ [(?b, [] :: string)]))" "ta_buf (rq_tokens rq) \<noteq> None"
    "nat (ta_size (rq_tokens rq)) = length (tts @ [(?b, [] :: string)])" by (auto elim: array_holdsE)
  moreover note find_token_type [OF this(1), of HSH_TOK_BODY]
  ultimately show ?thesis
    by (auto simp: http_request_body_def hs_get_token_string_def header_string_def token_string_def small_token_def
        simp del: find_token.simps map_append)
qed

text \<open>
  C37. A request with a body that fits the first buffer reaches the user's handler one byte early. On
  a server that has been started, a connection is accepted and head and body arrive in any pieces,
  one per event, the first not yet the whole head. The connection waits until the piece that brings
  one byte of the body and all of it but its last byte; that event calls the server's request
  handler. The tokens it finds are the parts of the head, and a body of the announced length behind
  it, of which the buffer may hold one byte less.
\<close>

theorem small_body_reaches_handler:
  assumes "started serv port handler now w = Inr w1" and "w_shift w = 0"
    and "w_accepts w = [fd]" and "0 < fd" and "w_reads w fd = concat (map arrives (p # ps @ [q]))"
    and "small_post h n" and "length body = n" and "(p @ concat ps @ q) @ zs = render_head h @ body"
    and "length p < length (render_head h)" and "length (p @ concat ps) < length (render_head h) + max 1 (n - 1)"
    and "length (render_head h) + max 1 (n - 1) \<le> length (p @ concat ps @ q)"
  shows "\<exists>rq' w'. event_loop (run_handler user (Suc m)) (Ev_Server_Socket # replicate (Suc (length ps)) (Ev_Request (w_next w))) w1
      = request_cycle user m (E_Call handler) (w_next w) w'
    \<and> deref (w_next w) w' = Inr rq' \<and> delivered_body [] h n (p @ concat ps @ q) rq'
    \<and> http_request_body rq' = Inr \<lparr>st_buf = Some (int (length (render_head h))), st_len = int n\<rparr>"
proof -
  note st = started_ready [OF assms(1)] started_simps [OF assms(1)]
  have d: "p @ (concat ps @ q @ zs) = render_head h @ body" using assms(8) by simp
  from head_prefix(1) [OF d assms(9)] obtain us where us: "render_head h = p @ us" "us \<noteq> []" by blast
  have "w_memused w1 \<le> HTTP_MAX_TOTAL_EST_MEM_USAGE" using st(4) by (simp add: HTTP_MAX_TOTAL_EST_MEM_USAGE_def)
  with accept_event_receives [where user = user and n = m and w = w1 and evs = "concat (map arrives (ps @ [q]))",
      OF small_post_facts(1) [OF assms(6)] _ _ assms(4) _ _ _ us] st assms(2,3,5) obtain w2 where
    w2: "handle_event (run_handler user (Suc m)) Ev_Server_Socket w1 = Inr w2"
      "receiving [] (w_build w) handler (w_next w) fd p (concat (map arrives (ps @ [q]))) w2" "reading (w_next w) w2" by auto
  have "underway [] h n (w_build w) handler (w_next w) fd p (concat (map arrives (ps @ [q]))) w2"
    using w2(2) assms(9) by (simp add: underway_def enough_def)
  moreover have "(p @ concat (ps @ [q])) @ zs = render_head h @ body" "length (p @ concat ps) < enough h n"
    "enough h n \<le> length (p @ concat (ps @ [q]))" using assms(8,10,11) by (simp_all add: enough_def)
  ultimately obtain rq' w' where
    r: "event_loop (run_handler user (Suc m)) (replicate (Suc (length ps)) (Ev_Request (w_next w))) w2
      = request_cycle user m (E_Call handler) (w_next w) w'" "deref (w_next w) w' = Inr rq'"
    "delivered_body [] h n (p @ concat ps @ q) rq'"
    using body_pieces_delivered [where user = user and m = m, OF assms(6,7) _ w2(3)] by fastforce
  with w2(1) delivered_body_found show ?thesis
    by (intro exI [of _ rq'] exI [of _ w']) (simp del: request_cycle.simps replicate_Suc)
qed

section \<open>An instance\<close>

text \<open>Five bytes of a body are announced; four have arrived when the handler is called.\<close>

definition posting_pieces :: "string list" where
  "posting_pieces = [take 20 (render_head posted_head), drop 20 (render_head posted_head) @ ''hell'']"

definition posting_world :: world where
  "posting_world = (idle_world KQUEUE)\<lparr>w_reads := (\<lambda>_. [])(7 := concat (map arrives posting_pieces))\<rparr>"

theorem small_body_reaches_handler_witness:
  "\<exists>w1 rq w'. started sample_server 8080 0 0 posting_world = Inr w1
    \<and> event_loop (run_handler (\<lambda>_ _ _. Return) 2) [Ev_Server_Socket, Ev_Request 0] w1 = Inr w'
    \<and> deref 0 w' = Inr rq \<and> bf_length (rq_buffer rq) = 59
    \<and> http_request_body rq = Inr \<lparr>st_buf = Some 55, st_len = 5\<rparr>"
proof -
  let ?h = "render_head posted_head"
  obtain w1 where w1: "started sample_server 8080 0 0 posting_world = Inr w1"
    using started_total by blast
  have w: "w_shift posting_world = 0" "w_accepts posting_world = [7]" "w_next posting_world = 0"
    "w_reads posting_world 7 = concat (map arrives (take 20 ?h # [] @ [drop 20 ?h @ ''hell'']))"
    by (simp_all add: posting_world_def idle_world_def sample_world_def posting_pieces_def)
  have l: "length ?h = 55" using head_bytes_facts(7) by simp
  have "small_post posted_head 5" by (simp add: small_post_def head_bytes_facts l)
  moreover have "(take 20 ?h @ concat [] @ drop 20 ?h @ ''hell'') @ ''o'' = ?h @ ''hello''" by simp
  moreover have "length (take 20 ?h) < length ?h" "length (take 20 ?h @ concat []) < length ?h + max 1 (5 - 1)"
    "length ?h + max 1 (5 - 1) \<le> length (take 20 ?h @ concat [] @ drop 20 ?h @ ''hell'')" "length ''hello'' = 5"
    by (simp_all add: l)
  ultimately obtain rq w' where
    r: "event_loop (run_handler (\<lambda>_ _ _. Return) (Suc 1)) (Ev_Server_Socket # replicate (Suc (length ([] :: string list))) (Ev_Request (w_next posting_world))) w1
      = request_cycle (\<lambda>_ _ _. Return) 1 (E_Call 0) (w_next posting_world) w'"
    "deref (w_next posting_world) w' = Inr rq" "delivered_body [] posted_head 5 (take 20 ?h @ concat [] @ drop 20 ?h @ ''hell'') rq"
    "http_request_body rq = Inr \<lparr>st_buf = Some (int (length ?h)), st_len = int 5\<rparr>"
    using small_body_reaches_handler [where user = "\<lambda>_ _ _. Return" and m = 1, OF w1 w(1,2) _ w(4)] by (metis zero_less_numeral)
  have "bf_length (rq_buffer rq) = 59" using r(3) l by (auto simp: delivered_body_def elim: buffer_holdsE)
  with r w1 w(3) l show ?thesis by (simp add: numeral_2_eq_2 del: event_loop.simps)
qed

end
