(* ===== verification/Body_Account.thy ===== *)
theory Body_Account
  imports Bodies Delivered
begin

text \<open>
  The server's account of the memory it uses, when a request announces a body: the parser enlarges the
  read buffer for it, and the account is not told.
\<close>

section \<open>Pieces of a head\<close>

lemma pieces_wait:
  assumes "short_head h" and "receiving old b H r fd xs (concat (map arrives ps) @ evs) w" and "reading r w"
    and "render_head h = (xs @ concat ps) @ zs" and "zs \<noteq> []"
  shows "\<exists>w'. event_loop (run_handler user (Suc n)) (replicate (length ps) (Ev_Request r)) w = Inr w'
    \<and> receiving old b H r fd (xs @ concat ps) evs w' \<and> reading r w' \<and> undisturbed r w w'"
  using assms(2-4)
proof (induction ps arbitrary: xs w)
  case Nil
  have "undisturbed r w w" by (simp add: undisturbed_def same_flags_def)
  with Nil show ?case by simp
next
  case (Cons p ps)
  have g: "receiving old b H r fd xs (arrives p @ concat (map arrives ps) @ evs) w" "render_head h = (xs @ p) @ concat ps @ zs"
    using Cons.prems(1,3) by simp_all
  from event_waits [where user = user and n = n, OF assms(1) g] assms(5) obtain w1 where
    w1: "request_cycle user (Suc n) E_Read r w = Inr w1" "receiving old b H r fd (xs @ p) (concat (map arrives ps) @ evs) w1"
      "reading r w1" "undisturbed r w w1" by auto
  have "render_head h = ((xs @ p) @ concat ps) @ zs" using g(2) by simp
  from Cons.IH [OF w1(2,3) this] obtain w' where
    "event_loop (run_handler user (Suc n)) (replicate (length ps) (Ev_Request r)) w1 = Inr w'"
    "receiving old b H r fd (xs @ concat (p # ps)) evs w'" "reading r w'" "undisturbed r w1 w'" by auto
  with w1(1) read_event_handled [OF Cons.prems(1,2), of user "Suc n"] undisturbed_trans [OF w1(4)] show ?case
    by (simp del: request_cycle.simps)
qed

section \<open>The head that makes the buffer grow\<close>

text \<open>A request that waits for a body, in a block of \<open>cap\<close> bytes; \<open>xs\<close> has arrived and been parsed.\<close>

definition enlarged :: "build \<Rightarrow> int \<Rightarrow> string \<Rightarrow> int \<Rightarrow> http_request_s \<Rightarrow> bool" where
  "enlarged b fd xs cap rq \<longleftrightarrow> rq_socket rq = fd \<and> rq_handler rq = client_handler b \<and> rq_state rq = HTTP_SESSION_READ
     \<and> buffer_holds (rq_buffer rq) xs \<and> int (length xs) < cap
     \<and> bf_capacity (rq_buffer rq) = cap \<and> bf_index (rq_buffer rq) = int (length xs)"

text \<open>A head without its body: it announces \<open>n\<close> bytes, with which it needs more than the first buffer.\<close>

definition large_post :: "request_head \<Rightarrow> nat \<Rightarrow> bool" where
  "large_post h n \<longleftrightarrow> short_head h \<and> announced_length (hd_headers h) 0 = int n \<and> \<not> announced_chunked (hd_headers h) False
     \<and> 1024 < length (render_head h) + n \<and> length (render_head h) + n \<le> 8388608"

lemma head_grows:
  assumes h: "large_post h n" and g: "receiving old b H r fd xs (arrives p @ evs) w" and d: "xs @ p = render_head h" and u: "unowned r w = 0"
  shows "\<exists>w' rq. request_cycle user (Suc m) E_Read r w = Inr w' \<and> deref r w' = Inr rq
    \<and> enlarged b fd (render_head h) (int (length (render_head h) + n)) rq
    \<and> w_build w' = b \<and> w_reads w' fd = evs \<and> w_memused w' = 1024"
proof -
  let ?call = "\<lambda>f. request_cycle user m (E_Call f)" and ?i = "int (length (render_head h))"
  have n: "short_head h" "announced_length (hd_headers h) 0 = int n" "\<not> announced_chunked (hd_headers h) False" "0 < n"
    "length (render_head h) + n \<le> 8388608" "1024 < ?i + int n" and len: "length (xs @ p) < 1024"
    using h d by (simp_all add: large_post_def short_head_def)
  from receiving_opened [where call = ?call, OF g len] obtain rq1 w1 bf ts where
    c: "collecting old rq1 xs ts" and b: "buffer_holds bf (xs @ p)" "bf_capacity bf = HTTP_REQUEST_BUF_SIZE"
    and bf: "bf_index bf = int (length xs)" "bf_sequence_id bf = i8 (bf_sequence_id (rq_buffer rq1) + 1)"
    and w: "w_build w1 = b" "undisturbed r w w1" "w_shift w1 = 0" "w_reads w1 fd = evs"
    and r: "rq_socket rq1 = fd" "rq_handler rq1 = client_handler b" "rq_state rq1 = HTTP_SESSION_READ"
    "deref r w1 = Inr (rq1\<lparr>rq_buffer := bf\<rparr>)"
    and e: "hs_read_request_and_exec_user_cb ?call r read_opts w = hs_parse_buffer_and_exec_user_cb ?call r max_buf w1"
    by blast
  have "unowned r w1 = 0" using w(2) u by (simp add: undisturbed_def)
  then have mem: "w_memused w1 = 1024"
    using unowned_deref [OF r(4)] holds_owned [OF b(1)] b(2) by (simp add: HTTP_REQUEST_BUF_SIZE_def)
  let ?bf = "head_buffer max_buf ?i (int n) False bf"
  from head_then_body [where call = ?call and rest = "[]", OF n(1-5) c b len bf _ _ r(4) w(3)] d obtain ps arr us k where
    l: "hs_parse_buffer_and_exec_user_cb ?call r max_buf w1 = parse_loop (Suc k) ?call r max_buf
        (assign r (rq1\<lparr>rq_parser := ps, rq_buffer := ?bf, rq_tokens := arr\<rparr>) w1)"
    "in_body ?i (int n) us (rq1\<lparr>rq_parser := ps, rq_buffer := ?bf, rq_tokens := arr\<rparr>) (xs @ p)"
    by (auto simp: Let_def simp del: parse_loop.simps)
  let ?q = "rq1\<lparr>rq_parser := ps, rq_buffer := ?bf, rq_tokens := arr\<rparr>"
  have f: "bf_index ?bf = ?i" "bf_capacity ?bf = ?i + int n"
    using n(2-6) b(2) by (simp_all add: head_buffer_def Let_def max_buf HTTP_REQUEST_BUF_SIZE_def)
  have "bf_index (rq_buffer ?q) = int (length (xs @ p))" using f(1) d by simp
  from loop_small_waits [where call = ?call and k = k and mx = max_buf, OF l(2) deref_assign [of r ?q w1]] this obtain ps' where
    p: "parse_loop (Suc k) ?call r max_buf (assign r ?q w1) = Inr (HS_READ_RC_SUCCESS,
      assign r (?q\<lparr>rq_parser := ps', rq_buffer := ?bf\<lparr>bf_index := int (length (xs @ p))\<rparr>\<rparr>) w1)"
    by (auto simp del: parse_loop.simps)
  let ?rq = "?q\<lparr>rq_parser := ps', rq_buffer := ?bf\<lparr>bf_index := int (length (xs @ p))\<rparr>\<rparr>"
  have "request_cycle user (Suc m) E_Read r w = Inr (assign r ?rq w1)"
    using e l(1) p by (simp add: hs_read_socket_and_handle_return_code_def del: parse_loop.simps)
  moreover have "enlarged b fd (render_head h) (int (length (render_head h) + n)) ?rq"
    using l(2) r(1-3) d n(4) f(2) by (simp add: enlarged_def in_body_def Let_def)
  moreover have "w_build (assign r ?rq w1) = b" "w_reads (assign r ?rq w1) fd = evs" "w_memused (assign r ?rq w1) = 1024"
    using w(1,4) mem by (simp_all add: assign_def w_memused_def)
  ultimately show ?thesis by (metis deref_assign)
qed

text \<open>When the client hangs up, the account is charged back for the whole block.\<close>

lemma enlarged_closes:
  assumes d: "deref r w = Inr rq" and e: "enlarged b fd xs cap rq" and rd: "w_reads w fd = R_Eof # evs"
    and b: "w_build w = b" "cap < 2147483648" "w_memused w = 1024"
  shows "\<exists>w'. handle_event (run_handler user (Suc n)) (Ev_Request r) w = Inr w' \<and> w_heap w' r = None
    \<and> w_memused w' = 1024 - cap \<and> Close fd \<in> set (w_calls w')"
proof -
  note q = e [unfolded enlarged_def]
  let ?bf = "(rq_buffer rq)\<lparr>bf_sequence_id := i8 (bf_sequence_id (rq_buffer rq) + 1)\<rparr>"
  let ?rq = "rq\<lparr>rq_state := HTTP_SESSION_READ, rq_timeout := HTTP_REQUEST_TIMEOUT\<rparr>"
  obtain m where buf: "bf_buf (rq_buffer rq) = Some m" "bf_length (rq_buffer rq) = int (length xs)" using q by (auto elim: buffer_holdsE)
  have "hs_read_loop (rq_buffer rq) fd mx w = Inr (0, rq_buffer rq, w)" for mx
    using rd q buf(2) by (subst hs_read_loop.simps) (simp add: os_read_def hs_buffer_grow_def set_memused_def w_memused_def)
  then have "hs_read_request_and_exec_user_cb call r read_opts w = Inr (HS_READ_RC_SOCKET_ERR, assign r (?rq\<lparr>rq_buffer := ?bf\<rparr>) w)" for call
    using d buf q by (simp add: hs_read_request_and_exec_user_cb_def Let_def read_opts_def hs_read_into_buffer_def hs_buffer_requires_read_def)
  then have c: "request_cycle user (Suc n) E_Read r w = hs_request_terminate_connection r (assign r (?rq\<lparr>rq_buffer := ?bf\<rparr>) w)"
    by (simp add: hs_read_socket_and_handle_return_code_def)
  have "handle_event (run_handler user (Suc n)) (Ev_Request r) w = request_cycle user (Suc n) E_Read r w"
    using d q b(1) by (cases b) (auto simp: handle_event_def event_handler_def event_handler_kqueue_def
      event_handler_epoll_def run_handler_def kqueue_client_event hs_on_epoll_client_connection_event_def)
  moreover have "hs_buffer_free ?bf 1024 = (?bf\<lparr>bf_buf := None\<rparr>, 1024 - cap)"
    using buf(1) b(2) q by (simp add: hs_buffer_free_def i64_id)
  then have "\<exists>w'. hs_request_terminate_connection r (assign r (?rq\<lparr>rq_buffer := ?bf\<rparr>) w) = Inr w' \<and> w_heap w' r = None
    \<and> w_memused w' = 1024 - cap \<and> Close fd \<in> set (w_calls w')"
    unfolding hs_request_terminate_connection_def using b(3) q
    by (cases "w_build w") (auto simp: Let_def hs_delete_events_def hs_delete_events_kqueue_def os_log_def assign_def
        set_memused_def deref_def w_memused_def)
  ultimately show ?thesis by (simp only: c)
qed

section \<open>From the start of the server\<close>

text \<open>
  C40. The server loses its account of the memory. The head of a request with a body is received, which
  does not fit the first buffer of 1024 bytes: the parser enlarges the buffer to the length of both, and
  the account stays at 1024 bytes. When the client hangs up, the buffer is freed and the account is
  charged back for its new length. What remains is negative, so each such connection allows the
  server to use more memory than its limit, which is compared with that account.
\<close>

theorem announced_body_unaccounted:
  assumes "started serv port handler now w = Inr w1" and "w_shift w = 0"
    and "w_accepts w = [fd]" and "0 < fd" and "w_reads w fd = concat (map arrives (p # ps)) @ [R_Eof]"
    and "large_post h n" and "concat (p # ps) = render_head h" and "ps \<noteq> []" and "last ps \<noteq> []"
  shows "\<exists>w2 rq w3. event_loop (run_handler user (Suc m)) (Ev_Server_Socket # replicate (length ps) (Ev_Request (w_next w))) w1 = Inr w2
    \<and> deref (w_next w) w2 = Inr rq \<and> block_size (bf_buf (rq_buffer rq)) = int (length (render_head h) + n) \<and> w_memused w2 = 1024
    \<and> handle_event (run_handler user (Suc m)) (Ev_Request (w_next w)) w2 = Inr w3 \<and> w_heap w3 (w_next w) = None
    \<and> w_memused w3 = 1024 - int (length (render_head h) + n) \<and> w_memused w3 < 0"
proof -
  let ?r = "w_next w"
  note st = started_ready [OF assms(1)] started_simps [OF assms(1)]
  have n: "short_head h" "1024 < length (render_head h) + n" "length (render_head h) + n \<le> 8388608"
    using assms(6) by (simp_all add: large_post_def)
  define qs q where "qs = butlast ps" and "q = last ps"
  then have ps: "ps = qs @ [q]" "q \<noteq> []" using assms(8,9) by simp_all
  have d: "render_head h = p @ (concat qs @ q)" "render_head h = (p @ concat qs) @ q" using assms(7) ps(1) by simp_all
  have ne: "concat qs @ q \<noteq> []" using ps(2) by simp
  have "w_memused w1 \<le> HTTP_MAX_TOTAL_EST_MEM_USAGE" using st(4) by (simp add: HTTP_MAX_TOTAL_EST_MEM_USAGE_def)
  with accept_event_receives [where user = user and n = m and w = w1 and evs = "concat (map arrives qs) @ arrives q @ [R_Eof]",
      OF n(1) _ _ assms(4) _ _ _ d(1) ne] st assms(2,3,5) ps(1) obtain w2 where
    w2: "handle_event (run_handler user (Suc m)) Ev_Server_Socket w1 = Inr w2"
      "receiving [] (w_build w) handler ?r fd p (concat (map arrives qs) @ arrives q @ [R_Eof]) w2" "reading ?r w2" "joined ?r w1 w2" by auto
  from pieces_wait [where user = user and n = m, OF n(1) w2(2,3) d(2) ps(2)] obtain w3 where
    w3: "event_loop (run_handler user (Suc m)) (replicate (length qs) (Ev_Request ?r)) w2 = Inr w3"
      "receiving [] (w_build w) handler ?r fd (p @ concat qs) (arrives q @ [R_Eof]) w3" "reading ?r w3" "undisturbed ?r w2 w3" by blast
  have "unowned ?r w3 = 0" using joined_undisturbed [OF w2(4) w3(4)] st(4) by (simp add: joined_def)
  from head_grows [where user = user and m = m, OF assms(6) w3(2) d(2) [symmetric] this] obtain w4 rq where
    w4: "request_cycle user (Suc m) E_Read ?r w3 = Inr w4" "deref ?r w4 = Inr rq"
      "enlarged (w_build w) fd (render_head h) (int (length (render_head h) + n)) rq"
      "w_build w4 = w_build w" "w_reads w4 fd = [R_Eof]" "w_memused w4 = 1024" by blast
  have "int (length (render_head h) + n) < 2147483648" using n(3) by simp
  from enlarged_closes [where user = user and n = m, OF w4(2,3,5,4) this w4(6)] obtain w5 where
    w5: "handle_event (run_handler user (Suc m)) (Ev_Request ?r) w4 = Inr w5" "w_heap w5 ?r = None"
      "w_memused w5 = 1024 - int (length (render_head h) + n)" by blast
  have rep: "replicate (length ps) (Ev_Request ?r) = replicate (length qs) (Ev_Request ?r) @ [Ev_Request ?r]"
    by (simp add: ps(1) replicate_append_same)
  have "event_loop (run_handler user (Suc m)) (Ev_Server_Socket # replicate (length ps) (Ev_Request ?r)) w1 = Inr w4"
    using w2(1) w3(1) w4(1) read_event_handled [OF w3(2,3), of user "Suc m"] unfolding rep
    by (simp add: event_loop_append del: request_cycle.simps)
  moreover have "block_size (bf_buf (rq_buffer rq)) = int (length (render_head h) + n)"
    using w4(3) by (auto simp: enlarged_def block_size_def elim: buffer_holdsE)
  ultimately show ?thesis using w4(2,6) w5 n(2) by (intro exI [of _ w4] exI [of _ rq] exI [of _ w5]) (simp del: event_loop.simps)
qed

section \<open>An instance\<close>

text \<open>A client announces a thousand bytes and hangs up.\<close>

definition bulk_head :: request_head where
  "bulk_head = \<lparr>hd_method = ''POST'', hd_target = ''/'', hd_minor = CHR ''1'', hd_headers = [(''Content-Length'', '' '', ''1000'')]\<rparr>"

definition bulk_world :: world where
  "bulk_world = (idle_world EPOLL)\<lparr>w_reads := (\<lambda>_. [])(7 := concat (map arrives [take 9 (render_head bulk_head), drop 9 (render_head bulk_head)]) @ [R_Eof])\<rparr>"

lemma bulk_facts: "large_post bulk_head 1000" "length (render_head bulk_head) = 41" "drop 9 (render_head bulk_head) \<noteq> []"
proof -
  show l: "length (render_head bulk_head) = 41" "drop 9 (render_head bulk_head) \<noteq> []" by code_simp+
  have "short_head bulk_head" "announced_length (hd_headers bulk_head) 0 = 1000" "\<not> announced_chunked (hd_headers bulk_head) False"
    by code_simp+
  then show "large_post bulk_head 1000" by (simp add: large_post_def l(1))
qed

theorem announced_body_unaccounted_witness:
  "\<exists>w1 w2 w3. started sample_server 8080 0 0 bulk_world = Inr w1
    \<and> event_loop (run_handler (\<lambda>_ _ _. Return) 1) [Ev_Server_Socket, Ev_Request 0] w1 = Inr w2 \<and> w_memused w2 = 1024
    \<and> handle_event (run_handler (\<lambda>_ _ _. Return) 1) (Ev_Request 0) w2 = Inr w3 \<and> w_memused w3 = - 17"
proof -
  obtain w1 where w1: "started sample_server 8080 0 0 bulk_world = Inr w1" using started_total by blast
  let ?p = "take 9 (render_head bulk_head)" and ?q = "drop 9 (render_head bulk_head)"
  have w: "w_shift bulk_world = 0" "w_accepts bulk_world = [7]" "w_next bulk_world = 0"
    "w_reads bulk_world 7 = concat (map arrives (?p # [?q])) @ [R_Eof]"
    by (simp_all add: bulk_world_def idle_world_def sample_world_def)
  have "concat (?p # [?q]) = render_head bulk_head" "last [?q] \<noteq> []" "[?q] \<noteq> []" "(0 :: int) < 7" using bulk_facts(3) by simp_all
  from announced_body_unaccounted [where user = "\<lambda>_ _ _. Return" and m = 0, OF w1 w(1,2) this(4) w(4) bulk_facts(1) this(1,3,2)] obtain w2 w3 where
    "event_loop (run_handler (\<lambda>_ _ _. Return) (Suc 0)) (Ev_Server_Socket # replicate (length [?q]) (Ev_Request 0)) w1 = Inr w2"
    "w_memused w2 = 1024" "handle_event (run_handler (\<lambda>_ _ _. Return) (Suc 0)) (Ev_Request 0) w2 = Inr w3"
    "w_memused w3 = 1024 - int (length (render_head bulk_head) + 1000)" unfolding w(3) by blast
  then show ?thesis using w1 bulk_facts(2)
    by (intro exI [of _ w1] exI [of _ w2] exI [of _ w3]) (simp del: event_loop.simps)
qed

end
