(* ===== verification/Readable.thy ===== *)
theory Readable
  imports Delivered
begin

text \<open>
  What a handler reads in a request is what the client sent.
\<close>

section \<open>The parts of a head, looked up\<close>

text \<open>The value of the first header of that name, up to letter case.\<close>

fun sent_value :: "(string \<times> string \<times> string) list \<Rightarrow> string \<Rightarrow> string option" where
  "sent_value [] key = None"
| "sent_value ((k, ws, v) # hs) key = (if map to_lower k = map to_lower key then Some v else sent_value hs key)"

text \<open>The string that a call returns stands for the text \<open>s\<close> in the request's buffer.\<close>

definition reads_as :: "http_request_s \<Rightarrow> http_string_s result \<Rightarrow> string \<Rightarrow> bool" where
  "reads_as rq res s \<longleftrightarrow> (case res of Inl e \<Rightarrow> False | Inr str \<Rightarrow> st_len str = int (length s)
     \<and> (case st_buf str of None \<Rightarrow> False | Some off \<Rightarrow> points_to (bf_buf (rq_buffer rq)) off s))"

lemma reads_as_token:
  "token_text (bf_buf (rq_buffer rq)) t s \<Longrightarrow> reads_as rq (Inr (token_string t)) s"
  by (simp add: reads_as_def token_text_def token_string_def)

lemma typed_Cons:
  assumes "map (\<lambda>(t, s). (tk_type t, s)) tts = (ty, s) # rest"
  obtains t tts' where "tts = (t, s) # tts'" "tk_type t = ty" "map (\<lambda>(t, s). (tk_type t, s)) tts' = rest"
  using assms by (cases tts) auto

lemma parts_lookup:
  assumes "map (\<lambda>(t, s). (tk_type t, s)) tts = header_parts hs @ [(HSH_TOK_HEADERS_DONE, [])]"
  shows "case sent_value hs key of None \<Rightarrow> lookup_header tts key = None
    | Some v \<Rightarrow> \<exists>t. lookup_header tts key = Some t \<and> (t, v) \<in> set tts"
  using assms
proof (induction hs arbitrary: tts)
  case Nil
  then show ?case by (cases tts) (auto simp: header_parts_def)
next
  case (Cons x hs)
  obtain k ws v where x: "x = (k, ws, v)" by (cases x)
  have "header_parts (x # hs) @ [(HSH_TOK_HEADERS_DONE, [])]
      = (HSH_TOK_HEADER_KEY, k) # (HSH_TOK_HEADER_VALUE, v) # header_parts hs @ [(HSH_TOK_HEADERS_DONE, [])]"
    by (simp add: header_parts_def x)
  note prems = Cons.prems [unfolded this]
  obtain t1 tts1 where t1: "tts = (t1, k) # tts1" "tk_type t1 = HSH_TOK_HEADER_KEY"
    "map (\<lambda>(t, s). (tk_type t, s)) tts1 = (HSH_TOK_HEADER_VALUE, v) # header_parts hs @ [(HSH_TOK_HEADERS_DONE, [])]"
    by (rule typed_Cons [OF prems])
  obtain t2 tts2 where t2: "tts1 = (t2, v) # tts2" "tk_type t2 = HSH_TOK_HEADER_VALUE"
    "map (\<lambda>(t, s). (tk_type t, s)) tts2 = header_parts hs @ [(HSH_TOK_HEADERS_DONE, [])]"
    by (rule typed_Cons [OF t1(3)])
  show ?case
  proof (cases "map to_lower k = map to_lower key")
    case True
    then show ?thesis by (simp add: x t1(1,2) t2(1))
  next
    case False
    with Cons.IH [OF t2(3)] show ?thesis by (auto simp: x t1(1,2) t2(1,2) split: option.splits)
  qed
qed

lemma head_parts_lookup:
  assumes "map (\<lambda>(t, s). (tk_type t, s)) tts = head_parts h"
  shows "\<exists>t. find_type tts HSH_TOK_METHOD = Some (t, hd_method h)"
    "\<exists>t. find_type tts HSH_TOK_TARGET = Some (t, hd_target h)"
    "case sent_value (hd_headers h) key of None \<Rightarrow> lookup_header tts key = None
      | Some v \<Rightarrow> \<exists>t. lookup_header tts key = Some t \<and> (t, v) \<in> set tts"
    "closed_tokens tts"
    "\<exists>t. find_type tts HSH_TOK_VERSION = Some (t, ''HTTP/1.'' @ [hd_minor h])"
proof -
  let ?m = "map (\<lambda>(t, s). (tk_type t, s))"
  have p: "?m tts = (HSH_TOK_METHOD, hd_method h) # (HSH_TOK_TARGET, hd_target h) # (HSH_TOK_VERSION, ''HTTP/1.'' @ [hd_minor h])
      # header_parts (hd_headers h) @ [(HSH_TOK_HEADERS_DONE, [])]"
    unfolding assms by (simp add: head_parts_def)
  obtain t1 r1 where t1: "tts = (t1, hd_method h) # r1" "tk_type t1 = HSH_TOK_METHOD"
    "?m r1 = (HSH_TOK_TARGET, hd_target h) # (HSH_TOK_VERSION, ''HTTP/1.'' @ [hd_minor h])
      # header_parts (hd_headers h) @ [(HSH_TOK_HEADERS_DONE, [])]" by (rule typed_Cons [OF p])
  obtain t2 r2 where t2: "r1 = (t2, hd_target h) # r2" "tk_type t2 = HSH_TOK_TARGET"
    "?m r2 = (HSH_TOK_VERSION, ''HTTP/1.'' @ [hd_minor h]) # header_parts (hd_headers h) @ [(HSH_TOK_HEADERS_DONE, [])]"
    by (rule typed_Cons [OF t1(3)])
  obtain t3 tts' where t3: "r2 = (t3, ''HTTP/1.'' @ [hd_minor h]) # tts'" "tk_type t3 = HSH_TOK_VERSION"
    "?m tts' = header_parts (hd_headers h) @ [(HSH_TOK_HEADERS_DONE, [])]" by (rule typed_Cons [OF t2(3)])
  note t = t1(1) t2(1) t3(1) t1(2) t2(2) t3(2)
  show "\<exists>t. find_type tts HSH_TOK_METHOD = Some (t, hd_method h)"
    "\<exists>t. find_type tts HSH_TOK_TARGET = Some (t, hd_target h)"
    "\<exists>t. find_type tts HSH_TOK_VERSION = Some (t, ''HTTP/1.'' @ [hd_minor h])" by (simp_all add: t)
  show "case sent_value (hd_headers h) key of None \<Rightarrow> lookup_header tts key = None
      | Some v \<Rightarrow> \<exists>t. lookup_header tts key = Some t \<and> (t, v) \<in> set tts"
    using parts_lookup [OF t3(3), of key] by (auto simp: t split: option.splits)
  have "last (map (\<lambda>(t, s). (tk_type t, s)) tts) = (HSH_TOK_HEADERS_DONE, [])"
    unfolding assms by (simp add: head_parts_def)
  then show "closed_tokens tts"
    by (cases tts rule: rev_cases) (auto simp: closed_tokens_def)
qed

text \<open>
  C32. The handler reads what the client sent. In a request that has been delivered on a new
  connection, the method, the target and the value of a header looked up by its name, in any letter
  case, are the texts of the head, and a name that the head does not have gives the null string.
\<close>

theorem delivered_request_readable:
  assumes "delivered [] h rq"
  shows "reads_as rq (http_request_method rq) (hd_method h) \<and> reads_as rq (http_request_target rq) (hd_target h)
    \<and> (case sent_value (hd_headers h) key of
         None \<Rightarrow> http_request_header rq key = Inr string_null
       | Some v \<Rightarrow> reads_as rq (http_request_header rq key) v)"
proof -
  from assms obtain tts where t: "request_reads rq tts" "map (\<lambda>(t, s). (tk_type t, s)) tts = head_parts h"
    by (auto simp: delivered_def request_reads_def)
  note l = head_parts_lookup [OF t(2)]
  have read: "(t, s) \<in> set tts \<Longrightarrow> reads_as rq (Inr (token_string t)) s" for t s
    using t(1) reads_as_token by (auto simp: request_reads_def list_all_iff)
  from l(1,2) obtain t1 t2 where "find_type tts HSH_TOK_METHOD = Some (t1, hd_method h)"
    "find_type tts HSH_TOK_TARGET = Some (t2, hd_target h)" by blast
  with get_token_string_type [OF t(1)] read [OF find_type_in]
  have "reads_as rq (http_request_method rq) (hd_method h)" "reads_as rq (http_request_target rq) (hd_target h)"
    by (simp_all add: http_request_method_def http_request_target_def header_string_def)
  moreover have "case sent_value (hd_headers h) key of
         None \<Rightarrow> http_request_header rq key = Inr string_null
       | Some v \<Rightarrow> reads_as rq (http_request_header rq key) v"
    using l(3) [of key] request_header_lookup [OF t(1) l(4), of key] read
    by (auto simp: http_request_header_def header_string_def split: option.splits)
  ultimately show ?thesis by blast
qed

section \<open>An instance\<close>

definition two_headers :: request_head where
  "two_headers = \<lparr>hd_method = ''GET'', hd_target = ''/'', hd_minor = CHR ''1'',
     hd_headers = [(''Host'', '' '', ''a''), (''Connection'', '' '', ''close'')]\<rparr>"

definition streamed_request :: http_request_s where
  "streamed_request = sample_request\<lparr>rq_flags := HTTP_FLG_STREAMED\<rparr>"

lemma two_headers_delivered: "delivered [] two_headers streamed_request"
proof -
  have "map (\<lambda>(t, s). (tk_type t, s)) sample_tokens = head_parts two_headers"
    by (simp add: sample_tokens_def head_parts_def header_parts_def two_headers_def)
  moreover have "HTTP_FLAG_CHECK HTTP_FLG_STREAMED HTTP_FLG_STREAMED" by code_simp
  ultimately show ?thesis
    using sample_request_reads(1) by (auto simp: delivered_def request_reads_def streamed_request_def)
qed

theorem delivered_request_readable_witness:
  "reads_as streamed_request (http_request_target streamed_request) ''/''
    \<and> reads_as streamed_request (http_request_header streamed_request ''CONNECTION'') ''close''"
proof -
  have "sent_value (hd_headers two_headers) ''CONNECTION'' = Some ''close''" by code_simp
  with delivered_request_readable [OF two_headers_delivered, of "''CONNECTION''"] show ?thesis
    by (simp add: two_headers_def)
qed

end
