(* ===== verification/Clock_Props.thy ===== *)
theory Clock_Props
  imports Server
begin

text \<open>
  The date line of the responses, read back: a client that knows the format gets the server's clock.
\<close>

section \<open>Reading numbers\<close>

definition number_of :: "string \<Rightarrow> nat" where
  "number_of s = foldl (\<lambda>n c. 10 * n + (of_char c - 48)) 0 s"

lemma digit_value: "n < 10 \<Longrightarrow> of_char (digit_char n) - 48 = n"
  by (simp add: digit_char_def of_char_of)

lemma two_digits_number: "0 \<le> n \<Longrightarrow> n < 100 \<Longrightarrow> number_of (two_digits n) = nat n"
  by (simp add: two_digits_def number_of_def digit_value)

lemma format_four:
  assumes "1000 \<le> n" and "n < 10000"
  shows "format_d n = [digit_char (nat n div 1000), digit_char (nat n div 100 mod 10), digit_char (nat n div 10 mod 10), digit_char (nat n mod 10)]"
proof -
  define k where "k = nat n"
  have k: "1000 \<le> k" "k < 10000" using assms by (auto simp: k_def)
  have "k div 10 div 10 = k div 100" "k div 10 div 10 div 10 = k div 1000" by (simp_all flip: div_mult2_eq)
  moreover have "k div 1000 < 10" "\<not> k div 100 < 10" "\<not> k div 10 < 10" "\<not> k < 10" using k by (simp_all add: div_less_iff_less_mult)
  ultimately have "format_base 10 k = [digit_char (k div 1000), digit_char (k div 100 mod 10), digit_char (k div 10 mod 10), digit_char (k mod 10)]"
    using k by (simp add: format_base.simps [of 10 k] format_base.simps [of 10 "k div 10"] format_base.simps [of 10 "k div 100"]
        format_base.simps [of 10 "k div 1000"])
  then show ?thesis using assms by (simp add: format_d_def k_def)
qed

lemma year_number:
  assumes "1000 \<le> n" and "n < 10000"
  shows "number_of (format_d n) = nat n" and "length (format_d n) = 4"
proof -
  define k where "k = nat n"
  have k: "k < 10000" using assms by (auto simp: k_def)
  have "k div 1000 = k div 10 div 10 div 10" "k div 100 = k div 10 div 10" by (simp_all flip: div_mult2_eq)
  then have "10 * (10 * (10 * (k div 1000) + k div 100 mod 10) + k div 10 mod 10) + k mod 10 = k"
    using mult_div_mod_eq [of 10 k] mult_div_mod_eq [of 10 "k div 10"] mult_div_mod_eq [of 10 "k div 10 div 10"] by simp
  then show "number_of (format_d n) = nat n" "length (format_d n) = 4"
    using k by (simp_all add: format_four [OF assms] number_of_def digit_value flip: k_def)
qed

section \<open>Reading a date\<close>

text \<open>The index of a name in a list of names of three letters.\<close>

fun name_index :: "string list \<Rightarrow> string \<Rightarrow> nat option" where
  "name_index [] s = None"
| "name_index (n # ns) s = (if n = s then Some 0 else map_option Suc (name_index ns s))"

lemma name_index_nth: "distinct ns \<Longrightarrow> i < length ns \<Longrightarrow> name_index ns (ns ! i) = Some i"
proof (induction ns arbitrary: i)
  case (Cons n ns)
  then show ?case by (cases i) auto
qed simp

definition field :: "nat \<Rightarrow> nat \<Rightarrow> string \<Rightarrow> string" where
  "field i n s = take n (drop i s)"

text \<open>
  The fixed format of RFC 9110: \<open>Thu, 01 Jan 1970 00:00:00 GMT\<close>. The result is the time in seconds
  since 1970, if the text has that form and the day of the week is right.
\<close>

definition read_date :: "string \<Rightarrow> int option" where
  "read_date s =
     (if length s = 29 \<and> field 3 2 s = '', '' \<and> field 7 1 s = '' '' \<and> field 11 1 s = '' '' \<and> field 16 1 s = '' ''
         \<and> field 19 1 s = '':'' \<and> field 22 1 s = '':'' \<and> field 25 4 s = '' GMT''
      then case (name_index day_names (field 0 3 s), name_index month_names (field 8 3 s)) of
          (Some wday, Some mon) \<Rightarrow>
            let t = seconds_since (int (number_of (field 12 4 s))) mon (int (number_of (field 5 2 s)))
                  (int (number_of (field 17 2 s))) (int (number_of (field 20 2 s))) (int (number_of (field 23 2 s)))
            in if int wday = (t div 86400 + 4) mod 7 then Some t else None
        | _ \<Rightarrow> None
      else None)"

lemma names_short: "i < 7 \<Longrightarrow> length (day_names ! i) = 3" "j < 12 \<Longrightarrow> length (month_names ! j) = 3"
proof -
  have "list_all (\<lambda>s. length s = 3) day_names" "list_all (\<lambda>s. length s = 3) month_names" by code_simp+
  moreover have "length day_names = 7" "length month_names = 12" by code_simp+
  ultimately show "i < 7 \<Longrightarrow> length (day_names ! i) = 3" "j < 12 \<Longrightarrow> length (month_names ! j) = 3"
    by (simp_all add: list_all_length)
qed

lemma date_line_fields:
  assumes "length a = 3" and "length b = 3" and "length y = 4"
    and "length d = 2" and "length h = 2" and "length m = 2" and "length c = 2"
    and "s = a @ '', '' @ d @ '' '' @ b @ '' '' @ y @ '' '' @ h @ '':'' @ m @ '':'' @ c @ '' GMT''"
  shows "length s = 29" "field 0 3 s = a" "field 3 2 s = '', ''" "field 5 2 s = d" "field 7 1 s = '' ''" "field 8 3 s = b"
    "field 11 1 s = '' ''" "field 12 4 s = y" "field 16 1 s = '' ''" "field 17 2 s = h" "field 19 1 s = '':''" "field 20 2 s = m"
    "field 22 1 s = '':''" "field 23 2 s = c" "field 25 4 s = '' GMT''"
  using assms by (simp_all add: field_def)

lemma date_line_read:
  assumes "0 \<le> t" and "t < 253402300800"
  shows "length (date_line (gmtime t)) = 29" and "read_date (date_line (gmtime t)) = Some t"
proof -
  obtain tm where tm: "gmtime t = tm" by simp
  note g = gmtime_since [OF tm]
  have y: "1000 \<le> tm_year tm + 1900" "tm_year tm + 1900 < 10000" using gmtime_year [OF assms] tm by simp_all
  let ?s = "date_line tm"
  have two: "length (two_digits n) = 2" for n by (simp add: two_digits_def)
  note f = date_line_fields [OF names_short(1) [OF g(11)] names_short(2) [OF g(2)] year_number(2) [OF y] two two two two date_line_def]
  show "length (date_line (gmtime t)) = 29" using f(1) by (simp add: tm)
  have i: "name_index day_names (day_names ! tm_wday tm) = Some (tm_wday tm)"
    using g(11) by (intro name_index_nth) (simp_all add: day_names_def)
  have j: "name_index month_names (month_names ! tm_mon tm) = Some (tm_mon tm)"
    using g(2) by (intro name_index_nth) (simp_all add: month_names_def)
  have n: "int (number_of (format_d (tm_year tm + 1900))) = tm_year tm + 1900" using year_number(1) [OF y] y by simp
  have "int (number_of (two_digits (tm_mday tm))) = tm_mday tm" "int (number_of (two_digits (tm_hour tm))) = tm_hour tm"
    "int (number_of (two_digits (tm_min tm))) = tm_min tm" "int (number_of (two_digits (tm_sec tm))) = tm_sec tm"
    using g by (simp_all add: two_digits_number)
  then have "read_date ?s = Some t" unfolding read_date_def f i j n using g(1,12) by (simp add: Let_def)
  then show "read_date (date_line (gmtime t)) = Some t" by (simp add: tm)
qed

text \<open>
  C9. The date of the responses. The line that the server prints from the clock, when it starts and at
  each tick of its timer, has the 29 characters of the fixed format of HTTP up to the end of the year
  9999, so that it fits the 32 bytes of \<open>date\<close>; read back in that format, with an independent count
  of the leap years, it is the time of the clock, and the day of the week is the right one.
\<close>

theorem date_line_reads_back:
  assumes "0 \<le> t" and "t < 253402300800"
  shows "length (sv_date (hs_generate_date_time t serv)) = 29 \<and> read_date (sv_date (hs_generate_date_time t serv)) = Some t"
  using date_line_read [OF assms] by (simp add: hs_generate_date_time_def)

section \<open>Instances\<close>

lemmas date_eval = date_line_def gmtime_def split_years.simps month_days_def year_days_def leap_year_def Let_def
  day_names_def month_names_def two_digits_def digit_char_def format_d_def format_base.simps char_of_def bit_Suc_0_iff

lemma date_zero: "date_line (gmtime 0) = ''Thu, 01 Jan 1970 00:00:00 GMT''"
  by (simp add: date_eval)

text \<open>Noon on a leap day.\<close>

lemma date_leap: "date_line (gmtime 951825599) = ''Tue, 29 Feb 2000 11:59:59 GMT''"
  by (simp add: date_eval)

theorem date_line_reads_back_witness:
  "sv_date (hs_generate_date_time 951825599 sample_server) = ''Tue, 29 Feb 2000 11:59:59 GMT''
    \<and> read_date ''Tue, 29 Feb 2000 11:59:59 GMT'' = Some 951825599"
  using date_line_reads_back [of 951825599 sample_server] by (simp add: hs_generate_date_time_def date_leap)

end
