(* ===== verification/Answered.thy ===== *)
theory Answered
  imports Readable Clock_Props
begin

text \<open>
  The whole way of a request: from its bytes over the user's handler, which answers at once, to the
  bytes of the response, however the socket cuts both, and what becomes of the connection then.
\<close>

section \<open>Writing with the books kept\<close>

text \<open>A connection in the middle of writing, with its books: \<open>k\<close> bytes of \<open>text\<close> are gone.\<close>

definition sending ::
    "build \<Rightarrow> ptr \<Rightarrow> int \<Rightarrow> bool \<Rightarrow> int \<Rightarrow> string \<Rightarrow> nat \<Rightarrow> world \<Rightarrow> bool"
  where
  "sending b r fd keep m text k w \<longleftrightarrow>
     (\<exists>rq us. writing r w rq text k \<and> rq_state rq = HTTP_SESSION_WRITE \<and> rq_socket rq = fd \<and> rq_handler rq = client_handler b
        \<and> tokens_hold (rq_tokens rq) us \<and> length us < 100000000
        \<and> \<not> HTTP_FLAG_CHECK (rq_flags rq) HTTP_CHUNKED_RESPONSE \<and> HTTP_FLAG_CHECK (rq_flags rq) HTTP_KEEP_ALIVE = keep)
     \<and> w_build w = b \<and> w_shift w = 0 \<and> unowned r w = m \<and> 0 \<le> m \<and> m < 1152921504606846976
     \<and> no_epipe w fd"

text \<open>The response is out: the connection waits for the next request, of which it has nothing yet, or it is gone.\<close>

definition empty_handed :: "ptr \<Rightarrow> world \<Rightarrow> bool" where
  "empty_handed r w \<longleftrightarrow> (\<exists>rq. deref r w = Inr rq \<and> (bf_buf (rq_buffer rq) = None \<or> buffer_holds (rq_buffer rq) []))"

definition settled :: "ptr \<Rightarrow> int \<Rightarrow> bool \<Rightarrow> int \<Rightarrow> world \<Rightarrow> bool" where
  "settled r fd keep m w \<longleftrightarrow>
     (if keep then reading r w \<and> empty_handed r w \<and> unowned r w = m
      else w_heap w r = None \<and> w_memused w = m \<and> Close fd \<in> set (w_calls w))"

lemma receiving_empty_handed:
  assumes "receiving old b H r fd [] evs w"
  shows "empty_handed r w" and "w_reads w fd = evs"
proof -
  from assms obtain rq ts where rq: "deref r w = Inr rq" "collecting old (fst (opened rq w)) [] ts" "w_reads w fd = evs"
    by (auto simp: receiving_def)
  then show "w_reads w fd = evs" by blast
  from rq(2) have "buffer_holds (rq_buffer (fst (opened rq w))) []" by (simp add: collecting_def Let_def)
  then have "bf_buf (rq_buffer rq) = None \<or> buffer_holds (rq_buffer rq) []"
    by (auto simp: opened_def Let_def split: if_splits)
  with rq(1) show "empty_handed r w" by (auto simp: empty_handed_def)
qed

lemma terminate_settled:
  assumes "hs_write_socket r w = Inr (HS_WRITE_RC_SUCCESS_CLOSE, w1)" and "deref r w1 = Inr rq"
    and "0 \<le> unowned r w1" and "unowned r w1 < 1152921504606846976"
  shows "\<exists>w'. request_cycle user (Suc n) E_Write r w = Inr w' \<and> settled r (rq_socket rq) False (unowned r w1) w'
    \<and> w_sent w' = w_sent w1 \<and> w_writes w' = w_writes w1"
proof -
  let ?rq = "rq\<lparr>rq_timeout := HTTP_REQUEST_TIMEOUT\<rparr>"
  obtain bf m where bf: "hs_buffer_free (rq_buffer rq) (w_memused w1) = (bf, m)" "bf_buf bf = None"
    by (cases "hs_buffer_free (rq_buffer rq) (w_memused w1)") (auto simp: hs_buffer_free_def split: if_splits)
  let ?w2 = "assign r (?rq\<lparr>rq_buffer := bf\<rparr>) (set_memused m (assign r ?rq w1))"
  have "request_buffer_free r (assign r ?rq w1) = Inr ?w2" using bf(1) by (simp add: request_buffer_free_def)
  then have e: "request_cycle user (Suc n) E_Write r w = hs_request_terminate_connection r ?w2"
    using assms(1,2) by (simp add: hs_write_socket_and_handle_return_code_def modify_def)
  have m: "m = unowned r w1"
    using buffer_free_account [of "w_memused w1" "rq_buffer rq"] unowned_deref [OF assms(2)] assms(3,4) bf(1) by simp
  have "hs_buffer_free bf m = (bf, m)" using bf(2) by (simp add: hs_buffer_free_def)
  then show ?thesis unfolding e hs_request_terminate_connection_def
    using m by (cases "w_build w1") (auto simp: settled_def Let_def hs_delete_events_def hs_delete_events_kqueue_def os_log_def assign_def
        set_memused_def deref_def w_memused_def)
qed

text \<open>What every attempt to write leaves alone.\<close>

definition wrote :: "ptr \<Rightarrow> int \<Rightarrow> world \<Rightarrow> world \<Rightarrow> bool" where
  "wrote r fd w w' \<longleftrightarrow> w_build w' = w_build w \<and> w_shift w' = w_shift w \<and> w_server w' = w_server w \<and> w_reads w' = w_reads w
     \<and> w_writes w' fd = tl (w_writes w fd) \<and> no_epipe w' fd \<and> unowned r w' = unowned r w"

text \<open>An attempt takes the rest of the response, or it leaves the connection waiting for its next writable event.\<close>

lemma write_attempt:
  assumes "writing r w rq text k" and "no_epipe w (rq_socket rq)"
  obtains (whole) w1 where "hs_write_socket r w = Inr (if HTTP_FLAG_CHECK (rq_flags rq) HTTP_CHUNKED_RESPONSE then HS_WRITE_RC_SUCCESS_CHUNK
        else if HTTP_FLAG_CHECK (rq_flags rq) HTTP_KEEP_ALIVE then HS_WRITE_RC_SUCCESS else HS_WRITE_RC_SUCCESS_CLOSE, w1)"
      and "deref r w1 = Inr (rq\<lparr>rq_bytes_written := int (length text)\<rparr>)" and "wrote r (rq_socket rq) w w1"
      and "w_sent w1 (rq_socket rq) = w_sent w (rq_socket rq) @ map Some (drop k text)"
  | (part) w1 k' where "\<And>user n. request_cycle user (Suc n) E_Write r w = Inr w1" and "k \<le> k'"
      and "writing r w1 (rq\<lparr>rq_bytes_written := int k', rq_timeout := HTTP_REQUEST_TIMEOUT\<rparr>) text k'"
      and "wrote r (rq_socket rq) w w1" and "w_writes w (rq_socket rq) \<noteq> []"
      and "w_sent w1 (rq_socket rq) = w_sent w (rq_socket rq) @ map Some (take (k' - k) (drop k text))"
proof -
  let ?fd = "rq_socket rq"
  have d: "deref r w = Inr rq" and len: "bf_length (rq_buffer rq) = int (length text)"
    using assms(1) by (auto simp: writing_def elim: buffer_holdsE)
  from write_socket_step [OF assms(1)] obtain w1 k' where
    s: "hs_write_socket r w = Inr (write_outcome rq (w_errno w1) (int k'), w1)"
    "k \<le> k'" "writing r w1 (rq\<lparr>rq_bytes_written := int k'\<rparr>) text k'"
    "w_sent w1 ?fd = w_sent w ?fd @ map Some (take (k' - k) (drop k text))"
    "w_writes w ?fd = [] \<longrightarrow> k' = length text" "w_writes w1 ?fd = tl (w_writes w ?fd)"
    "w_errno w1 = w_errno w \<or> (\<exists>e. W_Fail e \<in> set (w_writes w ?fd) \<and> w_errno w1 = e)"
    by metis
  from write_keeps_request [OF s(1) d] have kp: "w_build w1 = w_build w" "w_shift w1 = w_shift w" "w_server w1 = w_server w"
    "w_reads w1 = w_reads w" by auto
  have err: "w_errno w1 \<noteq> EPIPE" using s(7) assms(2) by (auto simp: no_epipe_def)
  have d1: "deref r w1 = Inr (rq\<lparr>rq_bytes_written := int k'\<rparr>)" using s(3) by (simp add: writing_def)
  have u1: "unowned r w1 = unowned r w" using unowned_deref [OF d1] unowned_deref [OF d] kp(3) by (simp add: w_memused_def)
  have ne: "no_epipe w1 ?fd" using assms(2) s(6) err by (cases "w_writes w ?fd") (auto simp: no_epipe_def)
  show ?thesis
  proof (cases "k' = length text")
    case True
    then have "wrote r ?fd w w1" using kp s(6) ne u1 by (simp add: wrote_def)
    with True s(1,4) d1 err len show ?thesis by (intro whole) (auto simp: write_outcome_def)
  next
    case False
    then have out: "write_outcome rq (w_errno w1) (int k') = HS_WRITE_RC_CONTINUE"
      using len err by (simp add: write_outcome_def)
    let ?rq = "rq\<lparr>rq_bytes_written := int k', rq_timeout := HTTP_REQUEST_TIMEOUT\<rparr>"
    let ?w = "assign r ?rq w1"
    have c: "request_cycle user (Suc n) E_Write r w = Inr ?w" for user n
      using s(1) out d1 by (simp add: hs_write_socket_and_handle_return_code_def modify_def)
    have "unowned r ?w = unowned r w" using unowned_deref [OF deref_assign [of r ?rq w1]] unowned_deref [OF d1] u1 by simp
    moreover have "w_errno ?w = w_errno w1" "w_writes ?w = w_writes w1" by (simp_all add: assign_def)
    ultimately have "wrote r ?fd w ?w" using kp s(6) ne by (simp add: wrote_def no_epipe_def assign_def)
    moreover have "writing r ?w ?rq text k'" using s(3) by (simp add: writing_def)
    moreover have "w_sent ?w ?fd = w_sent w ?fd @ map Some (take (k' - k) (drop k text))" using s(4) by (simp add: assign_def)
    ultimately show ?thesis using c s(2,5) False by (intro part [of ?w k']) auto
  qed
qed

section \<open>Writing over several events\<close>

text \<open>
  A connection that writes \<open>msg\<close>: \<open>busy k w\<close> with \<open>k\<close> bytes gone, \<open>finished\<close> after the last
  one, when the call at depth \<open>l\<close> goes on with \<open>out l w\<close>. Each attempt takes one entry of the socket's script.
\<close>

locale write_phase =
  fixes user :: user_code and r :: ptr and fd :: int and msg :: string
    and busy :: "nat \<Rightarrow> world \<Rightarrow> bool" and finished :: "world \<Rightarrow> bool" and out :: "nat \<Rightarrow> world \<Rightarrow> world result"
  assumes step: "busy k w \<Longrightarrow> \<exists>w'. w_writes w' fd = tl (w_writes w fd)
      \<and> (request_cycle user (Suc (Suc l)) E_Write r w = out l w' \<and> finished w' \<and> w_sent w' fd = w_sent w fd @ map Some (drop k msg)
         \<or> request_cycle user (Suc (Suc l)) E_Write r w = Inr w' \<and> w_writes w fd \<noteq> []
           \<and> (\<exists>k'. busy k' w' \<and> k \<le> k' \<and> w_sent w' fd = w_sent w fd @ map Some (take (k' - k) (drop k msg))))"
    and event: "busy k w \<Longrightarrow> handle_event (run_handler user n) (Ev_Request r) w = request_cycle user n E_Write r w"
begin

lemma ends:
  assumes "busy k w"
  shows "\<exists>j l' w'. l' \<in> {l, n} \<and> finished w' \<and> w_sent w' fd = w_sent w fd @ map Some (drop k msg)
    \<and> j + length (w_writes w' fd) \<le> length (w_writes w fd)
    \<and> (\<forall>evs. bindr (request_cycle user (Suc (Suc l)) E_Write r w)
          (event_loop (run_handler user (Suc (Suc n))) (replicate j (Ev_Request r) @ evs))
        = bindr (out l' w') (event_loop (run_handler user (Suc (Suc n))) evs))"
  using assms
proof (induction "length (w_writes w fd)" arbitrary: w k l rule: less_induct)
  case less
  from step [OF less.prems, of l] obtain w1 where w1: "w_writes w1 fd = tl (w_writes w fd)"
    "request_cycle user (Suc (Suc l)) E_Write r w = out l w1 \<and> finished w1 \<and> w_sent w1 fd = w_sent w fd @ map Some (drop k msg)
     \<or> request_cycle user (Suc (Suc l)) E_Write r w = Inr w1 \<and> w_writes w fd \<noteq> []
       \<and> (\<exists>k'. busy k' w1 \<and> k \<le> k' \<and> w_sent w1 fd = w_sent w fd @ map Some (take (k' - k) (drop k msg)))" by blast
  from w1(2) show ?case
  proof
    assume "request_cycle user (Suc (Suc l)) E_Write r w = out l w1 \<and> finished w1 \<and> w_sent w1 fd = w_sent w fd @ map Some (drop k msg)"
    with w1(1) show ?thesis by (intro exI [of _ 0] exI [of _ l] exI [of _ w1]) simp
  next
    assume "request_cycle user (Suc (Suc l)) E_Write r w = Inr w1 \<and> w_writes w fd \<noteq> []
       \<and> (\<exists>k'. busy k' w1 \<and> k \<le> k' \<and> w_sent w1 fd = w_sent w fd @ map Some (take (k' - k) (drop k msg)))"
    then obtain k' where k: "request_cycle user (Suc (Suc l)) E_Write r w = Inr w1" "w_writes w fd \<noteq> []" "busy k' w1" "k \<le> k'"
      "w_sent w1 fd = w_sent w fd @ map Some (take (k' - k) (drop k msg))" by blast
    have "length (w_writes w1 fd) < length (w_writes w fd)" using w1(1) k(2) by (cases "w_writes w fd") auto
    from less.hyps [OF this k(3), of n] obtain j l' w' where
      j: "l' = n" "finished w'" "w_sent w' fd = w_sent w1 fd @ map Some (drop k' msg)" "j + length (w_writes w' fd) \<le> length (w_writes w1 fd)"
      "\<forall>evs. bindr (request_cycle user (Suc (Suc n)) E_Write r w1)
          (event_loop (run_handler user (Suc (Suc n))) (replicate j (Ev_Request r) @ evs))
        = bindr (out l' w') (event_loop (run_handler user (Suc (Suc n))) evs)" by auto
    have "take (k' - k) (drop k msg) @ drop k' msg = drop k msg"
      using append_take_drop_id [of "k' - k" "drop k msg"] k(4) by simp
    then have "w_sent w' fd = w_sent w fd @ map Some (drop k msg)" using j(3) k(5) by (simp flip: map_append)
    moreover have "Suc j + length (w_writes w' fd) \<le> length (w_writes w fd)"
      using j(4) w1(1) k(2) by (cases "w_writes w fd") auto
    ultimately show ?thesis using j(1,2,5) k(1) event [OF k(3), of "Suc (Suc n)"]
      by (intro exI [of _ "Suc j"] exI [of _ n] exI [of _ w']) (simp del: request_cycle.simps)
  qed
qed

end

text \<open>A whole response. The socket has nothing to read in the meantime.\<close>

lemma sending_step:
  assumes g: "sending b r fd keep m text k w" and rd: "w_reads w fd = R_Fail EAGAIN # evs"
  shows "\<exists>w'. w_writes w' fd = tl (w_writes w fd)
      \<and> (request_cycle user (Suc (Suc n)) E_Write r w = Inr w' \<and> (settled r fd keep m w' \<and> (keep \<longrightarrow> w_reads w' fd = evs))
           \<and> w_sent w' fd = w_sent w fd @ map Some (drop k text)
         \<or> request_cycle user (Suc (Suc n)) E_Write r w = Inr w' \<and> w_writes w fd \<noteq> []
           \<and> (\<exists>k'. (sending b r fd keep m text k' w' \<and> w_reads w' fd = R_Fail EAGAIN # evs) \<and> k \<le> k'
                \<and> w_sent w' fd = w_sent w fd @ map Some (take (k' - k) (drop k text))))"
proof -
  from g obtain rq us where rq: "writing r w rq text k" "rq_state rq = HTTP_SESSION_WRITE" "rq_socket rq = fd" "rq_handler rq = client_handler b"
    "tokens_hold (rq_tokens rq) us" "length us < 100000000"
    "\<not> HTTP_FLAG_CHECK (rq_flags rq) HTTP_CHUNKED_RESPONSE" "HTTP_FLAG_CHECK (rq_flags rq) HTTP_KEEP_ALIVE = keep"
    and w: "w_build w = b" "w_shift w = 0" "unowned r w = m" "0 \<le> m" "m < 1152921504606846976" "no_epipe w fd"
    unfolding sending_def by blast
  have d: "deref r w = Inr rq" using rq(1) by (simp add: writing_def)
  have ne: "no_epipe w (rq_socket rq)" using w(6) rq(3) by simp
  from rq(1) ne show ?thesis
  proof (cases rule: write_attempt)
    case (whole w1)
    show ?thesis
    proof (cases keep)
      case True
      have s1: "hs_write_socket r w = Inr (HS_WRITE_RC_SUCCESS, w1)" using whole(1) rq(7,8) True by simp
      from kept_alive_receives [OF s1 d rq(5,6), of user n] w rq(3,4) rd obtain w2 where
        w2: "receiving us b (sv_request_handler (w_server w)) r fd [] (arrives [] @ evs) w2"
          "request_cycle user (Suc (Suc n)) E_Write r w = request_cycle user (Suc n) E_Read r w2"
          "w_sent w2 = w_sent w1" "w_writes w2 = w_writes w1" "unowned r w2 = m" by (auto simp: arrives_def)
      have "render_head small_head = ([] @ []) @ render_head small_head" "render_head small_head \<noteq> []"
        by (simp_all add: render_head_def)
      from event_waits [where user = user and n = n, OF small_head_short(1) w2(1) this] obtain w3 where
        w3: "request_cycle user (Suc n) E_Read r w2 = Inr w3" "reading r w3" "undisturbed r w2 w3"
        "receiving us b (sv_request_handler (w_server w)) r fd [] evs w3" by auto
      from receiving_empty_handed [OF w3(4)] have e: "empty_handed r w3" "w_reads w3 fd = evs" .
      with w3 have "settled r fd keep m w3" "w_sent w3 = w_sent w1" "w_writes w3 = w_writes w1"
        using True w2(3,4,5) w(4,5) by (simp_all add: settled_def undisturbed_def)
      with w2(2) w3(1) whole(3,4) rq(3) e(2) show ?thesis by (intro exI [of _ w3]) (simp add: wrote_def)
    next
      case False
      have s1: "hs_write_socket r w = Inr (HS_WRITE_RC_SUCCESS_CLOSE, w1)" using whole(1) rq(7,8) False by simp
      have u: "unowned r w1 = m" using whole(3) w(3) by (simp add: wrote_def)
      with terminate_settled [OF s1 whole(2), of user "Suc n"] w(4,5) rq(3) obtain w' where
        "request_cycle user (Suc (Suc n)) E_Write r w = Inr w'" "settled r fd False m w'" "w_sent w' = w_sent w1" "w_writes w' = w_writes w1" by auto
      with False whole(3,4) rq(3) show ?thesis by (intro exI [of _ w']) (simp add: wrote_def)
    qed
  next
    case (part w1 k')
    have "sending b r fd keep m text k' w1"
      using part(3,4) rq(2-8) w(1-5) unfolding sending_def wrote_def
      by (intro conjI exI [of _ "rq\<lparr>rq_bytes_written := int k', rq_timeout := HTTP_REQUEST_TIMEOUT\<rparr>"] exI [of _ us]) simp_all
    with part rq(3) rd show ?thesis by (intro exI [of _ w1]) (auto simp: wrote_def simp del: request_cycle.simps)
  qed
qed

lemma write_event_handled:
  assumes "deref r w = Inr rq" and "rq_state rq = HTTP_SESSION_WRITE" and "rq_handler rq = client_handler (w_build w)"
  shows "handle_event (run_handler user n) (Ev_Request r) w = request_cycle user n E_Write r w"
  using assms
  by (cases "w_build w") (auto simp: handle_event_def event_handler_def event_handler_kqueue_def
      event_handler_epoll_def run_handler_def kqueue_client_event hs_on_epoll_client_connection_event_def
      hs_on_kqueue_client_connection_event_def)

lemma sending_event:
  assumes "sending b r fd keep m text k w"
  shows "handle_event (run_handler user n) (Ev_Request r) w = request_cycle user n E_Write r w"
proof -
  from assms obtain rq where "deref r w = Inr rq" "rq_state rq = HTTP_SESSION_WRITE" "rq_handler rq = client_handler (w_build w)"
    by (auto simp: sending_def writing_def)
  then show ?thesis by (rule write_event_handled)
qed

interpretation reply: write_phase user r fd msg "\<lambda>k w. sending b r fd keep m msg k w \<and> w_reads w fd = R_Fail EAGAIN # evs"
    "\<lambda>w. settled r fd keep m w \<and> (keep \<longrightarrow> w_reads w fd = evs)" "\<lambda>l w. Inr w"
  for user r fd msg b keep m evs
proof (unfold_locales, goal_cases)
  case (1 k w l)
  then show ?case using sending_step by blast
next
  case (2 k w n)
  then show ?case using sending_event by blast
qed

lemma response_sent:
  assumes "sending b r fd keep m text k w" and "w_reads w fd = R_Fail EAGAIN # evs"
  shows "\<exists>j\<le>length (w_writes w fd). \<exists>w'. bindr (request_cycle user (Suc (Suc l)) E_Write r w)
        (event_loop (run_handler user (Suc (Suc n))) (replicate j (Ev_Request r))) = Inr w'
    \<and> settled r fd keep m w' \<and> w_sent w' fd = w_sent w fd @ map Some (drop k text) \<and> (keep \<longrightarrow> w_reads w' fd = evs)"
proof -
  from reply.ends [of b r fd keep m "text" k w evs l n user] assms obtain j w' where
    j: "settled r fd keep m w'" "keep \<longrightarrow> w_reads w' fd = evs" "w_sent w' fd = w_sent w fd @ map Some (drop k text)"
      "j + length (w_writes w' fd) \<le> length (w_writes w fd)"
      "\<forall>evs. bindr (request_cycle user (Suc (Suc l)) E_Write r w)
          (event_loop (run_handler user (Suc (Suc n))) (replicate j (Ev_Request r) @ evs))
        = event_loop (run_handler user (Suc (Suc n))) evs w'" by auto
  from spec [OF j(5), of "[]"] j(1-4) show ?thesis
    by (intro exI [of _ j] conjI exI [of _ w']) (simp_all del: request_cycle.simps)
qed

section \<open>The handler's call\<close>

lemma delivered_detects:
  assumes "delivered [] h rq"
  shows "hs_request_detect_keep_alive_flag rq
    = Inr (set_keep_alive (keep_alive (''HTTP/1.'' @ [hd_minor h]) (sent_value (hd_headers h) ''Connection'')) rq)"
proof -
  from assms obtain tts where t: "request_reads rq tts" "map (\<lambda>(t, s). (tk_type t, s)) tts = head_parts h"
    by (auto simp: delivered_def request_reads_def)
  note l = head_parts_lookup [OF t(2)]
  from l(5) obtain t where v: "find_type tts HSH_TOK_VERSION = Some (t, ''HTTP/1.'' @ [hd_minor h])" by blast
  show ?thesis by (rule detect_keep_alive_found [OF t(1) l(4) v _ l(3)]) simp
qed

definition keeps :: "request_head \<Rightarrow> bool" where
  "keeps h = keep_alive (''HTTP/1.'' @ [hd_minor h]) (sent_value (hd_headers h) ''Connection'')"

lemma fresh_flags:
  assumes "same_flags HTTP_AUTOMATIC f"
  shows "HTTP_FLAG_CHECK f HTTP_AUTOMATIC" "\<not> HTTP_FLAG_CHECK (HTTP_FLAG_SET f HTTP_KEEP_ALIVE) HTTP_CHUNKED_RESPONSE"
    "\<not> HTTP_FLAG_CHECK (HTTP_FLAG_CLEAR f HTTP_KEEP_ALIVE) HTTP_CHUNKED_RESPONSE"
    "HTTP_FLAG_CHECK (HTTP_FLAG_SET f HTTP_KEEP_ALIVE) HTTP_KEEP_ALIVE"
    "\<not> HTTP_FLAG_CHECK (HTTP_FLAG_CLEAR f HTTP_KEEP_ALIVE) HTTP_KEEP_ALIVE"
proof -
  from assms have "f = 0x8 \<or> f = 0x9" by (auto simp: same_flags_def HTTP_AUTOMATIC_def HTTP_FLG_STREAMED_def flag_ops)
  then show "HTTP_FLAG_CHECK f HTTP_AUTOMATIC" "\<not> HTTP_FLAG_CHECK (HTTP_FLAG_SET f HTTP_KEEP_ALIVE) HTTP_CHUNKED_RESPONSE"
    "\<not> HTTP_FLAG_CHECK (HTTP_FLAG_CLEAR f HTTP_KEEP_ALIVE) HTTP_CHUNKED_RESPONSE"
    "HTTP_FLAG_CHECK (HTTP_FLAG_SET f HTTP_KEEP_ALIVE) HTTP_KEEP_ALIVE"
    "\<not> HTTP_FLAG_CHECK (HTTP_FLAG_CLEAR f HTTP_KEEP_ALIVE) HTTP_KEEP_ALIVE"
    by (elim disjE; simp; code_simp)+
qed

lemma bindr_return: "bindr v (\<lambda>w. Inr w) = v"
  by (cases v) simp_all

text \<open>The handler that answers with \<open>response\<close> at once, and lets the server decide about the connection.\<close>

definition answers :: "user_code \<Rightarrow> fnptr \<Rightarrow> ptr \<Rightarrow> http_response_s \<Rightarrow> bool" where
  "answers user f r response \<longleftrightarrow> (\<forall>w. user f r w = Call (Respond response) r (\<lambda>w. Return))"

lemma sends_begins:
  assumes "sends r rq' (hs_request_begin_write (request_cycle user n E_Write)) w text res" and "deref r w = Inr rq"
    and "rq_buffer rq' = rq_buffer rq"
  shows "\<exists>bf w2. res = request_cycle user n E_Write r w2
    \<and> writing r w2 (rq'\<lparr>rq_buffer := bf, rq_bytes_written := 0, rq_state := HTTP_SESSION_WRITE\<rparr>) text 0
    \<and> unowned r w2 = unowned r w \<and> w_sent w2 = w_sent w \<and> w_writes w2 = w_writes w \<and> w_reads w2 = w_reads w
    \<and> w_build w2 = w_build w \<and> w_shift w2 = w_shift w \<and> w_errno w2 = w_errno w"
proof -
  let ?bw = "hs_request_begin_write (request_cycle user n E_Write)"
  from assms(1) obtain bf mem where s: "res = ?bw r (assign r (rq'\<lparr>rq_buffer := bf, rq_bytes_written := 0,
                rq_state := HTTP_SESSION_WRITE\<rparr>) (set_memused mem w))"
    "buffer_holds bf text" "bf_capacity bf < 2147483648" "mem - bf_capacity bf = w_memused w - owned_bytes (rq_buffer rq')"
    unfolding sends_def by blast
  let ?rq1 = "rq'\<lparr>rq_buffer := bf, rq_bytes_written := 0, rq_state := HTTP_SESSION_WRITE\<rparr>"
  let ?w1 = "assign r ?rq1 (set_memused mem w)"
  obtain w2 where w2: "?bw r ?w1 = request_cycle user n E_Write r w2" "w_heap w2 = w_heap ?w1" "w_server w2 = w_server ?w1"
    "w_sent w2 = w_sent w" "w_writes w2 = w_writes w" "w_reads w2 = w_reads w" "w_build w2 = w_build w" "w_shift w2 = w_shift w"
    "w_errno w2 = w_errno w"
    by (cases "w_build w") (auto simp: hs_request_begin_write_def hs_add_write_event_def hs_add_write_event_kqueue_def
        modify_def os_log_def assign_def set_memused_def deref_def)
  have d2: "deref r w2 = Inr ?rq1" using w2(2) by (simp add: deref_def assign_def)
  have "w_memused w2 = mem" using w2(3) by (simp add: w_memused_def set_memused_def)
  then have "unowned r w2 = unowned r w"
    using unowned_deref [OF d2] holds_owned [OF s(2)] s(4) unowned_deref [OF assms(2)] assms(3) by simp
  moreover have "writing r w2 ?rq1 text 0" using d2 s(2,3) by (simp add: writing_def)
  ultimately show ?thesis using s(1) w2 by auto
qed

lemma handler_answers:
  defines "text date keep response body \<equiv> response_head keep False date response @ body"
  assumes h: "handed [] b H r fd h rq w" and f: "same_flags HTTP_AUTOMATIC (rq_flags rq)"
    and u: "answers user H r response" and m: "unowned r w = m" "0 \<le> m" "m < 1152921504606846976"
    and e: "W_Fail EPIPE \<notin> set (w_writes w fd)"
    and ok: "status_ok response" "body_is response body"
      "length (response_head (keeps h) False (sv_date (w_server w)) response) < 1024" "length body < 1073741824"
  shows "\<exists>w2. request_cycle user (Suc n) (E_Call H) r w = request_cycle user n E_Write r w2
    \<and> sending b r fd (keeps h) m (text (sv_date (w_server w)) (keeps h) response body) 0 w2
    \<and> w_sent w2 = w_sent w \<and> w_writes w2 = w_writes w \<and> w_reads w2 = w_reads w"
proof -
  let ?text = "text (sv_date (w_server w)) (keeps h) response body"
  let ?bw = "hs_request_begin_write (request_cycle user n E_Write)"
  let ?rq = "set_keep_alive (keeps h) rq"
  from h obtain us where d: "deref r w = Inr rq" "delivered [] h rq" "rq_socket rq = fd" "rq_handler rq = client_handler b"
    "owned_bytes (rq_buffer rq) = 1024" "tokens_hold (rq_tokens rq) us" "length us \<le> 4097"
    "w_build w = b" "w_shift w = 0" "w_errno w = EAGAIN" by (auto simp: handed_def)
  note fl = fresh_flags [OF f]
  have dec: "decides rq ?rq" using fl(1) delivered_detects [OF d(2)] by (simp add: decides_def keeps_def)
  have kf: "HTTP_FLAG_CHECK (rq_flags ?rq) HTTP_KEEP_ALIVE = keeps h" "\<not> HTTP_FLAG_CHECK (rq_flags ?rq) HTTP_CHUNKED_RESPONSE"
    using fl by (simp_all add: set_keep_alive_def)
  have rqs: "rq_buffer ?rq = rq_buffer rq" "rq_socket ?rq = rq_socket rq" "rq_handler ?rq = rq_handler rq" "rq_tokens ?rq = rq_tokens rq"
    by (simp_all add: set_keep_alive_def)
  have "account_small w ?rq" using unowned_deref [OF d(1)] m d(5) rqs by (simp add: account_small_def)
  from respond_sends [OF d(1) dec ok(1) kf(2) ok(2) _ ok(4) this, of ?bw] ok(3) kf(1)
  have "sends r ?rq ?bw w ?text (hs_request_respond r response ?bw w)" by (simp add: text_def)
  from sends_begins [OF this d(1) rqs(1)] obtain bf w2 where
    w2: "hs_request_respond r response ?bw w = request_cycle user n E_Write r w2"
    "writing r w2 (?rq\<lparr>rq_buffer := bf, rq_bytes_written := 0, rq_state := HTTP_SESSION_WRITE\<rparr>) ?text 0"
    "unowned r w2 = m" "w_sent w2 = w_sent w" "w_writes w2 = w_writes w" "w_reads w2 = w_reads w"
    "w_build w2 = b" "w_shift w2 = 0" "w_errno w2 = EAGAIN" using m(1) d(8-10) by auto
  let ?rq1 = "?rq\<lparr>rq_buffer := bf, rq_bytes_written := 0, rq_state := HTTP_SESSION_WRITE\<rparr>"
  have "no_epipe w2 fd" using e w2(5,9) by (simp add: no_epipe_def)
  then have "sending b r fd (keeps h) m ?text 0 w2"
    using w2(2,3,7,8) kf rqs d(3,4,6,7) m(2,3) unfolding sending_def
    by (intro conjI exI [of _ ?rq1] exI [of _ us]) simp_all
  moreover have "request_cycle user (Suc n) (E_Call H) r w = request_cycle user n E_Write r w2"
    using u w2(1) by (simp add: answers_def run_call_def http_respond_def bindr_return)
  ultimately show ?thesis using w2(4-6) by auto
qed

text \<open>Bytes that follow the head in the last piece change nothing.\<close>

lemma answered_before_rest:
  assumes "started serv port handler now w = Inr w1" and "w_shift w = 0"
    and "w_accepts w = [fd]" and "0 < fd" and "w_reads w fd = concat (map arrives (p # ps)) @ [R_Fail EAGAIN]"
    and "W_Fail EPIPE \<notin> set (w_writes w fd)"
    and "short_head h" and "bodiless h" and "concat (p # ps) = render_head h @ rest" and "ps \<noteq> []"
    and "length rest < length (last ps)" and "length (render_head h @ rest) < 1024"
    and "answers user handler (w_next w) response" and "status_ok response" and "body_is response body"
    and "length (response_head (keeps h) False (sv_date (w_server w1)) response) < 1024" and "length body < 1073741824"
  shows "\<exists>j\<le>length (w_writes w fd). \<exists>w'.
      event_loop (run_handler user (Suc (Suc (Suc (Suc n)))))
        (Ev_Server_Socket # replicate (length ps + j) (Ev_Request (w_next w))) w1 = Inr w'
    \<and> w_sent w' fd = w_sent w fd @ map Some (response_head (keeps h) False (sv_date (w_server w1)) response @ body)
    \<and> settled (w_next w) fd (keeps h) 0 w' \<and> (keeps h \<longrightarrow> w_reads w' fd = [])"
proof -
  let ?N = "Suc (Suc (Suc (Suc n)))" and ?r = "w_next w"
  note st = started_ready [OF assms(1)]
  from request_handed [OF assms(1-5,7-12), of user "Suc (Suc (Suc n))"] obtain rq w2 where
    e: "event_loop (run_handler user ?N) (Ev_Server_Socket # replicate (length ps) (Ev_Request ?r)) w1
      = request_cycle user (Suc (Suc (Suc n))) (E_Call handler) ?r w2"
    and h: "handed [] (w_build w) handler ?r fd h rq w2" and rd: "w_reads w2 fd = [R_Fail EAGAIN]" and j: "joined ?r w1 w2" by blast
  have f: "same_flags HTTP_AUTOMATIC (rq_flags rq)" using h j by (auto simp: handed_def joined_def)
  have m: "unowned ?r w2 = 0" using j st(4) by (simp add: joined_def)
  have w: "w_sent w2 = w_sent w" "w_writes w2 = w_writes w" "sv_date (w_server w2) = sv_date (w_server w1)"
    using j st by (simp_all add: joined_def)
  from handler_answers [OF h f assms(13) m _ _ _ assms(14,15) _ assms(17), of "Suc (Suc n)"] assms(6,16) w obtain w3 where
    w3: "request_cycle user (Suc (Suc (Suc n))) (E_Call handler) ?r w2 = request_cycle user (Suc (Suc n)) E_Write ?r w3"
      "sending (w_build w) ?r fd (keeps h) 0 (response_head (keeps h) False (sv_date (w_server w1)) response @ body) 0 w3"
      "w_sent w3 = w_sent w" "w_writes w3 = w_writes w" "w_reads w3 = w_reads w2" by auto
  from response_sent [OF w3(2), of "[]" user n "Suc (Suc n)"] rd w3(3-5) obtain j w' where
    r: "j \<le> length (w_writes w fd)" "bindr (request_cycle user (Suc (Suc n)) E_Write ?r w3)
        (event_loop (run_handler user ?N) (replicate j (Ev_Request ?r))) = Inr w'"
      "settled ?r fd (keeps h) 0 w'"
      "w_sent w' fd = w_sent w fd @ map Some (response_head (keeps h) False (sv_date (w_server w1)) response @ body)"
      "keeps h \<longrightarrow> w_reads w' fd = []" by auto
  from event_loop_append [of _ "Ev_Server_Socket # replicate (length ps) (Ev_Request ?r)"] r(2)
  have "event_loop (run_handler user ?N) (Ev_Server_Socket # replicate (length ps + j) (Ev_Request ?r)) w1 = Inr w'"
    by (simp add: replicate_add e w3(1) del: request_cycle.simps event_loop.simps)
  with r show ?thesis by blast
qed

text \<open>
  C1. A request is answered. On a server that has been started a connection is accepted, the bytes of
  a head without a body arrive in any pieces, and the handler answers at once: then, however the
  socket delays and splits the writing, as long as it does not break, the client gets the status line,
  the headers and the body of that response, each byte once and in order, after at most one writable event
  for each refusal or partial acceptance. The connection is kept exactly if the version and the
  \<open>Connection\<close> header of the request ask for it; then it waits for the next request, and otherwise it
  is closed, its request freed and all memory given back.
\<close>

theorem request_answered:
  assumes "started serv port handler now w = Inr w1" and "w_shift w = 0"
    and "w_accepts w = [fd]" and "0 < fd" and "w_reads w fd = concat (map arrives (p # ps)) @ [R_Fail EAGAIN]"
    and "W_Fail EPIPE \<notin> set (w_writes w fd)"
    and "short_head h" and "bodiless h" and "concat (p # ps) = render_head h" and "ps \<noteq> []" and "last ps \<noteq> []"
    and "answers user handler (w_next w) response" and "status_ok response" and "body_is response body"
    and "length (response_head (keeps h) False (sv_date (w_server w1)) response) < 1024" and "length body < 1073741824"
  shows "\<exists>j\<le>length (w_writes w fd). \<exists>w'.
      event_loop (run_handler user (Suc (Suc (Suc (Suc n)))))
        (Ev_Server_Socket # replicate (length ps + j) (Ev_Request (w_next w))) w1 = Inr w'
    \<and> w_sent w' fd = w_sent w fd @ map Some (response_head (keeps h) False (sv_date (w_server w1)) response @ body)
    \<and> settled (w_next w) fd (keeps h) 0 w'"
proof -
  have "length (render_head h @ []) < 1024" using assms(7) by (simp add: short_head_def)
  with answered_before_rest [where rest = "[]", OF assms(1-8) _ assms(10) _ _ assms(12-16), of n] assms(9,11) show ?thesis by fastforce
qed

text \<open>
  C39. A pipelined request is lost. When the next request of a connection arrives together with the end
  of the first one, it is read into the same buffer. The response to the first one takes the place of
  that buffer: the first request is answered and the connection is kept, but the bytes of the second
  one are neither in the socket nor in the buffer any more, and it is never answered.
\<close>

theorem pipelined_request_lost:
  assumes "started serv port handler now w = Inr w1" and "w_shift w = 0"
    and "w_accepts w = [fd]" and "0 < fd" and "w_reads w fd = concat (map arrives (p # ps)) @ [R_Fail EAGAIN]"
    and "W_Fail EPIPE \<notin> set (w_writes w fd)"
    and "short_head h" and "bodiless h" and "concat (p # ps) = render_head h @ render_head h2" and "ps \<noteq> []"
    and "length (render_head h2) < length (last ps)" and "length (render_head h @ render_head h2) < 1024" and "keeps h"
    and "answers user handler (w_next w) response" and "status_ok response" and "body_is response body"
    and "length (response_head True False (sv_date (w_server w1)) response) < 1024" and "length body < 1073741824"
  shows "\<exists>j\<le>length (w_writes w fd). \<exists>w'.
      event_loop (run_handler user (Suc (Suc (Suc (Suc n)))))
        (Ev_Server_Socket # replicate (length ps + j) (Ev_Request (w_next w))) w1 = Inr w'
    \<and> w_sent w' fd = w_sent w fd @ map Some (response_head True False (sv_date (w_server w1)) response @ body)
    \<and> settled (w_next w) fd True 0 w' \<and> empty_handed (w_next w) w' \<and> w_reads w' fd = []"
proof -
  have k: "keeps h = True" using assms(13) by simp
  from answered_before_rest [where rest = "render_head h2", OF assms(1-12,14-16) _ assms(18), unfolded k, OF assms(17), of n] show ?thesis
    by (auto simp: settled_def simp del: event_loop.simps replicate.simps)
qed

text \<open>
  C38. The flag that tells a handler to read the body in pieces and the flag that keeps the connection
  are the same bit. Asking for the connection to be closed makes a request look as if its body were
  all there, asking to keep it makes any request look streamed, and the decision that is made with the
  response sets or clears the mark as well: from then on it tells whether the connection is kept.
\<close>

theorem keep_alive_is_streamed:
  assumes "deref r w = Inr rq" and "delivered [] h rq"
  shows "\<exists>rq1 rq2 rq3. http_request_connection r HTTP_CLOSE w = Inr (assign r rq1 w) \<and> \<not> http_request_has_flag rq1 HTTP_FLG_STREAMED
    \<and> http_request_connection r HTTP_KEEP_ALIVE w = Inr (assign r rq2 w) \<and> http_request_has_flag rq2 HTTP_FLG_STREAMED
    \<and> hs_request_detect_keep_alive_flag rq = Inr rq3 \<and> (http_request_has_flag rq3 HTTP_FLG_STREAMED \<longleftrightarrow> keeps h)"
proof -
  have same: "HTTP_FLG_STREAMED = HTTP_KEEP_ALIVE" and close: "HTTP_CLOSE \<noteq> HTTP_KEEP_ALIVE" by code_simp+
  have "(f OR 1) AND 1 \<noteq> (0 :: 8 word)" for f by (simp add: bit.conj_disj_distrib2)
  then have set: "HTTP_FLAG_CHECK (HTTP_FLAG_SET f HTTP_KEEP_ALIVE) HTTP_KEEP_ALIVE" for f
    by (simp add: flag_ops HTTP_KEEP_ALIVE_def)
  have clear: "\<not> HTTP_FLAG_CHECK (HTTP_FLAG_CLEAR f HTTP_KEEP_ALIVE) HTTP_KEEP_ALIVE" for f
    by (simp add: flag_ops HTTP_KEEP_ALIVE_def and.assoc)
  have "\<not> http_request_has_flag (hs_request_set_keep_alive_flag rq HTTP_CLOSE) HTTP_FLG_STREAMED"
    using clear close by (simp add: http_request_has_flag_def hs_request_set_keep_alive_flag_def same Let_def)
  moreover have "http_request_has_flag (hs_request_set_keep_alive_flag rq HTTP_KEEP_ALIVE) HTTP_FLG_STREAMED"
    using set by (simp add: http_request_has_flag_def hs_request_set_keep_alive_flag_def same Let_def)
  moreover have "http_request_has_flag (set_keep_alive (keeps h) rq) HTTP_FLG_STREAMED \<longleftrightarrow> keeps h"
    using set clear by (simp add: http_request_has_flag_def set_keep_alive_def same)
  ultimately show ?thesis
    using assms(1) delivered_detects [OF assms(2)]
    by (intro exI [of _ "hs_request_set_keep_alive_flag rq HTTP_CLOSE"] exI [of _ "hs_request_set_keep_alive_flag rq HTTP_KEEP_ALIVE"]
        exI [of _ "set_keep_alive (keeps h) rq"]) (simp add: http_request_connection_def modify_def keeps_def)
qed

section \<open>Instances\<close>

lemma started_date: "w_build w = EPOLL \<Longrightarrow> started serv port handler now w = Inr w1 \<Longrightarrow> sv_date (w_server w1) = date_line (gmtime now)"
  by (auto simp: started_def http_server_init_def hs_server_init_def hs_server_init_events_def hs_generate_date_time_def
      hs_server_listen_on_addr_def hs_bind_localhost_def hs_add_server_sock_events_def os_log_def os_new_fd_eq Let_def)

text \<open>A request that asks for the connection to be closed, on a socket that takes ten bytes, refuses, and takes the rest.\<close>

definition closing_pieces :: "string list" where
  "closing_pieces = [take 7 (render_head two_headers), drop 7 (render_head two_headers)]"

definition asking_world :: world where
  "asking_world = (idle_world EPOLL)\<lparr>w_reads := (\<lambda>_. [])(7 := concat (map arrives closing_pieces) @ [R_Fail EAGAIN]),
     w_writes := (\<lambda>_. [])(7 := [W_Accept 10, W_Fail EAGAIN])\<rparr>"

definition ok_handler :: user_code where
  "ok_handler f r w = Call (Respond ok_response) r (\<lambda>w. Return)"

lemma two_headers_facts: "short_head two_headers" "bodiless two_headers" "\<not> keeps two_headers"
  by code_simp+

lemma asking_world_facts:
  "w_shift asking_world = 0" "w_accepts asking_world = [7]" "w_next asking_world = 0"
  "w_reads asking_world 7 = concat (map arrives (hd closing_pieces # tl closing_pieces)) @ [R_Fail EAGAIN]"
  "w_writes asking_world 7 = [W_Accept 10, W_Fail EAGAIN]" "w_sent asking_world 7 = []" "w_build asking_world = EPOLL"
  by (simp_all add: asking_world_def idle_world_def sample_world_def closing_pieces_def)

lemma closing_pieces_facts:
  "concat (hd closing_pieces # tl closing_pieces) = render_head two_headers" "tl closing_pieces \<noteq> []"
  "last (tl closing_pieces) \<noteq> []" "length (tl closing_pieces) = 1"
proof -
  have "drop 7 (render_head two_headers) \<noteq> []" by code_simp
  then show "concat (hd closing_pieces # tl closing_pieces) = render_head two_headers" "tl closing_pieces \<noteq> []"
    "last (tl closing_pieces) \<noteq> []" "length (tl closing_pieces) = 1" by (simp_all add: closing_pieces_def)
qed

theorem request_answered_witness:
  "\<exists>j\<le>2. \<exists>w1 w'. started sample_server 8080 0 0 asking_world = Inr w1
    \<and> event_loop (run_handler ok_handler 4) (Ev_Server_Socket # replicate (1 + j) (Ev_Request 0)) w1 = Inr w'
    \<and> w_sent w' 7 = map Some (''HTTP/1.1 200 OK'' @ crlf @ ''Date: Thu, 01 Jan 1970 00:00:00 GMT'' @ crlf
      @ ''Content-Length: 2'' @ crlf @ ''Connection: close'' @ crlf @ ''Content-Type: text/plain'' @ crlf @ crlf @ ''hi'')
    \<and> settled 0 7 False 0 w'"
proof -
  let ?now = "''Thu, 01 Jan 1970 00:00:00 GMT''"
  obtain w1 where w1: "started sample_server 8080 0 0 asking_world = Inr w1" using started_total by blast
  note w = asking_world_facts and p = closing_pieces_facts
  note d = started_date [OF w(7) w1, unfolded date_zero]
  have a: "answers ok_handler 0 (w_next asking_world) ok_response" by (simp add: answers_def ok_handler_def)
  have l: "length (response_head (keeps two_headers) False (sv_date (w_server w1)) ok_response) < 1024"
    using two_headers_facts(3) by (simp add: d ok_head crlf_def)
  have e: "W_Fail EPIPE \<notin> set (w_writes asking_world 7)" by (simp add: w(5))
  have pos: "(0 :: int) < 7" and len: "length ''hi'' < 1073741824" by simp_all
  have k: "keeps two_headers = False" and four: "Suc (Suc (Suc (Suc 0))) = 4" using two_headers_facts(3) by simp_all
  note ans = request_answered [where n = 0, OF w1 w(1,2) pos w(4) e two_headers_facts(1,2) p(1-3) a closing_facts(3,6) l len]
  obtain j w' where j: "j \<le> length [W_Accept 10, W_Fail EAGAIN]"
    "event_loop (run_handler ok_handler 4) (Ev_Server_Socket # replicate (1 + j) (Ev_Request 0)) w1 = Inr w'"
    "w_sent w' 7 = [] @ map Some (response_head False False ?now ok_response @ ''hi'')" "settled 0 7 False 0 w'"
    using ans [unfolded w(3,5,6) p(4) d k four] by blast
  have "j \<le> 2" using j(1) by simp
  moreover have "w_sent w' 7 = map Some (''HTTP/1.1 200 OK'' @ crlf @ ''Date: '' @ ?now @ crlf
      @ ''Content-Length: 2'' @ crlf @ ''Connection: close'' @ crlf @ ''Content-Type: text/plain'' @ crlf @ crlf @ ''hi'')"
    using j(3) by (simp add: ok_head)
  ultimately show ?thesis using w1 j(2,4) by (intro exI [of _ j] conjI exI [of _ w1] exI [of _ w']) simp_all
qed

text \<open>Two requests for \<open>/\<close>, the second one behind the end of the first.\<close>

definition pipelined_pieces :: "string list" where
  "pipelined_pieces = [take 7 (render_head small_head), drop 7 (render_head small_head) @ render_head small_head]"

definition pipelining_world :: world where
  "pipelining_world = (idle_world EPOLL)\<lparr>w_reads := (\<lambda>_. [])(7 := concat (map arrives pipelined_pieces) @ [R_Fail EAGAIN])\<rparr>"

theorem pipelined_request_lost_witness:
  "\<exists>w1 w'. started sample_server 8080 0 0 pipelining_world = Inr w1
    \<and> event_loop (run_handler ok_handler 4) [Ev_Server_Socket, Ev_Request 0] w1 = Inr w'
    \<and> w_sent w' 7 = map Some (response_head True False ''Thu, 01 Jan 1970 00:00:00 GMT'' ok_response @ ''hi'')
    \<and> empty_handed 0 w' \<and> w_reads w' 7 = []"
proof -
  let ?now = "''Thu, 01 Jan 1970 00:00:00 GMT''"
  obtain w1 where w1: "started sample_server 8080 0 0 pipelining_world = Inr w1" using started_total by blast
  have w: "w_shift pipelining_world = 0" "w_accepts pipelining_world = [7]" "w_next pipelining_world = 0"
    "w_reads pipelining_world 7 = concat (map arrives (hd pipelined_pieces # tl pipelined_pieces)) @ [R_Fail EAGAIN]"
    "w_writes pipelining_world 7 = []" "w_sent pipelining_world 7 = []" "w_build pipelining_world = EPOLL"
    by (simp_all add: pipelining_world_def idle_world_def sample_world_def pipelined_pieces_def)
  note d = started_date [OF w(7) w1, unfolded date_zero]
  have p: "concat (hd pipelined_pieces # tl pipelined_pieces) = render_head small_head @ render_head small_head" "tl pipelined_pieces \<noteq> []"
    "length (tl pipelined_pieces) = 1" by (simp_all add: pipelined_pieces_def flip: append_assoc)
  have q: "length (render_head small_head) < length (last (tl pipelined_pieces))"
    "length (render_head small_head @ render_head small_head) < 1024" "keeps small_head" by code_simp+
  have a: "answers ok_handler 0 (w_next pipelining_world) ok_response" by (simp add: answers_def ok_handler_def)
  have "length (response_head True False ?now ok_response) < 1024" by code_simp
  then have l: "length (response_head True False (sv_date (w_server w1)) ok_response) < 1024" by (simp only: d)
  have e: "W_Fail EPIPE \<notin> set (w_writes pipelining_world 7)" by (simp add: w(5))
  have pos: "(0 :: int) < 7" and len: "length ''hi'' < 1073741824" by simp_all
  have four: "Suc (Suc (Suc (Suc 0))) = 4" by simp
  note ans = pipelined_request_lost [where n = 0, OF w1 w(1,2) pos w(4) e small_head_facts(1,2) p(1,2) q a closing_facts(3,6) l len]
  obtain j w' where j: "j \<le> length ([] :: write_event list)"
    "event_loop (run_handler ok_handler 4) (Ev_Server_Socket # replicate (1 + j) (Ev_Request 0)) w1 = Inr w'"
    "w_sent w' 7 = [] @ map Some (response_head True False ?now ok_response @ ''hi'')" "empty_handed 0 w'" "w_reads w' 7 = []"
    using ans [unfolded w(3,5,6) p(3) d four] by blast
  then have "j = 0" by simp
  with j w1 show ?thesis by (intro exI [of _ w1] exI [of _ w'] conjI) (simp_all del: event_loop.simps)
qed

theorem keep_alive_is_streamed_witness:
  "\<exists>rq1. http_request_connection 0 HTTP_CLOSE (assign 0 streamed_request sample_world)
      = Inr (assign 0 rq1 (assign 0 streamed_request sample_world))
    \<and> http_request_has_flag streamed_request HTTP_FLG_STREAMED \<and> \<not> http_request_has_flag rq1 HTTP_FLG_STREAMED"
proof -
  have "http_request_has_flag streamed_request HTTP_FLG_STREAMED"
    by (simp add: http_request_has_flag_def streamed_request_def) code_simp
  with keep_alive_is_streamed [OF deref_assign two_headers_delivered, of 0 sample_world] show ?thesis by auto
qed

end
