(* ===== verification/Streamed.thy ===== *)
theory Streamed
  imports Answered Parser_Chunks
begin

text \<open>
  A response in chunks, from the handler's first call over the callbacks that produce the other chunks
  to the bytes on the socket, and what a client decodes from them.
\<close>

section \<open>The client's side\<close>

text \<open>
  Decoding a chunked body: the data, and what follows the line of the last chunk (the trailers and their
  empty line, which belong to the message, and whatever comes next).
\<close>

definition hex_value :: "string \<Rightarrow> nat" where
  "hex_value s = foldl (\<lambda>n c. n * 16 + (case chunk_digit c of None \<Rightarrow> 0 | Some d \<Rightarrow> nat d)) 0 s"

function dechunk :: "string \<Rightarrow> (string \<times> string) option" where
  "dechunk s =
     (let ds = takeWhile is_xdigit s;
          t = drop (length ds) s;
          n = hex_value ds;
          u = drop 2 t
      in if ds = [] \<or> take 2 t \<noteq> crlf then None
         else if n = 0 then Some ([], u)
         else if length u < n + 2 \<or> take 2 (drop n u) \<noteq> crlf then None
         else map_option (\<lambda>(data, rest). (take n u @ data, rest)) (dechunk (drop (n + 2) u)))"
  by pat_completeness auto
termination
proof (relation "measure length", goal_cases)
  case (2 s ds t n u)
  then have "0 < length s" by (cases s) auto
  with 2 show ?case by simp
qed simp

declare dechunk.simps [simp del]

lemma hex_value_read: "int n < 4294967296 \<Longrightarrow> hex_value (format_X (int n)) = n"
proof -
  assume n: "int n < 4294967296"
  have "int (hex_value s) = foldl (\<lambda>n c. n * 16 + (case chunk_digit c of None \<Rightarrow> 0 | Some d \<Rightarrow> int (nat d))) 0 s" for s
  proof -
    have "int (foldl (\<lambda>n c. n * 16 + (case chunk_digit c of None \<Rightarrow> 0 | Some d \<Rightarrow> nat d)) k s)
        = foldl (\<lambda>n c. n * 16 + (case chunk_digit c of None \<Rightarrow> 0 | Some d \<Rightarrow> int (nat d))) (int k) s" for k
    proof (induction s arbitrary: k)
      case (Cons c s)
      show ?case using Cons.IH [of "k * 16 + (case chunk_digit c of None \<Rightarrow> 0 | Some d \<Rightarrow> nat d)"] by (simp split: option.splits)
    qed simp
    from this [of 0] show ?thesis by (simp add: hex_value_def)
  qed
  moreover have "foldl (\<lambda>n c. n * 16 + (case chunk_digit c of None \<Rightarrow> 0 | Some d \<Rightarrow> int (nat d))) 0 (format_base 16 n) = int n"
  proof (rule fold_format)
    fix acc :: int and d :: nat
    assume "0 \<le> acc" "d < 16" "acc * int 16 + int d < 9223372036854775808"
    then show "acc * 16 + (case chunk_digit (digit_char d) of None \<Rightarrow> 0 | Some d \<Rightarrow> int (nat d)) = acc * int 16 + int d"
      by (simp add: chunk_digit_char)
  qed (use n in auto)
  ultimately have "int (hex_value (format_base 16 n)) = int n" by simp
  then show ?thesis using n by (simp add: format_X_def)
qed

lemma takeWhile_stop: "list_all P xs \<Longrightarrow> \<not> P y \<Longrightarrow> takeWhile P (xs @ y # ys) = xs"
  by (induction xs) auto

lemma cr_no_xdigit: "\<not> is_xdigit cr"
  by code_simp

lemma dechunk_frame:
  assumes "body \<noteq> []" and "length body < 1024"
  shows "dechunk (chunk_frame body @ s) = map_option (\<lambda>(data, rest). (body @ data, rest)) (dechunk s)"
proof -
  let ?hex = "format_X (int (length body))"
  have n: "0 < length body" "int (length body) < 4294967296" using assms by auto
  note hex = format_X_digits [OF n] hex_value_read [OF n(2)]
  have s: "chunk_frame body @ s = ?hex @ cr # lf # body @ crlf @ s" by (simp add: chunk_frame_def crlf_def)
  have w: "takeWhile is_xdigit (chunk_frame body @ s) = ?hex"
    unfolding s by (rule takeWhile_stop [OF hex(2) cr_no_xdigit])
  show ?thesis using hex(1,4) n(1) unfolding dechunk.simps [of "chunk_frame body @ s"] Let_def w
    by (simp add: s crlf_def)
qed

text \<open>The end of the stream as the server prints it: the line of the last chunk, the trailers, and one line break too many.\<close>

definition stream_end :: "http_response_s \<Rightarrow> string" where
  "stream_end final = (''0'' @ crlf @ concat (map header_line (rs_headers final)) @ crlf) @ crlf"

lemma dechunk_end: "dechunk (stream_end final) = Some ([], concat (map header_line (rs_headers final)) @ crlf @ crlf)"
proof -
  have s: "stream_end final = ''0'' @ cr # lf # concat (map header_line (rs_headers final)) @ crlf @ crlf"
    by (simp add: stream_end_def crlf_def)
  have z: "list_all is_xdigit ''0''" "hex_value ''0'' = 0" by code_simp+
  have w: "takeWhile is_xdigit (stream_end final) = ''0''"
    unfolding s by (rule takeWhile_stop [OF z(1) cr_no_xdigit])
  show ?thesis using z(2) unfolding dechunk.simps [of "stream_end final"] Let_def w by (simp add: s crlf_def)
qed

lemma dechunk_stream:
  "list_all (\<lambda>body. body \<noteq> [] \<and> length body < 1024) bodies \<Longrightarrow>
     dechunk (concat (map chunk_frame bodies) @ stream_end final)
     = Some (concat bodies, concat (map header_line (rs_headers final)) @ crlf @ crlf)"
  by (induction bodies) (simp_all add: dechunk_end dechunk_frame)

section \<open>Handlers that stream\<close>

text \<open>A function of the user's code that makes one call of the library and returns.\<close>

definition calls :: "user_code \<Rightarrow> fnptr \<Rightarrow> ptr \<Rightarrow> api_call \<Rightarrow> bool" where
  "calls user f r c \<longleftrightarrow> (\<forall>w. user f r w = Call c r (\<lambda>w. Return))"

text \<open>
  From the callback \<open>f\<close> on, each call sends one of the responses \<open>xs\<close> as a chunk and names the callback
  for the next one; the last ends the response.
\<close>

fun streams :: "user_code \<Rightarrow> ptr \<Rightarrow> fnptr \<Rightarrow> http_response_s list \<Rightarrow> http_response_s \<Rightarrow> bool" where
  "streams user r f [] final \<longleftrightarrow> calls user f r (Respond_Chunk_End final)"
| "streams user r f (x # xs) final \<longleftrightarrow>
     (\<exists>g. calls user f r (Respond_Chunk x (Some g)) \<and> streams user r g xs final)"

text \<open>A chunk that fits the print buffer.\<close>

definition chunk_ok :: "http_response_s \<Rightarrow> string \<Rightarrow> bool" where
  "chunk_ok x body \<longleftrightarrow> body_is x body \<and> body \<noteq> [] \<and> length (chunk_frame body) < 1024"

lemma chunks_small: "list_all2 chunk_ok xs bodies \<Longrightarrow> list_all (\<lambda>body. body \<noteq> [] \<and> length body < 1024) bodies"
  by (induction xs bodies rule: list_all2_induct) (simp_all add: chunk_ok_def chunk_frame_def)

section \<open>Between the chunks\<close>

text \<open>What stays the same while a response is streamed.\<close>

definition stream_request :: "build \<Rightarrow> int \<Rightarrow> bool \<Rightarrow> http_request_s \<Rightarrow> bool" where
  "stream_request b fd keep rq \<longleftrightarrow> rq_socket rq = fd \<and> rq_handler rq = client_handler b
     \<and> (\<exists>us. tokens_hold (rq_tokens rq) us \<and> length us < 100000000)
     \<and> HTTP_FLAG_CHECK (rq_flags rq) HTTP_CHUNKED_RESPONSE \<and> HTTP_FLAG_CHECK (rq_flags rq) HTTP_KEEP_ALIVE = keep"

definition stream_world :: "build \<Rightarrow> ptr \<Rightarrow> int \<Rightarrow> int \<Rightarrow> read_event list \<Rightarrow> world \<Rightarrow> bool" where
  "stream_world b r fd m evs w \<longleftrightarrow> w_build w = b \<and> w_shift w = 0 \<and> unowned r w = m \<and> 0 \<le> m \<and> m < 1152921504606846976
     \<and> no_epipe w fd \<and> w_reads w fd = evs"

text \<open>A chunk on its way out, and the moment at which the callback for the next one is called.\<close>

definition chunk_out :: "build \<Rightarrow> ptr \<Rightarrow> int \<Rightarrow> bool \<Rightarrow> int \<Rightarrow> read_event list \<Rightarrow> fnptr \<Rightarrow> string \<Rightarrow> nat \<Rightarrow> world \<Rightarrow> bool" where
  "chunk_out b r fd keep m evs f text k w \<longleftrightarrow>
     (\<exists>rq. writing r w rq text k \<and> rq_state rq = HTTP_SESSION_WRITE \<and> rq_chunk_cb rq = Some f \<and> stream_request b fd keep rq)
     \<and> stream_world b r fd m evs w"

definition between_chunks :: "build \<Rightarrow> ptr \<Rightarrow> int \<Rightarrow> bool \<Rightarrow> int \<Rightarrow> read_event list \<Rightarrow> world \<Rightarrow> bool" where
  "between_chunks b r fd keep m evs w \<longleftrightarrow>
     (\<exists>rq. deref r w = Inr rq \<and> bf_buf (rq_buffer rq) = None \<and> stream_request b fd keep rq) \<and> stream_world b r fd m evs w"

lemma stream_world_wrote: "stream_world b r fd m evs w \<Longrightarrow> wrote r fd w w' \<Longrightarrow> stream_world b r fd m evs w'"
  by (simp add: stream_world_def wrote_def)

lemma chunk_out_event:
  assumes "chunk_out b r fd keep m evs f text k w"
  shows "handle_event (run_handler user n) (Ev_Request r) w = request_cycle user n E_Write r w"
proof -
  from assms obtain rq where "deref r w = Inr rq" "rq_state rq = HTTP_SESSION_WRITE" "rq_handler rq = client_handler (w_build w)"
    by (auto simp: chunk_out_def writing_def stream_request_def stream_world_def)
  then show ?thesis by (rule write_event_handled)
qed

text \<open>When a chunk has been written, its buffer is freed and the callback is called.\<close>

lemma chunk_written:
  assumes "hs_write_socket r w = Inr (HS_WRITE_RC_SUCCESS_CHUNK, w1)" and "deref r w1 = Inr rq"
    and "rq_chunk_cb rq = Some f" and "stream_request b fd keep rq" and "stream_world b r fd m evs w1"
  shows "\<exists>w2. request_cycle user (Suc n) E_Write r w = request_cycle user n (E_Call f) r w2
    \<and> between_chunks b r fd keep m evs w2 \<and> w_sent w2 = w_sent w1 \<and> w_writes w2 = w_writes w1"
proof -
  let ?rq = "rq\<lparr>rq_timeout := HTTP_REQUEST_TIMEOUT\<rparr>"
  obtain bf mem where bf: "hs_buffer_free (rq_buffer rq) (w_memused w1) = (bf, mem)" "bf_buf bf = None"
    by (cases "hs_buffer_free (rq_buffer rq) (w_memused w1)") (auto simp: hs_buffer_free_def split: if_splits)
  let ?w = "assign r (?rq\<lparr>rq_buffer := bf\<rparr>) (set_memused mem (assign r ?rq w1))"
  let ?rq2 = "?rq\<lparr>rq_buffer := bf, rq_state := HTTP_SESSION_NOP\<rparr>"
  let ?w2 = "assign r ?rq2 ?w"
  have "request_buffer_free r (assign r ?rq w1) = Inr ?w" using bf(1) by (simp add: request_buffer_free_def)
  then have e: "request_cycle user (Suc n) E_Write r w = request_cycle user n (E_Call f) r ?w2"
    using assms(1-3) by (simp add: hs_write_socket_and_handle_return_code_def modify_def exec_chunk_cb_def hs_exec_callback_def)
  have "unowned r w1 = m" "0 \<le> m" "m < 1152921504606846976" using assms(5) by (simp_all add: stream_world_def)
  then have "mem = m"
    using buffer_free_account [of "w_memused w1" "rq_buffer rq"] unowned_deref [OF assms(2)] bf(1) by simp
  moreover have "unowned r ?w2 = w_memused ?w2" using unowned_deref [OF deref_assign [of r ?rq2 ?w]] bf(2) by (simp add: owned_bytes_def)
  ultimately have "unowned r ?w2 = m" by simp
  then have "stream_world b r fd m evs ?w2" using assms(5) by (simp add: stream_world_def no_epipe_def assign_def set_memused_def)
  moreover have "stream_request b fd keep ?rq2" using assms(4) by (simp add: stream_request_def)
  ultimately have "between_chunks b r fd keep m evs ?w2"
    using bf(2) unfolding between_chunks_def by (intro conjI exI [of _ ?rq2]) simp_all
  with e show ?thesis by (intro exI [of _ ?w2]) (simp add: assign_def set_memused_def)
qed

lemma chunk_step:
  assumes g: "chunk_out b r fd keep m evs f text k w"
  shows "\<exists>w'. w_writes w' fd = tl (w_writes w fd)
      \<and> (request_cycle user (Suc (Suc n)) E_Write r w = request_cycle user (Suc n) (E_Call f) r w'
           \<and> between_chunks b r fd keep m evs w' \<and> w_sent w' fd = w_sent w fd @ map Some (drop k text)
         \<or> request_cycle user (Suc (Suc n)) E_Write r w = Inr w' \<and> w_writes w fd \<noteq> []
           \<and> (\<exists>k'. chunk_out b r fd keep m evs f text k' w' \<and> k \<le> k'
                \<and> w_sent w' fd = w_sent w fd @ map Some (take (k' - k) (drop k text))))"
proof -
  from g obtain rq where rq: "writing r w rq text k" "rq_state rq = HTTP_SESSION_WRITE" "rq_chunk_cb rq = Some f"
    "stream_request b fd keep rq" and w: "stream_world b r fd m evs w" by (auto simp: chunk_out_def)
  have fd: "rq_socket rq = fd" and fl: "HTTP_FLAG_CHECK (rq_flags rq) HTTP_CHUNKED_RESPONSE"
    using rq(4) by (simp_all add: stream_request_def)
  have same: "stream_request b fd keep (rq\<lparr>rq_bytes_written := i\<rparr>)"
    "stream_request b fd keep (rq\<lparr>rq_bytes_written := i, rq_timeout := t\<rparr>)" for i t
    using rq(4) by (simp_all add: stream_request_def)
  have "no_epipe w (rq_socket rq)" using w fd by (simp add: stream_world_def)
  with rq(1) show ?thesis
  proof (cases rule: write_attempt)
    case (whole w1)
    have s1: "hs_write_socket r w = Inr (HS_WRITE_RC_SUCCESS_CHUNK, w1)" using whole(1) fl by simp
    have "stream_world b r fd m evs w1" using stream_world_wrote [OF w] whole(3) fd by simp
    from chunk_written [OF s1 whole(2) _ same(1) this, of f user "Suc n"] rq(3) obtain w2 where
      "request_cycle user (Suc (Suc n)) E_Write r w = request_cycle user (Suc n) (E_Call f) r w2"
      "between_chunks b r fd keep m evs w2" "w_sent w2 = w_sent w1" "w_writes w2 = w_writes w1" by auto
    with whole(3,4) fd show ?thesis by (intro exI [of _ w2]) (simp add: wrote_def)
  next
    case (part w1 k')
    have "chunk_out b r fd keep m evs f text k' w1"
      using part(3) rq(2,3) same(2) stream_world_wrote [OF w] part(4) fd unfolding chunk_out_def
      by (intro conjI exI [of _ "rq\<lparr>rq_bytes_written := int k', rq_timeout := HTTP_REQUEST_TIMEOUT\<rparr>"]) simp_all
    with part fd show ?thesis by (intro exI [of _ w1]) (auto simp: wrote_def simp del: request_cycle.simps)
  qed
qed

interpretation chunk: write_phase user r fd msg "chunk_out b r fd keep m evs f msg" "between_chunks b r fd keep m evs"
    "\<lambda>l w. request_cycle user (Suc l) (E_Call f) r w"
  for user r fd msg b keep m evs f
proof (unfold_locales, goal_cases)
  case (1 k w l)
  then show ?case using chunk_step by blast
next
  case (2 k w n)
  then show ?case by (rule chunk_out_event)
qed

section \<open>The calls of the user's code\<close>

lemma chunk_begins:
  assumes d: "deref r w = Inr rq" and o: "chunk_opens rq rq' (sv_date (w_server w)) x head" and x: "body_is x body"
    and len: "length (head @ chunk_frame body) < 1024"
    and own: "0 \<le> owned_bytes (rq_buffer rq)" "owned_bytes (rq_buffer rq) < 2147483648" "rq_buffer rq' = rq_buffer rq"
    and q: "stream_request b fd keep rq'" and w: "stream_world b r fd m evs w"
    and u: "calls user f r (Respond_Chunk x (Some g))"
  shows "\<exists>w2. request_cycle user (Suc n) (E_Call f) r w = request_cycle user n E_Write r w2
    \<and> chunk_out b r fd keep m evs g (head @ chunk_frame body) 0 w2 \<and> w_sent w2 = w_sent w \<and> w_writes w2 = w_writes w"
proof -
  let ?bw = "hs_request_begin_write (request_cycle user n E_Write)" and ?rq = "rq'\<lparr>rq_chunk_cb := Some g\<rparr>"
  have acc: "account_small w rq'" using unowned_deref [OF d] own w by (simp add: account_small_def stream_world_def)
  from sends_begins [OF respond_chunk_sends [OF d o x len acc, of "Some g" ?bw] d] own(3) obtain bf w2 where
    w2: "hs_request_respond_chunk r x (Some g) ?bw w = request_cycle user n E_Write r w2"
    "writing r w2 (?rq\<lparr>rq_buffer := bf, rq_bytes_written := 0, rq_state := HTTP_SESSION_WRITE\<rparr>) (head @ chunk_frame body) 0"
    "unowned r w2 = unowned r w" "w_sent w2 = w_sent w" "w_writes w2 = w_writes w" "w_reads w2 = w_reads w"
    "w_build w2 = w_build w" "w_shift w2 = w_shift w" "w_errno w2 = w_errno w" by auto
  have "stream_world b r fd m evs w2" using w w2(3-9) by (simp add: stream_world_def no_epipe_def)
  moreover have "stream_request b fd keep (?rq\<lparr>rq_buffer := bf, rq_bytes_written := 0, rq_state := HTTP_SESSION_WRITE\<rparr>)"
    using q by (simp add: stream_request_def)
  ultimately have "chunk_out b r fd keep m evs g (head @ chunk_frame body) 0 w2" using w2(2) unfolding chunk_out_def
    by (intro conjI exI [of _ "?rq\<lparr>rq_buffer := bf, rq_bytes_written := 0, rq_state := HTTP_SESSION_WRITE\<rparr>"]) simp_all
  moreover have "request_cycle user (Suc n) (E_Call f) r w = request_cycle user n E_Write r w2"
    using u w2(1) by (simp add: calls_def run_call_def http_respond_chunk_def bindr_return)
  ultimately show ?thesis using w2(4,5) by auto
qed

lemma next_chunk:
  assumes "between_chunks b r fd keep m evs w" and "chunk_ok x body"
    and "calls user f r (Respond_Chunk x (Some g))"
  shows "\<exists>w2. request_cycle user (Suc n) (E_Call f) r w = request_cycle user n E_Write r w2
    \<and> chunk_out b r fd keep m evs g (chunk_frame body) 0 w2 \<and> w_sent w2 = w_sent w \<and> w_writes w2 = w_writes w"
proof -
  from assms(1) obtain rq where rq: "deref r w = Inr rq" "bf_buf (rq_buffer rq) = None" "stream_request b fd keep rq"
    and w: "stream_world b r fd m evs w" by (auto simp: between_chunks_def)
  have "chunk_opens rq rq (sv_date (w_server w)) x []" using rq(3) by (simp add: chunk_opens_def stream_request_def)
  moreover have "body_is x body" "length ([] @ chunk_frame body) < 1024" using assms(2) by (simp_all add: chunk_ok_def)
  moreover have "0 \<le> owned_bytes (rq_buffer rq)" "owned_bytes (rq_buffer rq) < 2147483648" using rq(2) by (simp_all add: owned_bytes_def)
  ultimately show ?thesis using chunk_begins [OF rq(1) _ _ _ _ _ refl rq(3) w assms(3), of "[]" body n] by simp
qed

lemma stream_ends:
  assumes "between_chunks b r fd keep m evs w" and "length (stream_end final) < 1024"
    and "calls user f r (Respond_Chunk_End final)"
  shows "\<exists>w2. request_cycle user (Suc n) (E_Call f) r w = request_cycle user n E_Write r w2
    \<and> sending b r fd keep m (stream_end final) 0 w2 \<and> w_sent w2 = w_sent w \<and> w_writes w2 = w_writes w \<and> w_reads w2 fd = evs"
proof -
  let ?bw = "hs_request_begin_write (request_cycle user n E_Write)"
  from assms(1) obtain rq where rq: "deref r w = Inr rq" "bf_buf (rq_buffer rq) = None" "stream_request b fd keep rq"
    and w: "stream_world b r fd m evs w" by (auto simp: between_chunks_def)
  from rq(3) obtain us where q: "rq_socket rq = fd" "rq_handler rq = client_handler b" "tokens_hold (rq_tokens rq) us" "length us < 100000000"
    "HTTP_FLAG_CHECK (rq_flags rq) HTTP_KEEP_ALIVE = keep" by (auto simp: stream_request_def)
  let ?rq = "rq\<lparr>rq_flags := HTTP_FLAG_CLEAR (rq_flags rq) HTTP_CHUNKED_RESPONSE\<rparr>"
  have acc: "account_small w rq" using unowned_deref [OF rq(1)] rq(2) w by (simp add: account_small_def stream_world_def owned_bytes_def)
  have "length (''0'' @ crlf @ concat (map header_line (rs_headers final)) @ crlf @ crlf) < 1024" using assms(2) by (simp add: stream_end_def)
  from sends_begins [OF respond_chunk_end_sends [OF rq(1) acc this, of ?bw] rq(1)] obtain bf w2 where
    w2: "hs_request_respond_chunk_end r final ?bw w = request_cycle user n E_Write r w2"
    "writing r w2 (?rq\<lparr>rq_buffer := bf, rq_bytes_written := 0, rq_state := HTTP_SESSION_WRITE\<rparr>) (stream_end final) 0"
    "unowned r w2 = unowned r w" "w_sent w2 = w_sent w" "w_writes w2 = w_writes w" "w_reads w2 = w_reads w"
    "w_build w2 = w_build w" "w_shift w2 = w_shift w" "w_errno w2 = w_errno w" by (auto simp: stream_end_def)
  have fl: "\<not> HTTP_FLAG_CHECK (HTTP_FLAG_CLEAR v HTTP_CHUNKED_RESPONSE) HTTP_CHUNKED_RESPONSE"
    "HTTP_FLAG_CHECK (HTTP_FLAG_CLEAR v HTTP_CHUNKED_RESPONSE) HTTP_KEEP_ALIVE = HTTP_FLAG_CHECK v HTTP_KEEP_ALIVE" for v
    by (simp_all add: flag_ops HTTP_CHUNKED_RESPONSE_def HTTP_KEEP_ALIVE_def and.assoc)
  have "sending b r fd keep m (stream_end final) 0 w2"
    using w w2(2,3,5,7-9) q fl unfolding sending_def stream_world_def
    by (intro conjI exI [of _ "?rq\<lparr>rq_buffer := bf, rq_bytes_written := 0, rq_state := HTTP_SESSION_WRITE\<rparr>"] exI [of _ us])
      (simp_all add: no_epipe_def)
  moreover have "request_cycle user (Suc n) (E_Call f) r w = request_cycle user n E_Write r w2"
    using assms(3) w2(1) by (simp add: calls_def run_call_def http_respond_chunk_end_def bindr_return)
  ultimately show ?thesis using w w2(4-6) by (auto simp: stream_world_def)
qed

text \<open>
  The rest of the response, from a chunk on. Each chunk takes two levels of the stack, and a chunk
  that is finished by an event starts from the event's depth again.
\<close>

lemma two_levels: "2 * k + 4 \<le> l \<Longrightarrow> \<exists>l'. l = Suc (Suc l')" for k l :: nat
  by presburger

lemma stream_out:
  assumes "streams user r g xs final" and "list_all2 chunk_ok xs bodies" and "length (stream_end final) < 1024"
    and "chunk_out b r fd keep m (R_Fail EAGAIN # evs) g text 0 w" and "2 * length xs + 4 \<le> l" and "2 * length xs + 4 \<le> N"
  shows "\<exists>j\<le>length (w_writes w fd). \<exists>w'. bindr (request_cycle user l E_Write r w)
        (event_loop (run_handler user N) (replicate j (Ev_Request r))) = Inr w'
    \<and> settled r fd keep m w' \<and> w_sent w' fd = w_sent w fd @ map Some (text @ concat (map chunk_frame bodies) @ stream_end final)"
  using assms
proof (induction xs arbitrary: g bodies w l "text")
  case (Nil g bodies w l "text")
  obtain l' n where l: "l = Suc (Suc l')" "N = Suc (Suc n)" using two_levels [OF Nil.prems(5)] two_levels [OF Nil.prems(6)] by blast
  from chunk.ends [OF Nil.prems(4), of l' n user] obtain j k w1 where
    j: "k \<in> {l', n}" "between_chunks b r fd keep m (R_Fail EAGAIN # evs) w1"
      "w_sent w1 fd = w_sent w fd @ map Some text" "j + length (w_writes w1 fd) \<le> length (w_writes w fd)"
      "\<And>es. bindr (request_cycle user l E_Write r w) (event_loop (run_handler user N) (replicate j (Ev_Request r) @ es))
        = bindr (request_cycle user (Suc k) (E_Call g) r w1) (event_loop (run_handler user N) es)" unfolding l by auto
  obtain i where i: "k = Suc (Suc i)" using j(1) Nil.prems(5,6) l by (cases k; cases "k - 1") auto
  from stream_ends [OF j(2) Nil.prems(3), of user g k] Nil.prems(1) obtain w2 where
    w2: "request_cycle user (Suc k) (E_Call g) r w1 = request_cycle user k E_Write r w2"
    "sending b r fd keep m (stream_end final) 0 w2" "w_sent w2 = w_sent w1" "w_writes w2 = w_writes w1" "w_reads w2 fd = R_Fail EAGAIN # evs"
    by (auto simp del: request_cycle.simps)
  from response_sent [OF w2(2,5), of user i n] obtain i' w' where
    "i' \<le> length (w_writes w1 fd)" "bindr (request_cycle user k E_Write r w2) (event_loop (run_handler user N) (replicate i' (Ev_Request r))) = Inr w'"
    "settled r fd keep m w'" "w_sent w' fd = w_sent w1 fd @ map Some (stream_end final)" using w2(3,4) i l(2) by auto
  with j(3,4) j(5) [of "replicate i' (Ev_Request r)"] w2(1) Nil.prems(2) show ?case
    by (intro exI [of _ "j + i'"] conjI exI [of _ w']) (simp_all add: replicate_add del: request_cycle.simps)
next
  case (Cons x xs g bodies w l "text")
  from Cons.prems(2) obtain body bs where bodies: "bodies = body # bs" "chunk_ok x body" "list_all2 chunk_ok xs bs"
    by (auto simp: list_all2_Cons1)
  from Cons.prems(1) obtain g' where g: "calls user g r (Respond_Chunk x (Some g'))" "streams user r g' xs final" by auto
  obtain l' n where l: "l = Suc (Suc l')" "N = Suc (Suc n)" using two_levels [OF Cons.prems(5)] two_levels [OF Cons.prems(6)] by blast
  from chunk.ends [OF Cons.prems(4), of l' n user] obtain j k w1 where
    j: "k \<in> {l', n}" "between_chunks b r fd keep m (R_Fail EAGAIN # evs) w1"
      "w_sent w1 fd = w_sent w fd @ map Some text" "j + length (w_writes w1 fd) \<le> length (w_writes w fd)"
      "\<And>es. bindr (request_cycle user l E_Write r w) (event_loop (run_handler user N) (replicate j (Ev_Request r) @ es))
        = bindr (request_cycle user (Suc k) (E_Call g) r w1) (event_loop (run_handler user N) es)" unfolding l by auto
  from next_chunk [OF j(2) bodies(2) g(1), of k] obtain w2 where
    w2: "request_cycle user (Suc k) (E_Call g) r w1 = request_cycle user k E_Write r w2"
    "chunk_out b r fd keep m (R_Fail EAGAIN # evs) g' (chunk_frame body) 0 w2" "w_sent w2 = w_sent w1" "w_writes w2 = w_writes w1"
    by (auto simp del: request_cycle.simps)
  have "2 * length xs + 4 \<le> k" "2 * length xs + 4 \<le> N" using j(1) Cons.prems(5,6) l by auto
  from Cons.IH [OF g(2) bodies(3) Cons.prems(3) w2(2) this] obtain i w' where
    "i \<le> length (w_writes w1 fd)" "bindr (request_cycle user k E_Write r w2) (event_loop (run_handler user N) (replicate i (Ev_Request r))) = Inr w'"
    "settled r fd keep m w'" "w_sent w' fd = w_sent w1 fd @ map Some (chunk_frame body @ concat (map chunk_frame bs) @ stream_end final)"
    using w2(3,4) by auto
  with j(3,4) j(5) [of "replicate i (Ev_Request r)"] w2(1) show ?case
    by (intro exI [of _ "j + i"] conjI exI [of _ w']) (simp_all add: replicate_add bodies(1) del: request_cycle.simps)
qed

section \<open>The first chunk\<close>

lemma chunked_flags:
  assumes "same_flags HTTP_AUTOMATIC f"
  defines "g \<equiv> HTTP_FLAG_SET f HTTP_CHUNKED_RESPONSE"
  shows "\<not> HTTP_FLAG_CHECK f HTTP_CHUNKED_RESPONSE" "HTTP_FLAG_CHECK g HTTP_AUTOMATIC"
    "HTTP_FLAG_CHECK f HTTP_FLG_STREAMED \<Longrightarrow> HTTP_FLAG_CHECK g HTTP_FLG_STREAMED"
    "HTTP_FLAG_CHECK (HTTP_FLAG_SET g HTTP_KEEP_ALIVE) HTTP_CHUNKED_RESPONSE"
    "HTTP_FLAG_CHECK (HTTP_FLAG_CLEAR g HTTP_KEEP_ALIVE) HTTP_CHUNKED_RESPONSE"
    "HTTP_FLAG_CHECK (HTTP_FLAG_SET g HTTP_KEEP_ALIVE) HTTP_KEEP_ALIVE"
    "\<not> HTTP_FLAG_CHECK (HTTP_FLAG_CLEAR g HTTP_KEEP_ALIVE) HTTP_KEEP_ALIVE"
proof -
  from assms(1) have "f = 0x8 \<or> f = 0x9" by (auto simp: same_flags_def HTTP_AUTOMATIC_def HTTP_FLG_STREAMED_def flag_ops)
  then show "\<not> HTTP_FLAG_CHECK f HTTP_CHUNKED_RESPONSE" "HTTP_FLAG_CHECK g HTTP_AUTOMATIC"
    "HTTP_FLAG_CHECK f HTTP_FLG_STREAMED \<Longrightarrow> HTTP_FLAG_CHECK g HTTP_FLG_STREAMED"
    "HTTP_FLAG_CHECK (HTTP_FLAG_SET g HTTP_KEEP_ALIVE) HTTP_CHUNKED_RESPONSE"
    "HTTP_FLAG_CHECK (HTTP_FLAG_CLEAR g HTTP_KEEP_ALIVE) HTTP_CHUNKED_RESPONSE"
    "HTTP_FLAG_CHECK (HTTP_FLAG_SET g HTTP_KEEP_ALIVE) HTTP_KEEP_ALIVE"
    "\<not> HTTP_FLAG_CHECK (HTTP_FLAG_CLEAR g HTTP_KEEP_ALIVE) HTTP_KEEP_ALIVE"
    unfolding g_def by (elim disjE; simp; code_simp)+
qed

definition stream_head :: "bool \<Rightarrow> string \<Rightarrow> http_response_s \<Rightarrow> string" where
  "stream_head keep date x = response_head keep True date (hs_response_set_header x ''Transfer-Encoding'' ''chunked'')"

lemma first_chunk:
  assumes h: "handed [] b H r fd h rq w" and f: "same_flags HTTP_AUTOMATIC (rq_flags rq)"
    and u: "calls user H r (Respond_Chunk x (Some g))" and m: "unowned r w = m" "0 \<le> m" "m < 1152921504606846976"
    and e: "W_Fail EPIPE \<notin> set (w_writes w fd)"
    and x: "status_ok x" "body_is x body" "length (stream_head (keeps h) (sv_date (w_server w)) x @ chunk_frame body) < 1024"
  shows "\<exists>w2. request_cycle user (Suc n) (E_Call H) r w = request_cycle user n E_Write r w2
    \<and> chunk_out b r fd (keeps h) m (w_reads w fd) g (stream_head (keeps h) (sv_date (w_server w)) x @ chunk_frame body) 0 w2
    \<and> w_sent w2 = w_sent w \<and> w_writes w2 = w_writes w"
proof -
  let ?rq = "rq\<lparr>rq_flags := HTTP_FLAG_SET (rq_flags rq) HTTP_CHUNKED_RESPONSE\<rparr>"
  let ?rq' = "set_keep_alive (keeps h) ?rq"
  from h obtain us where d: "deref r w = Inr rq" "delivered [] h rq" "rq_socket rq = fd" "rq_handler rq = client_handler b"
    "owned_bytes (rq_buffer rq) = 1024" "tokens_hold (rq_tokens rq) us" "length us \<le> 4097"
    "w_build w = b" "w_shift w = 0" "w_errno w = EAGAIN" by (auto simp: handed_def)
  note fl = chunked_flags [OF f]
  have "delivered [] h ?rq" using d(2) fl(3) by (simp add: delivered_def)
  then have dec: "decides ?rq ?rq'" using fl(2) delivered_detects by (simp add: decides_def keeps_def)
  have kf: "HTTP_FLAG_CHECK (rq_flags ?rq') HTTP_KEEP_ALIVE = keeps h" "HTTP_FLAG_CHECK (rq_flags ?rq') HTTP_CHUNKED_RESPONSE"
    using fl(4-7) by (simp_all add: set_keep_alive_def)
  have o: "chunk_opens rq ?rq' (sv_date (w_server w)) x (stream_head (keeps h) (sv_date (w_server w)) x)"
    using fl(1) dec kf x(1) by (simp add: chunk_opens_def stream_head_def)
  have "0 \<le> owned_bytes (rq_buffer rq)" "owned_bytes (rq_buffer rq) < 2147483648" "rq_buffer ?rq' = rq_buffer rq"
    using d(5) by (simp_all add: set_keep_alive_def)
  moreover have "stream_request b fd (keeps h) ?rq'"
    using d(3,4,6,7) kf by (auto simp: stream_request_def set_keep_alive_def)
  moreover have "stream_world b r fd m (w_reads w fd) w" using d(8-10) m e by (simp add: stream_world_def no_epipe_def)
  ultimately show ?thesis by (rule chunk_begins [OF d(1) o x(2,3) _ _ _ _ _ u])
qed

section \<open>The whole response\<close>

text \<open>
  C3. A streamed response arrives. On a server that has been started a connection is accepted, the
  bytes of a head without a body arrive in any pieces, and the handler answers with a first chunk whose
  callback sends the next one, and so on to the end of the response: then, however the socket delays
  and splits the writing, as long as it does not break, every callback is called, each when the chunk
  before it is out, and the client gets the head with the header \<open>Transfer-Encoding: chunked\<close>, the
  chunks, and the end of the stream. A client that decodes the body gets the bodies of the chunks, one
  after the other. What follows them is the end of the message and a line break that belongs to
  nothing. The connection is then kept, waiting for the next request, or closed.
\<close>

theorem streamed_response_delivered:
  assumes "started serv port handler now w = Inr w1" and "w_shift w = 0"
    and "w_accepts w = [fd]" and "0 < fd" and "w_reads w fd = concat (map arrives (p # ps)) @ [R_Fail EAGAIN]"
    and "W_Fail EPIPE \<notin> set (w_writes w fd)"
    and "short_head h" and "bodiless h" and "concat (p # ps) = render_head h" and "ps \<noteq> []" and "last ps \<noteq> []"
    and "streams user (w_next w) handler (x # xs) final" and "status_ok x" and "list_all2 chunk_ok (x # xs) bodies"
    and "length (stream_head (keeps h) (sv_date (w_server w1)) x @ chunk_frame (hd bodies)) < 1024" and "length (stream_end final) < 1024"
    and "2 * length xs + 5 \<le> n"
  shows "\<exists>j\<le>length (w_writes w fd). \<exists>w'.
      event_loop (run_handler user (Suc n)) (Ev_Server_Socket # replicate (length ps + j) (Ev_Request (w_next w))) w1 = Inr w'
    \<and> w_sent w' fd = w_sent w fd @ map Some (stream_head (keeps h) (sv_date (w_server w1)) x
        @ concat (map chunk_frame bodies) @ stream_end final)
    \<and> dechunk (concat (map chunk_frame bodies) @ stream_end final)
      = Some (concat bodies, (concat (map header_line (rs_headers final)) @ crlf) @ crlf)
    \<and> settled (w_next w) fd (keeps h) 0 w'"
proof -
  let ?r = "w_next w" and ?date = "sv_date (w_server w1)" and ?text = "stream_head (keeps h) (sv_date (w_server w1)) x @ chunk_frame (hd bodies)"
  note st = started_ready [OF assms(1)]
  obtain n' where n: "n = Suc n'" using assms(17) by (cases n) auto
  from assms(14) obtain body bs where bodies: "bodies = body # bs" "chunk_ok x body" "list_all2 chunk_ok xs bs"
    by (auto simp: list_all2_Cons1)
  from assms(12) obtain g where g: "calls user handler ?r (Respond_Chunk x (Some g))" "streams user ?r g xs final" by auto
  have "concat (p # ps) = render_head h @ []" "length ([] :: string) < length (last ps)" "length (render_head h @ []) < 1024"
    using assms(7,9,11) by (simp_all add: short_head_def)
  from request_handed [OF assms(1-5,7,8) this(1) assms(10) this(2,3), of user n] obtain rq w2 where
    e: "event_loop (run_handler user (Suc n)) (Ev_Server_Socket # replicate (length ps) (Ev_Request ?r)) w1
      = request_cycle user n (E_Call handler) ?r w2"
    and h: "handed [] (w_build w) handler ?r fd h rq w2" and rd: "w_reads w2 fd = [R_Fail EAGAIN]" and j: "joined ?r w1 w2" by blast
  have f: "same_flags HTTP_AUTOMATIC (rq_flags rq)" using h j by (auto simp: handed_def joined_def)
  have m: "unowned ?r w2 = 0" using j st(4) by (simp add: joined_def)
  have w: "w_sent w2 = w_sent w" "w_writes w2 = w_writes w" "sv_date (w_server w2) = ?date"
    using j st by (simp_all add: joined_def)
  have x: "body_is x body" "length (stream_head (keeps h) (sv_date (w_server w2)) x @ chunk_frame body) < 1024"
    "W_Fail EPIPE \<notin> set (w_writes w2 fd)" using bodies assms(6,15) w by (simp_all add: chunk_ok_def)
  from first_chunk [OF h f g(1) m _ _ x(3) assms(13) x(1,2), of n'] rd w obtain w3 where
    w3: "request_cycle user n (E_Call handler) ?r w2 = request_cycle user n' E_Write ?r w3"
      "chunk_out (w_build w) ?r fd (keeps h) 0 [R_Fail EAGAIN] g ?text 0 w3" "w_sent w3 = w_sent w" "w_writes w3 = w_writes w"
    by (auto simp: n bodies(1) simp del: request_cycle.simps)
  have "2 * length xs + 4 \<le> n'" "2 * length xs + 4 \<le> Suc n" using assms(17) n by simp_all
  from stream_out [OF g(2) bodies(3) assms(16) w3(2) this] w3(3,4) obtain j w' where
    r: "j \<le> length (w_writes w fd)" "bindr (request_cycle user n' E_Write ?r w3)
        (event_loop (run_handler user (Suc n)) (replicate j (Ev_Request ?r))) = Inr w'"
      "settled ?r fd (keeps h) 0 w'" "w_sent w' fd = w_sent w fd @ map Some (?text @ concat (map chunk_frame bs) @ stream_end final)" by auto
  from event_loop_append [of _ "Ev_Server_Socket # replicate (length ps) (Ev_Request ?r)"] r(2)
  have "event_loop (run_handler user (Suc n)) (Ev_Server_Socket # replicate (length ps + j) (Ev_Request ?r)) w1 = Inr w'"
    by (simp add: replicate_add e w3(1) del: request_cycle.simps event_loop.simps)
  moreover have "dechunk (concat (map chunk_frame bodies) @ stream_end final)
      = Some (concat bodies, (concat (map header_line (rs_headers final)) @ crlf) @ crlf)"
    using dechunk_stream [OF chunks_small [OF assms(14)]] by simp
  ultimately show ?thesis using r(1,3,4) by (intro exI [of _ j] conjI exI [of _ w']) (simp_all add: bodies(1))
qed

section \<open>An instance\<close>

text \<open>Two chunks, on a socket that takes ten bytes of the first one, refuses, and takes the rest.\<close>

definition there_response :: http_response_s where
  "there_response = hs_response_set_body hs_response_init (c_string ''there'') 5"

definition stream_handler :: user_code where
  "stream_handler f r w =
     (if f = 0 then Call (Respond_Chunk ok_response (Some 1)) r (\<lambda>w. Return)
      else if f = 1 then Call (Respond_Chunk there_response (Some 2)) r (\<lambda>w. Return)
      else Call (Respond_Chunk_End hs_response_init) r (\<lambda>w. Return))"

lemma stream_facts:
  "streams stream_handler 0 0 [ok_response, there_response] hs_response_init"
  "list_all2 chunk_ok [ok_response, there_response] [''hi'', ''there'']"
  "length (stream_end hs_response_init) < 1024" "stream_end hs_response_init = ''0'' @ crlf @ crlf @ crlf"
  "chunk_frame ''hi'' = ''2'' @ crlf @ ''hi'' @ crlf" "chunk_frame ''there'' = ''5'' @ crlf @ ''there'' @ crlf"
  "rs_headers hs_response_init = []"
proof -
  show f: "chunk_frame ''hi'' = ''2'' @ crlf @ ''hi'' @ crlf" "chunk_frame ''there'' = ''5'' @ crlf @ ''there'' @ crlf" by code_simp+
  show "streams stream_handler 0 0 [ok_response, there_response] hs_response_init" by (auto simp: calls_def stream_handler_def)
  have "body_is there_response ''there''"
    by (simp add: there_response_def hs_response_set_body_def hs_response_init_def body_is_def cells_def c_string_def)
  then show "list_all2 chunk_ok [ok_response, there_response] [''hi'', ''there'']"
    using closing_facts(6) by (simp add: chunk_ok_def f crlf_def)
  show "stream_end hs_response_init = ''0'' @ crlf @ crlf @ crlf" "length (stream_end hs_response_init) < 1024" "rs_headers hs_response_init = []"
    by (simp_all add: stream_end_def hs_response_init_def crlf_def)
qed

lemma ok_stream_head: "stream_head False ''Thu, 01 Jan 1970 00:00:00 GMT'' ok_response =
    ''HTTP/1.1 200 OK'' @ crlf @ ''Date: Thu, 01 Jan 1970 00:00:00 GMT'' @ crlf
    @ ''Connection: close'' @ crlf @ ''Transfer-Encoding: chunked'' @ crlf @ ''Content-Type: text/plain'' @ crlf @ crlf"
  by code_simp

theorem streamed_response_delivered_witness:
  "\<exists>j\<le>2. \<exists>w1 w'. started sample_server 8080 0 0 asking_world = Inr w1
    \<and> event_loop (run_handler stream_handler 8) (Ev_Server_Socket # replicate (1 + j) (Ev_Request 0)) w1 = Inr w'
    \<and> w_sent w' 7 = map Some ((''HTTP/1.1 200 OK'' @ crlf @ ''Date: Thu, 01 Jan 1970 00:00:00 GMT'' @ crlf
        @ ''Connection: close'' @ crlf @ ''Transfer-Encoding: chunked'' @ crlf @ ''Content-Type: text/plain'' @ crlf @ crlf)
      @ ''2'' @ crlf @ ''hi'' @ crlf @ ''5'' @ crlf @ ''there'' @ crlf @ ''0'' @ crlf @ crlf @ crlf)
    \<and> dechunk (''2'' @ crlf @ ''hi'' @ crlf @ ''5'' @ crlf @ ''there'' @ crlf @ ''0'' @ crlf @ crlf @ crlf) = Some (''hithere'', crlf @ crlf)
    \<and> settled 0 7 False 0 w'"
proof -
  obtain w1 where w1: "started sample_server 8080 0 0 asking_world = Inr w1" using started_total by blast
  note aw = asking_world_facts
  note d = started_date [OF aw(7) w1, unfolded date_zero]
  have l: "length (stream_head (keeps two_headers) (sv_date (w_server w1)) ok_response @ chunk_frame (hd [''hi'', ''there''])) < 1024"
    using two_headers_facts(3) by (simp add: d ok_stream_head stream_facts(5) crlf_def)
  have e: "W_Fail EPIPE \<notin> set (w_writes asking_world 7)" by (simp add: aw(5))
  have pos: "(0 :: int) < 7" and n: "2 * length [there_response] + 5 \<le> 7" by simp_all
  have k: "keeps two_headers = False" and eight: "Suc 7 = 8" using two_headers_facts(3) by simp_all
  have u: "streams stream_handler (w_next asking_world) 0 [ok_response, there_response] hs_response_init"
    using stream_facts(1) aw(3) by simp
  note str = streamed_response_delivered [OF w1 aw(1,2) pos aw(4) e two_headers_facts(1,2) closing_pieces_facts(1-3) u closing_facts(3)
      stream_facts(2) l stream_facts(3) n]
  obtain j w' where j: "j \<le> length [W_Accept 10, W_Fail EAGAIN]"
    "event_loop (run_handler stream_handler 8) (Ev_Server_Socket # replicate (1 + j) (Ev_Request 0)) w1 = Inr w'"
    "w_sent w' 7 = [] @ map Some (stream_head False (sv_date (w_server w1)) ok_response
        @ concat (map chunk_frame [''hi'', ''there'']) @ stream_end hs_response_init)"
    "dechunk (concat (map chunk_frame [''hi'', ''there'']) @ stream_end hs_response_init)
      = Some (concat [''hi'', ''there''], (concat (map header_line (rs_headers hs_response_init)) @ crlf) @ crlf)"
    "settled 0 7 False 0 w'"
    using str [unfolded aw(3,5,6) closing_pieces_facts(4) k eight] by blast
  have "j \<le> 2" using j(1) by simp
  moreover have "w_sent w' 7 = map Some ((''HTTP/1.1 200 OK'' @ crlf @ ''Date: Thu, 01 Jan 1970 00:00:00 GMT'' @ crlf
        @ ''Connection: close'' @ crlf @ ''Transfer-Encoding: chunked'' @ crlf @ ''Content-Type: text/plain'' @ crlf @ crlf)
      @ ''2'' @ crlf @ ''hi'' @ crlf @ ''5'' @ crlf @ ''there'' @ crlf @ ''0'' @ crlf @ crlf @ crlf)"
    using j(3) by (simp add: d ok_stream_head stream_facts(4-6))
  moreover have "dechunk (''2'' @ crlf @ ''hi'' @ crlf @ ''5'' @ crlf @ ''there'' @ crlf @ ''0'' @ crlf @ crlf @ crlf) = Some (''hithere'', crlf @ crlf)"
    using j(4) by (simp add: stream_facts(4-7))
  ultimately show ?thesis using w1 j(2,5) by (intro exI [of _ j] conjI exI [of _ w1] exI [of _ w']) simp_all
qed

end
