(* ===== verification/Spec2Isabelle.thy ===== *)
theory Spec2Isabelle
  imports Parser_Grammar Parser_Safety Read_Props Request_Props Respond_Props Write_Props Parser_Chunks Server_Invariants Parse_Loop Parse_Split Delivered Unanswered Body_Delivery Body_Account Streamed
begin

text \<open>
  A model of \<^verbatim>\<open>httpserver.h\<close>, an event-driven HTTP/1.x server in C, and the theorems
  about it. The sources are under \<^verbatim>\<open>src/src/\<close>; \<^verbatim>\<open>src/httpserver.h\<close> is
  their amalgamation, and the only place that has the parser as Ragel compiled it.

  \<^bold>\<open>The program.\<close> The event loop (\<^verbatim>\<open>server.c\<close>) waits for events with epoll or
  kqueue and calls the handler that is stored behind the event's data pointer
  (\<^verbatim>\<open>io_events.c\<close>). An event of the listening socket accepts connections
  (\<^verbatim>\<open>connection.c\<close>); an event of a connection reads its socket into the request's buffer
  and runs the parser over it (\<^verbatim>\<open>read_socket.c\<close>, \<^verbatim>\<open>parser.rl\<close>). The parser
  returns tokens, which are slices of that buffer; the tokens that end the headers or bring a part of
  the body make the loop call the user's code. The user's code inspects the request
  (\<^verbatim>\<open>request_util.c\<close>) and answers through the interface (\<^verbatim>\<open>api.c\<close>), which
  serializes a response into a growing print buffer (\<^verbatim>\<open>respond.c\<close>) and starts writing
  (\<^verbatim>\<open>write_socket.c\<close>). A written response frees the request, waits for the next one, or
  calls the user's code for the next chunk; so reading, writing and user code call each other
  recursively.

  \<^bold>\<open>How the model reads.\<close> C functions are functions on explicit state with the result type of
  \<open>HS_Prelude\<close>: \<open>Inl\<close> is a fault (a null pointer, a use after free, a read of memory that was
  never written or lies outside its block, overlapping \<^verbatim>\<open>memcpy\<close>, exhausted fuel), \<open>Inr\<close> a
  value. A block of memory is a list of cells that may be unset, so what \<^verbatim>\<open>malloc\<close> returns
  cannot be read before it is written. The machine integers that can wrap are cut to their width
  (\<open>i8\<close>, \<open>i16\<close>, \<open>i32\<close>, \<open>i64\<close>, \<open>size_t\<close>); flag sets are words. Allocation never fails, as
  the source asserts.

  \<^item> \<open>Common\<close>: \<^verbatim>\<open>common.h\<close>, \<^verbatim>\<open>buffer_util.h\<close>, the flags of
    \<^verbatim>\<open>parser.h\<close>; the records of requests, server, parser, buffer and token array.
  \<^item> \<open>Parser_Tables\<close>, \<open>Parser\<close>: the compiled tables and their binary searches, the scanning loop
    and each embedded action. \<open>Parser_Grammar\<close> is the grammar of \<^verbatim>\<open>parser.rl\<close> as a
    readable automaton.
  \<^item> \<open>World\<close>: the operating system as scripts of what each socket delivers and accepts, a heap of
    requests by address, a log of the calls, and the two builds. \<open>w_shift\<close> is the distance by
    which \<^verbatim>\<open>realloc\<close> moves a block, which matters to the parser's pointers.
  \<^item> \<open>Clock\<close>: the number formats of \<^verbatim>\<open>printf\<close>, \<^verbatim>\<open>gmtime\<close> as a calendar and
    \<^verbatim>\<open>strftime\<close> with the format that \<^verbatim>\<open>hs_generate_date_time\<close> uses.
  \<^item> \<open>Read_Socket\<close>, \<open>Request_Util\<close>, \<open>Respond\<close>, \<open>Write_Socket\<close>, \<open>Connection\<close>, \<open>Server\<close>,
    \<open>Io_Events\<close>, \<open>Api\<close>: the files of those names. Functions that call each other through the user's
    code take the functions they call as arguments; \<open>Api\<close> closes the recursion in
    \<open>request_cycle\<close>, where the user's code is an arbitrary function from the state to a program of
    interface calls.

  \<^bold>\<open>What is shown.\<close>

  \<^item> The parser. \<open>Parser_Grammar\<close>: the tables are the grammar, for every state and byte.
    \<open>Parser_Safety\<close>: a call reads and writes only inside the buffer, wherever \<^verbatim>\<open>realloc\<close>
    puts it, and what the cursor is when it moves (the induction over the scanning loop is the
    locale \<open>scan_contract\<close>). \<open>Parser_Tokens\<close>, \<open>Parser_Roundtrip\<close>: parsing
    inverts rendering a head. \<open>Parser_Chunks\<close>: lengths and chunked bodies, and the length of
    the first chunk that is lost when two bytes of its data arrive without the rest. \<open>Head_Runs\<close>, \<open>Parse_Split\<close>, \<open>Parse_Prefix\<close>: parsing a
    head in pieces is parsing it at once, as long as no part is over its limit (locale \<open>head_contract\<close>, for what a run of the head keeps).
    \<open>Parse_Loop\<close>: the loop around the parser ends.
  \<^item> Reading and writing. \<open>Read_Props\<close>: the read loop appends the stream, within its bounds; the
    token array refines a list. \<open>Write_Props\<close>: a response is delivered once, whole and in order.
  \<^item> Inspection and responses. \<open>Request_Props\<close>: caseless comparison against a table of the
    letters, lookup, iteration and the keep-alive decision. \<open>Respond_Props\<close>: the exact bytes of whole
    and chunked responses that fit the initial print buffer, and what is sent for chunks that do not.
    \<open>Clock_Props\<close>: the date line read back is the clock.
  \<^item> The server. \<open>Cycle_Invariants\<close> has the locale \<open>world_invariant\<close>: what every operation, every
    user program and every event keeps, once for all invariants. \<open>Server_Invariants\<close> interprets it
    for the handlers behind the data pointers and for the balance of descriptors, and shows that
    idle connections are closed on time.
  \<^item> The composition. \<open>Delivery\<close>, \<open>Delivered\<close>: from the start of the server through accepting,
    reading and parsing a head in any pieces to one call of the user's handler; the same on a kept
    connection, where stale tokens and the time-out go wrong. \<open>Readable\<close>: what the handler reads
    is what was sent. \<open>Answered\<close>: the whole way from the bytes of a request to the bytes of the
    response, for a handler that answers at once, and what becomes of the connection and of
    bytes behind the request; and that the flag for streamed bodies is the keep-alive flag.
    \<open>Streamed\<close>: the same for a handler that streams its response over callbacks, up to what a client
    decodes. Both rest on the locale \<open>write_phase\<close> (writing a text over any number of events), which
    is interpreted for a whole response and for a chunk. \<open>Bodies\<close>, \<open>Body_Delivery\<close>: a request
    with a body, which is handed over one byte early. \<open>Body_Account\<close>: the memory account that such
    a request falsifies. \<open>Unanswered\<close>: rejected bytes and half-closed connections.

  \<^bold>\<open>Bounds and fuel.\<close> The parse loop runs with \<open>parse_fuel\<close>, a round for each byte that is not yet
  parsed and two more; \<open>parse_loop_ends\<close> shows that it never runs out. The loop of \<^verbatim>\<open>accept\<close>
  has a round for each result in its script and one more. The read loop terminates because each round
  but the last takes bytes from the script. \<open>request_cycle\<close> carries the depth of the C call stack:
  user code that always answers at once and a peer that always has the next request ready do
  recurse without bound in C, and the model says \<open>Out_Of_Fuel\<close> there. The theorems about events hold
  for every depth, or name the depth that the calls need: a streamed response takes two levels for each chunk
  that the socket accepts at once. The event loop does not return;
  \<open>event_loop\<close> runs it over a list of events. The theorems of the composition are about heads,
  bodies and chunks below the initial buffer size of 1024 bytes and blocks that do not move; \<open>Body_Account\<close>
  goes up to the largest buffer, of 8 MB, for the announced length of a body.

  \<^bold>\<open>Not modelled.\<close> What comes from outside is an argument: whether \<^verbatim>\<open>bind\<close>
  succeeds, the number that \<^verbatim>\<open>inet_addr\<close> makes of an address, and the clock in seconds (times
  after 1970; no leap seconds, as in POSIX). Failure of the other system calls that the source does not
  check is not modelled, as nothing depends on their results. \<^verbatim>\<open>accept\<close> also writes the
  address of the peer over the server's own (\<^verbatim>\<open>connection.c\<close>), which nothing reads
  afterwards; the model leaves it. The address of a freed request is not given out again, so a stale
  pointer is a fault and never another request. When \<^verbatim>\<open>bind\<close> fails the process exits, and the
  model has no state after it (nor the \<^verbatim>\<open>close\<close> before the exit). Pointers are offsets without
  bounds: the comparison with \<^verbatim>\<open>last_body_byte\<close> in \<open>act_chunk_read\<close> does not wrap for a content
  length that has, and a string of a request without a buffer has an offset where C has a null
  pointer plus this offset. The limit of 32 bytes that \<^verbatim>\<open>strftime\<close> is given is not part of
  \<open>date_line\<close>, whose length is shown instead. The copies of the sources inside
  \<^verbatim>\<open>src/httpserver.h\<close> are the same code as the files under \<^verbatim>\<open>src/src/\<close> and are not
  modelled a second time. The build files, the tests with their vendored framework, the fuzzer and the
  example are left out.
\<close>

end
